(* ===== verification/Prelude.thy ===== *)
theory Prelude
  imports Main "HOL-Library.Word" "HOL-Library.Code_Target_Nat"
begin

unbundle bit_operations_syntax

text \<open>
  Shared vocabulary of the development: the machine integers of Go, outcomes with
  panics, and the generic facts on lists, folds, words and codecs that the component
  theories use.

  Go strings are byte sequences, so \<^typ>\<open>string\<close> (a list of 8-bit characters) is the
  model of both \<^verbatim>\<open>string\<close> and of text held in a \<^verbatim>\<open>[]byte\<close>; binary protocol data is a list
  of \<^typ>\<open>8 word\<close>. \<^verbatim>\<open>uint64\<close> and \<^verbatim>\<open>uint16\<close> are words; \<^verbatim>\<open>int\<close>, \<^verbatim>\<open>int64\<close> and \<^verbatim>\<open>time.Duration\<close> are
  \<^typ>\<open>int\<close> kept in the signed 64-bit range by \<open>wrap64\<close> wherever the source can overflow.
\<close>

named_theorems go_defs \<open>unfolding rules of the small Go helpers\<close>
named_theorems wrap64_simps \<open>rewriting rules for signed 64-bit arithmetic\<close>

type_synonym u64 = "64 word"
type_synonym u32 = "32 word"
type_synonym u16 = "16 word"
type_synonym byte = "8 word"

section \<open>Outcomes and panics\<close>

datatype panic = DivideByZero | IndexOutOfRange | NilDereference | MakeSliceLen | PanicErr

text \<open>A Go call either returns or panics; a panic unwinds every caller.\<close>

datatype 'a outcome = Ret 'a | Panicked panic

fun bind_outcome :: "'a outcome \<Rightarrow> ('a \<Rightarrow> 'b outcome) \<Rightarrow> 'b outcome" where
  "bind_outcome (Ret x) f = f x"
| "bind_outcome (Panicked p) f = Panicked p"

lemma bind_outcome_Ret_iff:
  "bind_outcome m f = Ret y \<longleftrightarrow> (\<exists>x. m = Ret x \<and> f x = Ret y)"
  by (cases m) auto

section \<open>Signed 64-bit integers\<close>

definition wrap64 :: "int \<Rightarrow> int" where
  "wrap64 x = signed_take_bit 63 x"

definition in_int64 :: "int \<Rightarrow> bool" where
  "in_int64 x \<longleftrightarrow> - (2 ^ 63) \<le> x \<and> x < 2 ^ 63"

lemma wrap64_id: "in_int64 x \<Longrightarrow> wrap64 x = x"
  by (simp add: wrap64_def in_int64_def signed_take_bit_int_eq_self)

lemma wrap64_range: "in_int64 (wrap64 x)"
  unfolding wrap64_def in_int64_def
  by (intro conjI signed_take_bit_int_greater_eq_minus_exp signed_take_bit_int_less_exp)

lemma wrap64_idem [wrap64_simps]: "wrap64 (wrap64 x) = wrap64 x"
  by (rule wrap64_id) (rule wrap64_range)

lemma wrap64_add_left [wrap64_simps]: "wrap64 (wrap64 x + y) = wrap64 (x + y)"
proof -
  have "signed_take_bit 63 (signed_take_bit 63 x + y) =
      signed_take_bit 63 (signed_take_bit 63 (signed_take_bit 63 x) + signed_take_bit 63 y)"
    by (simp only: signed_take_bit_add)
  also have "\<dots> = signed_take_bit 63 (x + y)"
    by (simp only: signed_take_bit_signed_take_bit min.idem signed_take_bit_add)
  finally show ?thesis
    by (simp add: wrap64_def)
qed

lemma wrap64_add_right [wrap64_simps]: "wrap64 (x + wrap64 y) = wrap64 (x + y)"
  using wrap64_add_left [of y x] by (simp add: add.commute)

lemma wrap64_shift: "wrap64 (x - 2 ^ 64) = wrap64 x"
proof -
  have "(x - 2 ^ 64 + 2 ^ 63) mod 2 ^ 64 = (x + 2 ^ 63 - 2 ^ 64) mod 2 ^ 64"
    by (simp add: algebra_simps)
  also have "\<dots> = (x + 2 ^ 63) mod 2 ^ 64"
    by (rule minus_mod_self2)
  finally have "take_bit 64 (x - 2 ^ 64 + 2 ^ 63) = take_bit 64 (x + 2 ^ 63)"
    by (simp only: take_bit_eq_mod)
  then show ?thesis
    by (simp add: wrap64_def signed_take_bit_eq_take_bit_shift)
qed

lemma sint_eq_uint_small: "uint w < 2 ^ 63 \<Longrightarrow> sint w = uint w" for w :: u64
  unfolding sint_uint
  by (rule signed_take_bit_int_eq_self) (simp_all add: order_trans [OF _ uint_ge_0])

lemma mod_pos_neg_trivial_plus:
  fixes n m :: int
  assumes "- m \<le> n" and "n < 0"
  shows "n mod m = n + m"
proof -
  have "n mod m = (n + m) mod m" by simp
  also have "\<dots> = n + m" using assms by (intro mod_pos_pos_trivial) simp_all
  finally show ?thesis .
qed

section \<open>Left folds with an injective step\<close>

text \<open>
  A running hash consumes its input byte by byte. When every step is injective in the
  state, a difference between two states survives every common suffix of the input.
\<close>

locale inj_step =
  fixes step :: "'s \<Rightarrow> 'b \<Rightarrow> 's"
  assumes step_inj: "step s b = step t b \<Longrightarrow> s = t"
begin

lemma foldl_inj: "foldl step s bs = foldl step t bs \<Longrightarrow> s = t"
  by (induction bs arbitrary: s t) (auto dest: step_inj)

lemma foldl_append_inj:
  "foldl step s (as @ bs) = foldl step s (cs @ bs) \<Longrightarrow> foldl step s as = foldl step s cs"
  by (auto dest: foldl_inj)

end

section \<open>Codecs\<close>

text \<open>
  An encoder with a partial decoder that inverts it on a domain of values; the encoder
  is then injective on that domain.
\<close>

locale codec =
  fixes enc :: "'a \<Rightarrow> 'b"
    and dec :: "'b \<Rightarrow> 'a option"
    and valid :: "'a \<Rightarrow> bool"
  assumes dec_enc: "valid x \<Longrightarrow> dec (enc x) = Some x"
begin

lemma enc_inj:
  assumes "valid x" "valid y" "enc x = enc y"
  shows "x = y"
proof -
  have "Some x = dec (enc y)"
    using dec_enc [OF assms(1)] assms(3) by simp
  with dec_enc [OF assms(2)] show ?thesis by simp
qed

end

end
