(* ===== verification/SessionSeed.thy ===== *)
theory SessionSeed
  imports Prelude
begin

text \<open>
  \<^verbatim>\<open>proxy-kit/session_seed.go\<close>: the deterministic value sources use for reproducible
  choices. The 64-bit FNV-1a hash of \<^verbatim>\<open>hash/fnv\<close> is modelled on words, so that
  multiplication wraps as it does in Go.
\<close>

section \<open>FNV-1a\<close>

definition fnv_offset64 :: u64 where
  "fnv_offset64 = 14695981039346656037"

definition fnv_prime64 :: u64 where
  "fnv_prime64 = 1099511628211"

definition fnv_step :: "u64 \<Rightarrow> byte \<Rightarrow> u64" where
  "fnv_step h b = (h XOR ucast b) * fnv_prime64"

definition fnv_write :: "u64 \<Rightarrow> byte list \<Rightarrow> u64" where
  "fnv_write h bs = foldl fnv_step h bs"

definition bytes_of :: "string \<Rightarrow> byte list" where
  "bytes_of s = map of_char s"

text \<open>\<^verbatim>\<open>binary.LittleEndian.PutUint64\<close>.\<close>

definition put_uint64_le :: "u64 \<Rightarrow> byte list" where
  "put_uint64_le v = map (\<lambda>i. ucast (drop_bit (8 * i) v)) [0..<8]"

section \<open>Session seeds\<close>

record SessionSeed =
  seed_value :: u64

definition NewSessionSeed :: "u64 \<Rightarrow> u64 \<Rightarrow> SessionSeed" where
  "NewSessionSeed topLevelSeed rotation =
     \<lparr>seed_value = fnv_write (fnv_write fnv_offset64 (put_uint64_le topLevelSeed))
        (put_uint64_le rotation)\<rparr>"

definition TopLevelSeed :: "string \<Rightarrow> u64" where
  "TopLevelSeed key = fnv_write fnv_offset64 (bytes_of key)"

text \<open>The loop of \<^verbatim>\<open>DeriveStringKey\<close>: the remaining length and the LCG state.\<close>

fun derive_loop :: "string \<Rightarrow> u64 \<Rightarrow> nat \<Rightarrow> string" where
  "derive_loop charset v 0 = []"
| "derive_loop charset v (Suc k) =
     charset ! unat (v mod of_nat (length charset)) #
     derive_loop charset (v * 6364136223846793005 + 1442695040888963407) k"

definition DeriveStringKey :: "SessionSeed \<Rightarrow> string \<Rightarrow> int \<Rightarrow> string outcome" where
  "DeriveStringKey s charset len =
     (if len < 0 then Panicked MakeSliceLen
      else if charset = [] \<and> 0 < len then Panicked DivideByZero
      else let v = seed_value s XOR drop_bit 17 (seed_value s) XOR push_bit 31 (seed_value s)
           in Ret (derive_loop charset v (nat len)))"

definition Pick :: "SessionSeed \<Rightarrow> int \<Rightarrow> int outcome" where
  "Pick s n =
     (if (word_of_int n :: u64) = 0 then Panicked DivideByZero
      else Ret (sint (seed_value s mod word_of_int n)))"

section \<open>The hash step is injective in the state\<close>

lemma fnv_prime_invertible: "fnv_prime64 * 14886173955864302971 = 1"
  by (simp add: fnv_prime64_def)

lemma fnv_prime_cancel:
  assumes "x * fnv_prime64 = y * fnv_prime64"
  shows "x = y"
proof -
  have "x * (fnv_prime64 * 14886173955864302971) = y * (fnv_prime64 * 14886173955864302971)"
    by (simp only: mult.assoc [symmetric] assms)
  then show ?thesis
    by (simp only: fnv_prime_invertible mult_1_right)
qed

lemma xor_cancel_right: "a XOR c = b XOR c \<Longrightarrow> a = b" for a b c :: "'a::len word"
  by (metis bit.xor_self xor.assoc xor.right_neutral)

interpretation fnv: inj_step fnv_step
  by unfold_locales (auto simp: fnv_step_def dest: fnv_prime_cancel xor_cancel_right)

lemma xor_byte_div:
  fixes h :: u64
  shows "uint (h XOR ucast (b::byte)) div 256 = uint h div 256"
proof -
  have "drop_bit 8 (h XOR ucast b) = drop_bit 8 h"
    by (simp add: drop_bit_xor) (transfer, simp add: drop_bit_take_bit)
  then have "uint (drop_bit 8 (h XOR ucast b)) = uint (drop_bit 8 h)" by simp
  then show ?thesis
    by (simp add: drop_bit_eq_div uint_div)
qed

lemma fnv_mult_separates:
  fixes ux uy :: int
  assumes "ux div 256 = uy div 256"
    and "(ux * 1099511628211) mod 2 ^ 64 div 256 = (uy * 1099511628211) mod 2 ^ 64 div 256"
  shows "ux = uy"
proof -
  define d where "d = ux - uy"
  define e where "e = (ux * 1099511628211) mod 2 ^ 64 - (uy * 1099511628211) mod 2 ^ 64"
  define k where "k = ux * 1099511628211 div 2 ^ 64 - uy * 1099511628211 div 2 ^ 64"
  have near: "\<bar>x - y\<bar> < 256" if "x div 256 = y div 256" for x y :: int
    using that by linarith
  have d: "\<bar>d\<bar> < 256" and e: "\<bar>e\<bar> < 256"
    unfolding d_def e_def by (rule near [OF assms(1)], rule near [OF assms(2)])
  have eq: "d * 1099511628211 = 2 ^ 64 * k + e"
    unfolding d_def e_def k_def
    by (simp add: left_diff_distrib right_diff_distrib minus_mod_eq_mult_div [symmetric])
  have "\<not> 1 \<le> k"
  proof
    assume "1 \<le> k"
    then have "2 ^ 64 + e \<le> d * 1099511628211" using eq by simp
    with d e show False by simp
  qed
  moreover have "\<not> k \<le> -1"
  proof
    assume "k \<le> -1"
    then have "d * 1099511628211 \<le> - (2 ^ 64) + e" using eq by simp
    with d e show False by simp
  qed
  ultimately have "k = 0" by linarith
  then have "d * 1099511628211 = e" using eq by simp
  then have "d = 0" using e by linarith
  then show ?thesis
    by (simp add: d_def)
qed

lemma ucast_byte_inj: "(ucast (a::byte) :: u64) = ucast b \<Longrightarrow> a = b"
  by (transfer, simp)
lemma xor_left_cancel: "h XOR a = h XOR b \<Longrightarrow> a = b" for a b h :: "'a::len word"
  by (metis xor.commute xor_cancel_right)

lemma fnv_two_bytes:
  assumes "fnv_step (fnv_step h a) b = fnv_step (fnv_step h c) d"
  shows "a = c \<and> b = d"
proof -
  let ?x = "h XOR ucast a" and ?y = "h XOR ucast c"
  have eq: "?x * fnv_prime64 XOR ucast b = ?y * fnv_prime64 XOR ucast d"
    using assms by (auto simp: fnv_step_def dest: fnv_prime_cancel)
  have "uint (?x * fnv_prime64) div 256 = uint (?y * fnv_prime64) div 256"
    by (metis eq xor_byte_div)
  moreover have "uint ?x div 256 = uint ?y div 256"
    by (simp only: xor_byte_div)
  moreover have "uint (w * fnv_prime64) = (uint w * 1099511628211) mod 2 ^ 64" for w
    by (simp add: uint_word_ariths(3) fnv_prime64_def)
  ultimately have "uint ?x = uint ?y"
    by (metis fnv_mult_separates)
  then have "?x = ?y" by (rule word_uint_eqI)
  then have "a = c"
    by (blast dest: xor_left_cancel ucast_byte_inj)
  with eq show ?thesis
    by (blast dest: xor_left_cancel ucast_byte_inj)
qed

text \<open>Only the two low bytes of a 64-bit value differ when its upper bits agree.\<close>

lemma put_uint64_le_split:
  "put_uint64_le v = ucast v # ucast (drop_bit 8 v) #
     map (\<lambda>i. ucast (drop_bit (8 * i) (drop_bit 16 v))) [0..<6]"
  by (simp add: put_uint64_le_def upt_rec)

lemma low_bytes_determine:
  fixes v w :: u64
  assumes "ucast v = (ucast w :: byte)" "ucast (drop_bit 8 v) = (ucast (drop_bit 8 w) :: byte)"
    and "drop_bit 16 v = drop_bit 16 w"
  shows "v = w"
proof (rule bit_word_eqI)
  fix n assume n: "n < LENGTH(64)"
  consider "n < 8" | "8 \<le> n" "n < 16" | "16 \<le> n" by linarith
  then show "bit v n \<longleftrightarrow> bit w n"
  proof cases
    case 1
    have "bit (ucast v :: byte) n = bit (ucast w :: byte) n" by (simp only: assms(1))
    with 1 show ?thesis by (simp add: bit_ucast_iff)
  next
    case 2
    have "bit (ucast (drop_bit 8 v) :: byte) (n - 8) = bit (ucast (drop_bit 8 w) :: byte) (n - 8)"
      by (simp only: assms(2))
    moreover from 2 have "n - 8 < 8" by linarith
    ultimately show ?thesis using 2 by (simp add: bit_ucast_iff bit_drop_bit_eq)
  next
    case 3
    have "bit (drop_bit 16 v) (n - 16) = bit (drop_bit 16 w) (n - 16)" by (simp only: assms(3))
    with 3 show ?thesis by (simp add: bit_drop_bit_eq)
  qed
qed

lemma NewSessionSeed_low_distinct:
  assumes "drop_bit 16 r = drop_bit 16 r'" and "r \<noteq> r'"
  shows "NewSessionSeed t r \<noteq> NewSessionSeed t r'"
proof
  let ?h = "fnv_write fnv_offset64 (put_uint64_le t)"
  let ?tail = "\<lambda>v::u64. map (\<lambda>i. ucast (drop_bit (8 * i) (drop_bit 16 v)) :: byte) [0..<6]"
  assume "NewSessionSeed t r = NewSessionSeed t r'"
  then have "foldl fnv_step (fnv_step (fnv_step ?h (ucast r)) (ucast (drop_bit 8 r))) (?tail r) =
      foldl fnv_step (fnv_step (fnv_step ?h (ucast r')) (ucast (drop_bit 8 r'))) (?tail r)"
    using assms(1) by (simp add: NewSessionSeed_def fnv_write_def put_uint64_le_split)
  then have "fnv_step (fnv_step ?h (ucast r)) (ucast (drop_bit 8 r)) =
      fnv_step (fnv_step ?h (ucast r')) (ucast (drop_bit 8 r'))"
    by (rule fnv.foldl_inj)
  then have "ucast r = (ucast r' :: byte)" "ucast (drop_bit 8 r) = (ucast (drop_bit 8 r') :: byte)"
    by (auto dest: fnv_two_bytes)
  with assms show False
    by (blast dest: low_bytes_determine)
qed

section \<open>Properties\<close>

text \<open>Rotating a session changes its seed: for every top-level seed, two rotation counters
  that agree above their 16 low bits (in particular any two of the first 65536 rotations) give
  different session seeds.\<close>

lemma NewSessionSeed_rotation_distinct:
  assumes "drop_bit 16 r = drop_bit 16 r'" and "r \<noteq> r'"
  shows "NewSessionSeed t r \<noteq> NewSessionSeed t r'"
  using assms by (rule NewSessionSeed_low_distinct)

lemma NewSessionSeed_rotation_distinct_witness:
  "NewSessionSeed (TopLevelSeed ''alice'') 0 \<noteq> NewSessionSeed (TopLevelSeed ''alice'') 300"
  by (rule NewSessionSeed_rotation_distinct) simp_all

lemma derive_loop_length: "length (derive_loop cs v k) = k"
  by (induction k arbitrary: v) auto

lemma unat_mod_less: "0 < n \<Longrightarrow> n < 2 ^ 64 \<Longrightarrow> unat (v mod of_nat n :: u64) < n"
  by (simp add: unat_mod unat_of_nat)

lemma derive_loop_set:
  "cs \<noteq> [] \<Longrightarrow> length cs < 2 ^ 64 \<Longrightarrow> set (derive_loop cs v k) \<subseteq> set cs"
  by (induction k arbitrary: v) (auto intro!: nth_mem simp: unat_mod_less simp del: of_nat_numeral)

text \<open>With a non-empty charset and a non-negative length, DeriveStringKey returns, and the
  key has exactly the requested length and uses only characters of the charset.\<close>

lemma DeriveStringKey_spec:
  assumes "cs \<noteq> []" and "length cs < 2 ^ 64" and "0 \<le> n"
  shows "\<exists>k. DeriveStringKey s cs n = Ret k \<and> int (length k) = n \<and> set k \<subseteq> set cs"
  using assms derive_loop_set [OF assms(1,2)]
  by (simp add: DeriveStringKey_def Let_def derive_loop_length)

lemma DeriveStringKey_spec_witness:
  "\<exists>k. DeriveStringKey (NewSessionSeed 99 0) ''abc'' 100 = Ret k \<and> int (length k) = 100 \<and>
     set k \<subseteq> set ''abc''"
  by (rule DeriveStringKey_spec) simp_all

lemma uint_word_of_int_pos: "0 \<le> n \<Longrightarrow> n < 2 ^ 63 \<Longrightarrow> uint (word_of_int n :: u64) = n"
  by (simp add: uint_word_of_int)

lemma Pick_positive:
  assumes "0 < n" and "n < 2 ^ 63"
  shows "\<exists>i. Pick s n = Ret i \<and> 0 \<le> i \<and> i < n"
proof -
  have n: "uint (word_of_int n :: u64) = n"
    using assms by (simp add: uint_word_of_int_pos)
  then have nz: "(word_of_int n :: u64) \<noteq> 0"
    using assms(1) by force
  let ?m = "seed_value s mod word_of_int n"
  have "uint ?m = uint (seed_value s) mod n"
    by (simp add: uint_mod n)
  with assms have lt: "0 \<le> uint ?m" "uint ?m < n" by simp_all
  have "sint ?m = uint ?m"
    using lt assms(2) by (intro sint_eq_uint_small) simp
  with lt nz show ?thesis
    by (simp add: Pick_def)
qed

lemma word_of_int_neg_nonzero:
  assumes "- (2 ^ 63) \<le> n" and "n < 0"
  shows "(word_of_int n :: u64) \<noteq> 0"
proof
  assume "(word_of_int n :: u64) = 0"
  then have "n mod 2 ^ 64 = 0"
    by (simp add: word_of_int_eq_0_iff flip: dvd_eq_mod_eq_0)
  moreover have "n mod 2 ^ 64 = n + 2 ^ 64"
    using assms by (intro mod_pos_neg_trivial_plus) simp_all
  ultimately show False
    using assms by simp
qed

text \<open>Pick on every 64-bit n: a positive n gives an index in [0, n), n = 0 is a division by
  zero, and a negative n does not panic (it is reduced modulo the huge unsigned value).\<close>

lemma Pick_behaviour:
  assumes "in_int64 n"
  shows "(0 < n \<longrightarrow> (\<exists>i. Pick s n = Ret i \<and> 0 \<le> i \<and> i < n)) \<and>
    (n = 0 \<longrightarrow> Pick s n = Panicked DivideByZero) \<and>
    (n < 0 \<longrightarrow> (\<exists>i. Pick s n = Ret i))"
  using assms Pick_positive [of n s] word_of_int_neg_nonzero [of n]
  by (auto simp: in_int64_def Pick_def)

lemma Pick_behaviour_witness:
  "(\<exists>i. Pick (NewSessionSeed 7 0) 5 = Ret i \<and> 0 \<le> i \<and> i < 5) \<and>
   Pick (NewSessionSeed 7 0) 0 = Panicked DivideByZero \<and>
   (\<exists>i. Pick (NewSessionSeed 7 0) (-3) = Ret i)"
  using Pick_behaviour [of 5 "NewSessionSeed 7 0"] Pick_behaviour [of 0 "NewSessionSeed 7 0"]
    Pick_behaviour [of "-3" "NewSessionSeed 7 0"]
  by (simp add: in_int64_def)

end
