(* ===== verification/Core.thy ===== *)
theory Core
  imports SessionSeed
begin

text \<open>
  The data types of package \<^verbatim>\<open>proxykit\<close> that every component shares: protocols and
  proxies (\<^verbatim>\<open>protocol.go\<close>, \<^verbatim>\<open>proxy.go\<close>), errors, the request context (\<^verbatim>\<open>context.go\<close> and the
  context helpers of the other files), rate-limit rules and connection trackers, requests,
  results and handlers (\<^verbatim>\<open>handler.go\<close>).
\<close>

section \<open>Protocols and proxies\<close>

type_synonym Protocol = string

definition ProtocolHTTP :: Protocol where "ProtocolHTTP = ''http''"
definition ProtocolSOCKS5 :: Protocol where "ProtocolSOCKS5 = ''socks5''"

record Proxy =
  pHost :: string
  pPort :: u16
  pUsername :: string
  pPassword :: string
  pProtocol :: Protocol

definition Proto :: "Proxy \<Rightarrow> Protocol" where
  "Proto p = (if pProtocol p = '''' then ProtocolHTTP else pProtocol p)"

section \<open>Errors\<close>

text \<open>One constructor per \<^verbatim>\<open>fmt.Errorf\<close> of the modelled code; the arguments are the
  values the message shows.\<close>

datatype error =
    ErrAuth error
  | ErrUnknownIdentity string
  | ErrInvalidCredentials
  | ErrConcurrentLimit int string
  | ErrTotalLimit int string
  | ErrRateLimit string
  | ErrExpectedHostPort string
  | ErrInvalidPort string
  | ErrUnclosedBracket string
  | ErrExpectedColon string
  | ErrExpectedUserPass string
  | ErrExpectedFormat string
  | ErrEmptyPool
  | ErrInvalidEntry nat string error
  | ErrTokenTooLong
  | ErrReadFile string
  | ErrNoProxies string
  | ErrEnvNotSet string
  | ErrCityNeedsCountry nat
  | ErrUnknownProduct string
  | ErrEmptyUsername
  | ErrInvalidJSON
  | ErrEmptySet
  | ErrUnknownSet string
  | ErrMissingSection string string
  | ErrUnknownSource string string
  | ErrProxySet string error
  | ErrNotBasic
  | ErrInvalidBase64
  | ErrOther string

section \<open>JSON values and request metadata\<close>

text \<open>The dynamic values of \<^verbatim>\<open>map[string]interface{}\<close> as \<^verbatim>\<open>encoding/json\<close> produces them. A number
  is a \<^verbatim>\<open>float64\<close>, kept as its 64 IEEE bits. Objects are association lists with distinct keys
  in no particular order, as Go maps are.\<close>

datatype json =
    JNull
  | JBool bool
  | JNum u64
  | JStr string
  | JArr "json list"
  | JObj "(string \<times> json) list"

type_synonym meta = "(string \<times> json) list"

definition Meta_GetString :: "meta \<Rightarrow> string \<Rightarrow> string" where
  "Meta_GetString m key = (case map_of m key of Some (JStr s) \<Rightarrow> s | _ \<Rightarrow> '''')"

section \<open>Contexts\<close>

record TLSState =
  Broken :: bool
  ServerName :: string

datatype ctxKey =
    CtxIdentity | CtxCredential | CtxTLSState
  | CtxSeedKey
  | CtxTopLevelSeed | CtxSeedTTL | CtxSessionLabel
  | CtxMeta
  | CtxSet

datatype ctxVal =
    VString string
  | VTLS TLSState
  | VSeed "SessionSeed option"
  | VU64 u64
  | VDuration int
  | VMeta meta

text \<open>\<^verbatim>\<open>context.WithValue\<close> builds a chain of key/value cells; \<^verbatim>\<open>Value\<close> finds the innermost one.\<close>

type_synonym Context = "(ctxKey \<times> ctxVal) list"

definition background :: Context where "background = []"

definition WithValue :: "Context \<Rightarrow> ctxKey \<Rightarrow> ctxVal \<Rightarrow> Context" where
  [go_defs]: "WithValue ctx k v = (k, v) # ctx"

definition ctx_value :: "Context \<Rightarrow> ctxKey \<Rightarrow> ctxVal option" where
  [go_defs]: "ctx_value ctx k = map_of ctx k"

lemma ctx_value_WithValue [simp]:
  "ctx_value (WithValue ctx k v) k' = (if k' = k then Some v else ctx_value ctx k')"
  by (simp add: go_defs)

definition ctx_string :: "Context \<Rightarrow> ctxKey \<Rightarrow> string" where
  "ctx_string ctx k = (case ctx_value ctx k of Some (VString s) \<Rightarrow> s | _ \<Rightarrow> '''')"

lemma ctx_string_WithValue [simp]:
  "ctx_string (WithValue ctx k v) k' =
     (if k' = k then (case v of VString s \<Rightarrow> s | _ \<Rightarrow> '''') else ctx_string ctx k')"
  by (simp add: ctx_string_def)

definition WithIdentity :: "Context \<Rightarrow> string \<Rightarrow> Context" where
  "WithIdentity ctx i = WithValue ctx CtxIdentity (VString i)"

definition Identity :: "Context \<Rightarrow> string" where
  "Identity ctx = ctx_string ctx CtxIdentity"

definition WithCredential :: "Context \<Rightarrow> string \<Rightarrow> Context" where
  "WithCredential ctx c = WithValue ctx CtxCredential (VString c)"

definition Credential :: "Context \<Rightarrow> string" where
  "Credential ctx = ctx_string ctx CtxCredential"

definition WithTLSState :: "Context \<Rightarrow> TLSState \<Rightarrow> Context" where
  "WithTLSState ctx s = WithValue ctx CtxTLSState (VTLS s)"

definition GetTLSState :: "Context \<Rightarrow> TLSState" where
  "GetTLSState ctx = (case ctx_value ctx CtxTLSState of Some (VTLS s) \<Rightarrow> s
     | _ \<Rightarrow> \<lparr>Broken = False, ServerName = ''''\<rparr>)"

definition WithSessionSeed :: "Context \<Rightarrow> SessionSeed option \<Rightarrow> Context" where
  "WithSessionSeed ctx s = WithValue ctx CtxSeedKey (VSeed s)"

definition GetSessionSeed :: "Context \<Rightarrow> SessionSeed option" where
  "GetSessionSeed ctx = (case ctx_value ctx CtxSeedKey of Some (VSeed s) \<Rightarrow> s | _ \<Rightarrow> None)"

definition WithTopLevelSeed :: "Context \<Rightarrow> u64 \<Rightarrow> Context" where
  "WithTopLevelSeed ctx s = WithValue ctx CtxTopLevelSeed (VU64 s)"

definition GetTopLevelSeed :: "Context \<Rightarrow> u64" where
  "GetTopLevelSeed ctx = (case ctx_value ctx CtxTopLevelSeed of Some (VU64 s) \<Rightarrow> s | _ \<Rightarrow> 0)"

definition WithSeedTTL :: "Context \<Rightarrow> int \<Rightarrow> Context" where
  "WithSeedTTL ctx d = WithValue ctx CtxSeedTTL (VDuration d)"

definition GetSeedTTL :: "Context \<Rightarrow> int" where
  "GetSeedTTL ctx = (case ctx_value ctx CtxSeedTTL of Some (VDuration d) \<Rightarrow> d | _ \<Rightarrow> 0)"

definition WithSessionLabel :: "Context \<Rightarrow> string \<Rightarrow> Context" where
  "WithSessionLabel ctx l = WithValue ctx CtxSessionLabel (VString l)"

definition GetSessionLabel :: "Context \<Rightarrow> string" where
  "GetSessionLabel ctx = ctx_string ctx CtxSessionLabel"

definition WithMeta :: "Context \<Rightarrow> meta \<Rightarrow> Context" where
  "WithMeta ctx m = WithValue ctx CtxMeta (VMeta m)"

definition GetMeta :: "Context \<Rightarrow> meta" where
  "GetMeta ctx = (case ctx_value ctx CtxMeta of Some (VMeta m) \<Rightarrow> m | _ \<Rightarrow> [])"

definition withSet :: "Context \<Rightarrow> string \<Rightarrow> Context" where
  "withSet ctx s = WithValue ctx CtxSet (VString s)"

definition getSet :: "Context \<Rightarrow> string" where
  "getSet ctx = ctx_string ctx CtxSet"

lemmas ctx_defs = WithIdentity_def Identity_def WithCredential_def Credential_def
  WithTLSState_def GetTLSState_def WithSessionSeed_def GetSessionSeed_def
  WithTopLevelSeed_def GetTopLevelSeed_def WithSeedTTL_def GetSeedTTL_def
  WithSessionLabel_def GetSessionLabel_def WithMeta_def GetMeta_def withSet_def getSet_def

text \<open>The seed put in a context leaves every other value readable.\<close>

lemma ctx_frame_seed [simp]:
  "GetSessionSeed (WithSessionSeed ctx s) = s"
  "GetTopLevelSeed (WithSessionSeed ctx s) = GetTopLevelSeed ctx"
  "GetSeedTTL (WithSessionSeed ctx s) = GetSeedTTL ctx"
  "GetSessionLabel (WithSessionSeed ctx s) = GetSessionLabel ctx"
  "GetMeta (WithSessionSeed ctx s) = GetMeta ctx"
  "getSet (WithSessionSeed ctx s) = getSet ctx"
  "Identity (WithSessionSeed ctx s) = Identity ctx"
  by (simp_all add: ctx_defs)

section \<open>Rate-limit rules and connection trackers\<close>

datatype LimitType =
    LimitConcurrentConnections | LimitTotalConnections
  | LimitUploadBytes | LimitDownloadBytes | LimitTotalBytes

datatype Timeframe = Realtime | Secondly | Minutely | Hourly | Daily | Weekly | Monthly

record RateLimitRule =
  rlType :: LimitType
  rlTimeframe :: Timeframe
  rlWindow :: int
  rlMax :: int

text \<open>
  The trackers of the code base: the tracker of a rate limiter, with its rules and a pointer
  to the shared counters of one key (an address in the store of \<open>RateLimit\<close>), a chain of two
  trackers, and the no-op handle.
\<close>

datatype ConnTracker =
    RlConnTracker "RateLimitRule list" nat
  | ChainedTracker ConnTracker ConnTracker
  | NoopHandle

definition ChainTrackers :: "ConnTracker option \<Rightarrow> ConnTracker option \<Rightarrow> ConnTracker option" where
  "ChainTrackers a b = (case a of None \<Rightarrow> b
     | Some x \<Rightarrow> (case b of None \<Rightarrow> a | Some y \<Rightarrow> Some (ChainedTracker x y)))"

section \<open>Requests, results, handlers\<close>

text \<open>
  An \<^verbatim>\<open>http.Header\<close> is a Go map, an association list with distinct keys in the order an iteration
  meets them. A response body is the list of the pieces its \<^verbatim>\<open>Read\<close> calls return before the one
  that reports the end or an error; \<open>None\<close> is a nil \<^verbatim>\<open>Body\<close>.
\<close>

type_synonym header = "(string \<times> string list) list"

record HTTPRequest =
  hqMethod :: string
  hqScheme :: string
  hqURLHost :: string
  hqPath :: string
  hqHost :: string
  hqRequestURI :: string
  hqHeader :: header
  hqContentLength :: int

record HTTPResponse =
  hpStatusCode :: int
  hpHeader :: header
  hpBody :: "string list option"

record Request =
  RawUsername :: string
  RawPassword :: string
  Target :: string
  Conn :: "nat option"
  reqHTTP :: "HTTPRequest option"

record Result =
  rProxy :: "Proxy option"
  rConnTracker :: "ConnTracker option"
  rResponseHook :: "(HTTPResponse \<Rightarrow> HTTPResponse) option"
  rHTTPResponse :: "HTTPResponse option"
  rUpstreamConn :: "nat option"

definition Resolved :: "Proxy \<Rightarrow> Result" where
  "Resolved p = \<lparr>rProxy = Some p, rConnTracker = None, rResponseHook = None,
     rHTTPResponse = None, rUpstreamConn = None\<rparr>"

lemma Resolved_sel [simp]:
  "rProxy (Resolved p) = Some p" "rConnTracker (Resolved p) = None"
  "rResponseHook (Resolved p) = None" "rHTTPResponse (Resolved p) = None"
  by (simp_all add: Resolved_def)

lemma Resolved_inject [simp]: "Resolved p = Resolved q \<longleftrightarrow> p = q"
  by (simp add: Resolved_def)

definition emptyRequest :: Request where
  "emptyRequest = \<lparr>RawUsername = '''', RawPassword = '''', Target = '''', Conn = None, reqHTTP = None\<rparr>"

text \<open>
  \<^verbatim>\<open>Resolve\<close> returns a result pointer and an error, either of which may be nil, or panics.
  The state a handler and everything behind it mutate is threaded explicitly.
\<close>

type_synonym resolution = "(Result option \<times> error option) outcome"
type_synonym 's handler = "Context \<Rightarrow> Request \<Rightarrow> 's \<Rightarrow> resolution \<times> 's"

text \<open>The guard the middlewares share: \<^verbatim>\<open>err != nil || result == nil || result.Proxy == nil\<close>.\<close>

definition no_proxy :: "Result option \<Rightarrow> error option \<Rightarrow> bool" where
  "no_proxy res err \<longleftrightarrow> err \<noteq> None \<or> (case res of None \<Rightarrow> True | Some r \<Rightarrow> rProxy r = None)"

lemma not_no_proxyE:
  assumes "\<not> no_proxy res err"
  obtains r p where "res = Some r" "rProxy r = Some p" "err = None"
  using assms by (auto simp: no_proxy_def split: option.splits)

lemma no_proxy_simps [simp]:
  "no_proxy None err" "no_proxy res (Some e)"
  "no_proxy (Some r) None \<longleftrightarrow> rProxy r = None"
  by (simp_all add: no_proxy_def)

end
