(* ===== verification/RollingCounter.thy ===== *)
theory RollingCounter
  imports Core "HOL-Library.Signed_Division"
begin

text \<open>
  The windowed counters of \<^verbatim>\<open>proxy-kit/ratelimit.go\<close> (\<^verbatim>\<open>Timeframe.duration\<close>, \<^verbatim>\<open>windowDuration\<close> and
  \<^verbatim>\<open>rollingCounter\<close>). Times are nanoseconds; \<^verbatim>\<open>time.Now()\<close> readings are arguments, one per call
  in the source. The refinement below shows which window the counter really implements.
\<close>

section \<open>Windows\<close>

definition nsMillisecond :: int where "nsMillisecond = 1000000"
definition nsSecond :: int where "nsSecond = 1000000000"
definition nsMinute :: int where "nsMinute = 60 * nsSecond"
definition nsHour :: int where "nsHour = 60 * nsMinute"

lemmas ns_defs = nsMillisecond_def nsSecond_def nsMinute_def nsHour_def

fun tf_duration :: "Timeframe \<Rightarrow> int" where
  "tf_duration Secondly = nsSecond"
| "tf_duration Minutely = nsMinute"
| "tf_duration Hourly = nsHour"
| "tf_duration Daily = 24 * nsHour"
| "tf_duration Weekly = 7 * 24 * nsHour"
| "tf_duration Monthly = 30 * 24 * nsHour"
| "tf_duration Realtime = 0"

definition windowDuration :: "RateLimitRule \<Rightarrow> int" where
  "windowDuration r =
     (let w = (if rlWindow r < 1 then 1 else rlWindow r)
      in wrap64 (tf_duration (rlTimeframe r) * w))"

section \<open>The counter\<close>

definition numBuckets :: nat where "numBuckets = 60"

record rollingCounter =
  rc_buckets :: "int list"
  rc_times :: "int list"
  rc_slotSize :: int

definition newRollingCounter :: "int \<Rightarrow> int \<Rightarrow> rollingCounter" where
  "newRollingCounter window now =
     (let slotSize0 = window sdiv int numBuckets;
          slotSize = (if slotSize0 < nsMillisecond then nsMillisecond else slotSize0)
      in \<lparr>rc_buckets = replicate numBuckets 0, rc_times = replicate numBuckets now, rc_slotSize = slotSize\<rparr>)"

definition windowSize :: "rollingCounter \<Rightarrow> int" where
  "windowSize c = wrap64 (rc_slotSize c * int (length (rc_buckets c)))"

text \<open>The loop of \<^verbatim>\<open>evict\<close>, on the two arrays in step.\<close>

fun evict_loop :: "int \<Rightarrow> int \<Rightarrow> int list \<Rightarrow> int list \<Rightarrow> int list \<times> int list" where
  "evict_loop now win (b # bs) (t # ts) =
     (let (bs', ts') = evict_loop now win bs ts
      in if win \<le> now - t then (0 # bs', now # ts') else (b # bs', t # ts'))"
| "evict_loop now win bs ts = (bs, ts)"

definition rc_evict :: "rollingCounter \<Rightarrow> int \<Rightarrow> rollingCounter" where
  "rc_evict c now =
     (let (bs, ts) = evict_loop now (windowSize c) (rc_buckets c) (rc_times c)
      in c\<lparr>rc_buckets := bs, rc_times := ts\<rparr>)"

definition rc_sum :: "rollingCounter \<Rightarrow> int" where
  "rc_sum c = foldl (\<lambda>total b. wrap64 (total + b)) 0 (rc_buckets c)"

text \<open>\<open>now1\<close> is the reading inside \<^verbatim>\<open>evict\<close>, \<open>now2\<close> the one that selects the bucket.\<close>

definition rc_Add :: "rollingCounter \<Rightarrow> int \<Rightarrow> int \<Rightarrow> int \<Rightarrow> int outcome \<times> rollingCounter" where
  "rc_Add c delta now1 now2 =
     (let c1 = rc_evict c now1;
          idx = (now2 sdiv rc_slotSize c1) smod int (length (rc_buckets c1))
      in if idx < 0 then (Panicked IndexOutOfRange, c1)
         else let i = nat idx;
                  c2 = c1\<lparr>rc_buckets := (rc_buckets c1)[i := wrap64 (rc_buckets c1 ! i + delta)]\<rparr>
              in (Ret (rc_sum c2), c2))"

definition rc_Total :: "rollingCounter \<Rightarrow> int \<Rightarrow> int \<times> rollingCounter" where
  "rc_Total c now = (let c1 = rc_evict c now in (rc_sum c1, c1))"

section \<open>The specification: a tumbling window\<close>

text \<open>
  The abstract counter has a start time and one total. It starts a new window, with total
  zero, at the first access at or after the end of the current one.
\<close>

record tumbling =
  tw_start :: int
  tw_total :: int
  tw_size :: int

definition tw_roll :: "tumbling \<Rightarrow> int \<Rightarrow> tumbling" where
  "tw_roll t now = (if tw_size t \<le> now - tw_start t then t\<lparr>tw_start := now, tw_total := 0\<rparr> else t)"

definition tw_Add :: "tumbling \<Rightarrow> int \<Rightarrow> int \<Rightarrow> tumbling" where
  "tw_Add t delta now = (let t1 = tw_roll t now in t1\<lparr>tw_total := wrap64 (tw_total t1 + delta)\<rparr>)"

definition rc_inv :: "rollingCounter \<Rightarrow> bool" where
  "rc_inv c \<longleftrightarrow> length (rc_buckets c) = numBuckets \<and> nsMillisecond \<le> rc_slotSize c \<and>
     (\<exists>t. rc_times c = replicate numBuckets t)"

definition rc_abs :: "rollingCounter \<Rightarrow> tumbling" where
  "rc_abs c = \<lparr>tw_start = hd (rc_times c), tw_total = rc_sum c, tw_size = windowSize c\<rparr>"

lemma foldl_wrap64: "foldl (\<lambda>total b. wrap64 (total + b)) (wrap64 a) bs = wrap64 (a + sum_list bs)"
  by (induction bs arbitrary: a) (simp_all add: wrap64_simps add.assoc)

lemma rc_sum_eq: "rc_sum c = wrap64 (sum_list (rc_buckets c))"
  using foldl_wrap64 [of 0] by (simp add: rc_sum_def wrap64_id in_int64_def)

lemma evict_loop_uniform:
  "length bs = n \<Longrightarrow> evict_loop now win bs (replicate n t) =
     (if win \<le> now - t then (replicate n 0, replicate n now) else (bs, replicate n t))"
  by (induction bs arbitrary: n) auto

lemma numBuckets_pos [simp]: "0 < numBuckets"
  by (simp add: numBuckets_def)

lemma sum_list_update:
  "i < length xs \<Longrightarrow> sum_list (xs[i := v]) = sum_list xs - xs ! i + v" for xs :: "int list"
  by (induction xs arbitrary: i) (auto split: nat.split)

lemma rc_evict_refines:
  assumes "rc_inv c"
  shows "rc_inv (rc_evict c now) \<and> rc_abs (rc_evict c now) = tw_roll (rc_abs c) now \<and>
    rc_slotSize (rc_evict c now) = rc_slotSize c"
proof -
  obtain t where t: "rc_times c = replicate numBuckets t" and len: "length (rc_buckets c) = numBuckets"
    using assms by (auto simp: rc_inv_def)
  have hd: "hd (replicate numBuckets x) = x" for x :: int
    by (simp add: numBuckets_def)
  show ?thesis
  proof (cases "windowSize c \<le> now - t")
    case True
    have "rc_evict c now = c\<lparr>rc_buckets := replicate numBuckets 0, rc_times := replicate numBuckets now\<rparr>"
      using True by (simp add: rc_evict_def t evict_loop_uniform len)
    then show ?thesis
      using assms True len t
      by (simp add: rc_inv_def rc_abs_def tw_roll_def hd windowSize_def rc_sum_eq sum_list_replicate wrap64_id in_int64_def)
  next
    case False
    have "rc_evict c now = c"
      using False t len by (cases c) (simp add: rc_evict_def evict_loop_uniform)
    then show ?thesis
      using assms False t by (simp add: rc_abs_def tw_roll_def hd)
  qed
qed

lemma smod_nonneg_60: "0 \<le> q \<Longrightarrow> 0 \<le> q smod 60 \<and> q smod 60 < 60" for q :: int
  by (cases "q = 0") (simp_all add: signed_modulo_int_def)

lemma rc_idx_bounds:
  assumes "rc_inv c" and "0 \<le> now"
  shows "0 \<le> (now sdiv rc_slotSize c) smod int (length (rc_buckets c)) \<and>
    (now sdiv rc_slotSize c) smod int (length (rc_buckets c)) < int (length (rc_buckets c))"
proof -
  have "0 < rc_slotSize c" "length (rc_buckets c) = 60"
    using assms(1) by (simp_all add: rc_inv_def nsMillisecond_def numBuckets_def)
  then have "0 \<le> now sdiv rc_slotSize c"
    using assms(2) by (cases "now = 0") (simp_all add: signed_divide_int_def pos_imp_zdiv_nonneg_iff)
  then show ?thesis
    using \<open>length (rc_buckets c) = 60\<close> smod_nonneg_60 by simp
qed

lemma windowSize_cong:
  "rc_slotSize c = rc_slotSize d \<Longrightarrow> length (rc_buckets c) = length (rc_buckets d) \<Longrightarrow> windowSize c = windowSize d"
  by (simp add: windowSize_def)

lemma rc_Add_correct:
  assumes inv: "rc_inv c" and now2: "0 \<le> now2"
  shows "\<exists>c'. rc_Add c delta now1 now2 = (Ret (tw_total (tw_Add (rc_abs c) delta now1)), c') \<and>
    rc_inv c' \<and> rc_abs c' = tw_Add (rc_abs c) delta now1 \<and> rc_slotSize c' = rc_slotSize c"
proof -
  define c1 where "c1 = rc_evict c now1"
  define i where "i = nat ((now2 sdiv rc_slotSize c1) smod int (length (rc_buckets c1)))"
  define c2 where "c2 = c1\<lparr>rc_buckets := (rc_buckets c1)[i := wrap64 (rc_buckets c1 ! i + delta)]\<rparr>"
  have ev: "rc_inv c1" "rc_abs c1 = tw_roll (rc_abs c) now1" "rc_slotSize c1 = rc_slotSize c"
    using rc_evict_refines [OF inv] by (simp_all add: c1_def)
  note b = rc_idx_bounds [OF ev(1) now2]
  have i: "i < length (rc_buckets c1)"
    using b by (simp add: i_def nat_less_iff)
  have tot: "rc_sum c2 = wrap64 (rc_sum c1 + delta)"
  proof -
    have "rc_sum c2 = wrap64 (sum_list (rc_buckets c1) - rc_buckets c1 ! i + wrap64 (rc_buckets c1 ! i + delta))"
      using i by (simp add: c2_def rc_sum_eq sum_list_update)
    also have "\<dots> = wrap64 (sum_list (rc_buckets c1) + delta)"
      using wrap64_add_right [of "sum_list (rc_buckets c1) - rc_buckets c1 ! i" "rc_buckets c1 ! i + delta"] by simp
    finally show ?thesis by (simp add: rc_sum_eq wrap64_simps)
  qed
  have win: "windowSize c2 = windowSize c1"
    by (rule windowSize_cong) (simp_all add: c2_def)
  have abs: "rc_abs c2 = tw_Add (rc_abs c) delta now1"
    unfolding tw_Add_def ev(2) [symmetric] Let_def by (simp add: rc_abs_def tot win) (simp add: c2_def)
  have "rc_Add c delta now1 now2 = (Ret (rc_sum c2), c2)"
    using b by (simp add: rc_Add_def c1_def [symmetric] i_def [symmetric] Let_def c2_def)
  moreover have "rc_sum c2 = tw_total (tw_Add (rc_abs c) delta now1)"
    unfolding abs [symmetric] by (simp add: rc_abs_def)
  moreover have "rc_inv c2" "rc_slotSize c2 = rc_slotSize c"
    using ev by (auto simp: rc_inv_def c2_def)
  ultimately show ?thesis
    using abs by (intro exI [of _ c2]) simp
qed

lemma rc_Total_correct:
  assumes "rc_inv c"
  shows "fst (rc_Total c now) = tw_total (tw_roll (rc_abs c) now) \<and> rc_inv (snd (rc_Total c now)) \<and>
    rc_abs (snd (rc_Total c now)) = tw_roll (rc_abs c) now \<and> rc_slotSize (snd (rc_Total c now)) = rc_slotSize c"
proof -
  have "rc_sum (rc_evict c now) = tw_total (rc_abs (rc_evict c now))"
    by (simp add: rc_abs_def)
  then show ?thesis
    using rc_evict_refines [OF assms] by (simp add: rc_Total_def Let_def)
qed

lemma newRollingCounter_inv: "rc_inv (newRollingCounter window now)"
  by (simp add: rc_inv_def newRollingCounter_def Let_def)

lemma newRollingCounter_abs:
  assumes "in_int64 window"
  shows "rc_abs (newRollingCounter window now) =
    \<lparr>tw_start = now, tw_total = 0, tw_size = 60 * max nsMillisecond (window sdiv 60)\<rparr>"
proof -
  define s where "s = max nsMillisecond (window sdiv 60)"
  have "window sdiv 60 = sgn window * (\<bar>window\<bar> div 60)"
    by (simp add: signed_divide_int_def)
  then have "window sdiv 60 * 60 \<le> max 0 window"
    by (cases "window > 0"; cases "window = 0") (auto simp: sgn_if)
  then have "s * 60 \<le> max 60000000 window" "60000000 \<le> s * 60"
    unfolding s_def nsMillisecond_def by linarith+
  then have "in_int64 (s * 60)"
    using assms by (auto simp: in_int64_def max_def split: if_splits)
  moreover have "rc_slotSize (newRollingCounter window now) = s"
    by (auto simp: newRollingCounter_def Let_def s_def numBuckets_def)
  moreover have "rc_buckets (newRollingCounter window now) = replicate 60 0"
    "rc_times (newRollingCounter window now) = replicate 60 now"
    by (simp_all add: newRollingCounter_def Let_def numBuckets_def)
  ultimately show ?thesis
    by (simp add: rc_abs_def windowSize_def rc_sum_eq wrap64_id s_def mult.commute in_int64_def sum_list_replicate)
qed


section \<open>Runs of a counter\<close>

datatype rc_op = OpAdd int int int | OpTotal int

fun rc_run :: "rollingCounter \<Rightarrow> rc_op list \<Rightarrow> int outcome list" where
  "rc_run c [] = []"
| "rc_run c (OpAdd delta now1 now2 # ops) = (let (r, c') = rc_Add c delta now1 now2 in r # rc_run c' ops)"
| "rc_run c (OpTotal now # ops) = (let (r, c') = rc_Total c now in Ret r # rc_run c' ops)"

fun tw_run :: "tumbling \<Rightarrow> rc_op list \<Rightarrow> int list" where
  "tw_run t [] = []"
| "tw_run t (OpAdd delta now1 now2 # ops) = (let t' = tw_Add t delta now1 in tw_total t' # tw_run t' ops)"
| "tw_run t (OpTotal now # ops) = (let t' = tw_roll t now in tw_total t' # tw_run t' ops)"

fun op_after_epoch :: "rc_op \<Rightarrow> bool" where
  "op_after_epoch (OpAdd delta now1 now2) = (0 \<le> now2)"
| "op_after_epoch (OpTotal now) = True"

lemma rc_run_abs:
  "rc_inv c \<Longrightarrow> list_all op_after_epoch ops \<Longrightarrow> rc_run c ops = map Ret (tw_run (rc_abs c) ops)"
proof (induction ops arbitrary: c)
  case (Cons op ops)
  show ?case
  proof (cases op)
    case (OpAdd delta now1 now2)
    with Cons.prems rc_Add_correct [of c now2 delta now1] Cons.IH show ?thesis
      by (auto simp: Let_def)
  next
    case (OpTotal now)
    with Cons.prems rc_Total_correct [of c now] Cons.IH [of "snd (rc_Total c now)"] show ?thesis
      by (simp add: case_prod_beta Let_def)
  qed
qed simp

text \<open>
  C24: Every result of a \<^verbatim>\<open>rollingCounter\<close>, over any sequence of \<^verbatim>\<open>Add\<close> and \<^verbatim>\<open>Total\<close> calls with clock
  readings after the epoch, is that of a tumbling window of \<^verbatim>\<open>60 * max(1ms, window/60)\<close>
  nanoseconds: the 60 buckets never expire separately, and no call panics.
\<close>
theorem rollingCounter_refines_tumbling:
  assumes "in_int64 window" and "list_all op_after_epoch ops"
  shows "rc_run (newRollingCounter window now) ops =
    map Ret (tw_run \<lparr>tw_start = now, tw_total = 0, tw_size = 60 * max nsMillisecond (window sdiv 60)\<rparr> ops)"
  by (simp add: rc_run_abs newRollingCounter_inv assms flip: newRollingCounter_abs [OF assms(1)])

theorem rollingCounter_refines_tumbling_witness:
  "rc_run (newRollingCounter 60000000000 5) [OpAdd 7 5 6, OpAdd 8 59000000005 59000000006, OpTotal 60000000005] =
    [Ret 7, Ret 15, Ret 0]"
proof -
  have "rc_run (newRollingCounter 60000000000 5) [OpAdd 7 5 6, OpAdd 8 59000000005 59000000006, OpTotal 60000000005] =
    map Ret (tw_run \<lparr>tw_start = 5, tw_total = 0, tw_size = 60 * max nsMillisecond (60000000000 sdiv 60)\<rparr>
      [OpAdd 7 5 6, OpAdd 8 59000000005 59000000006, OpTotal 60000000005])"
    by (rule rollingCounter_refines_tumbling) (simp_all add: in_int64_def)
  also have "\<dots> = [Ret 7, Ret 15, Ret 0]"
    by code_simp
  finally show ?thesis .
qed

text \<open>
  The window does not roll. Traffic of any size added one nanosecond before the end of the
  first window is forgotten one nanosecond later, whatever the window, so a caller can transfer
  up to twice the limit within two nanoseconds.
\<close>
lemma rollingCounter_forgets_at_window_end:
  assumes "in_int64 window" and "0 \<le> now" and "W = 60 * max nsMillisecond (window sdiv 60)"
    and "0 \<le> delta" and "delta < 2 ^ 63"
  shows "rc_run (newRollingCounter window now) [OpAdd delta (now + W - 1) (now + W - 1), OpTotal (now + W), OpAdd delta (now + W) (now + W)] =
    [Ret delta, Ret 0, Ret delta]"
proof -
  have "0 < W"
    using assms(3) by (simp add: nsMillisecond_def max_def)
  moreover have "wrap64 delta = delta"
    using assms(4,5) by (simp add: wrap64_id in_int64_def)
  moreover have "rc_abs (newRollingCounter window now) = \<lparr>tw_start = now, tw_total = 0, tw_size = W\<rparr>"
    by (simp add: newRollingCounter_abs assms(1,3))
  ultimately show ?thesis
    using assms(2) by (subst rc_run_abs) (simp_all add: newRollingCounter_inv tw_Add_def tw_roll_def Let_def)
qed

lemma rollingCounter_forgets_at_window_end_witness:
  "rc_run (newRollingCounter 3600000000000 100) [OpAdd 500 3600000000099 3600000000099, OpTotal 3600000000100,
    OpAdd 500 3600000000100 3600000000100] = [Ret 500, Ret 0, Ret 500]"
  using rollingCounter_forgets_at_window_end [of 3600000000000 100 3600000000000 500]
  by (simp add: in_int64_def nsMillisecond_def signed_divide_int_def)

end
