(* ===== verification/GoStrings.thy ===== *)
theory GoStrings
  imports Prelude
begin

text \<open>
  The parts of the Go standard library the string-handling code uses: \<^verbatim>\<open>strings.Index\<close>,
  \<^verbatim>\<open>LastIndexByte\<close>, \<^verbatim>\<open>SplitN\<close>, \<^verbatim>\<open>HasPrefix\<close>, \<^verbatim>\<open>CutPrefix\<close>, \<^verbatim>\<open>Join\<close>, \<^verbatim>\<open>TrimSpace\<close>, ASCII case mapping, and
  decimal conversion (\<^verbatim>\<open>strconv.ParseUint(s, 10, 16)\<close> and the verb \<^verbatim>\<open>%d\<close>). A position that Go
  reports as -1 is \<open>None\<close>.
\<close>

section \<open>Searching\<close>

definition HasPrefix :: "string \<Rightarrow> string \<Rightarrow> bool" where
  "HasPrefix s p \<longleftrightarrow> take (length p) s = p"

lemma HasPrefix_append [simp]: "HasPrefix (p @ s) p"
  by (simp add: HasPrefix_def)

lemma HasPrefix_Nil [simp]: "HasPrefix s []"
  by (simp add: HasPrefix_def)

lemma HasPrefix_single: "HasPrefix s [c] \<longleftrightarrow> s \<noteq> [] \<and> hd s = c"
  by (cases s) (auto simp: HasPrefix_def)

fun str_Index :: "string \<Rightarrow> string \<Rightarrow> nat option" where
  "str_Index [] sub = (if sub = [] then Some 0 else None)"
| "str_Index (c # cs) sub =
     (if HasPrefix (c # cs) sub then Some 0 else map_option Suc (str_Index cs sub))"

fun IndexByte :: "string \<Rightarrow> char \<Rightarrow> nat option" where
  "IndexByte [] c = None"
| "IndexByte (x # xs) c = (if x = c then Some 0 else map_option Suc (IndexByte xs c))"

fun LastIndexByte :: "string \<Rightarrow> char \<Rightarrow> nat option" where
  "LastIndexByte [] c = None"
| "LastIndexByte (x # xs) c =
     (case LastIndexByte xs c of Some i \<Rightarrow> Some (Suc i)
      | None \<Rightarrow> if x = c then Some 0 else None)"

lemma str_Index_single: "str_Index s [c] = IndexByte s c"
  by (induction s) (auto simp: HasPrefix_single)

lemma IndexByte_None [simp]: "IndexByte s c = None \<longleftrightarrow> c \<notin> set s"
  by (induction s) auto

lemma IndexByte_append [simp]: "c \<notin> set s \<Longrightarrow> IndexByte (s @ c # t) c = Some (length s)"
  by (induction s) auto

lemma LastIndexByte_None [simp]: "LastIndexByte s c = None \<longleftrightarrow> c \<notin> set s"
  by (induction s) (auto split: option.splits)

lemma LastIndexByte_append [simp]: "c \<notin> set t \<Longrightarrow> LastIndexByte (s @ c # t) c = Some (length s)"
  by (induction s) (auto split: option.splits simp flip: LastIndexByte_None)

lemma IndexByte_Some:
  assumes "IndexByte s c = Some i"
  shows "s = take i s @ c # drop (Suc i) s \<and> c \<notin> set (take i s) \<and> i < length s"
  using assms
proof (induction s arbitrary: i)
  case Nil
  then show ?case by simp
next
  case (Cons x xs)
  then show ?case by (cases i) (auto split: if_splits)
qed

lemma LastIndexByte_Some:
  assumes "LastIndexByte s c = Some i"
  shows "s = take i s @ c # drop (Suc i) s \<and> c \<notin> set (drop (Suc i) s) \<and> i < length s"
  using assms
proof (induction s arbitrary: i)
  case Nil
  then show ?case by simp
next
  case (Cons x xs)
  then show ?case by (cases i) (auto split: if_splits option.splits simp flip: LastIndexByte_None)
qed

section \<open>Splitting and joining\<close>

text \<open>\<^verbatim>\<open>strings.SplitN\<close> with a one-byte separator; the count is positive at every call.\<close>

fun SplitN :: "string \<Rightarrow> char \<Rightarrow> nat \<Rightarrow> string list" where
  "SplitN s c 0 = []"
| "SplitN s c (Suc 0) = [s]"
| "SplitN s c (Suc (Suc n)) =
     (case IndexByte s c of
        None \<Rightarrow> [s]
      | Some i \<Rightarrow> take i s # SplitN (drop (Suc i) s) c (Suc n))"

lemma SplitN_no_sep: "c \<notin> set s \<Longrightarrow> SplitN s c (Suc n) = [s]"
  by (cases n) (auto simp: IndexByte_None [THEN iffD2])

lemma SplitN_sep: "c \<notin> set s \<Longrightarrow> SplitN (s @ c # t) c (Suc (Suc n)) = s # SplitN t c (Suc n)"
  by simp

fun str_Join :: "string list \<Rightarrow> string \<Rightarrow> string" where
  "str_Join [] sep = []"
| "str_Join [x] sep = x"
| "str_Join (x # y # xs) sep = x @ sep @ str_Join (y # xs) sep"

lemma str_Join_Cons: "str_Join (x # xs) sep = x @ (if xs = [] then [] else sep @ str_Join xs sep)"
  by (cases xs) simp_all

lemma SplitN_join:
  "SplitN s c (Suc n) \<noteq> [] \<and> str_Join (SplitN s c (Suc n)) [c] = s"
proof (induction n arbitrary: s)
  case 0
  then show ?case by simp
next
  case (Suc n)
  show ?case
  proof (cases "IndexByte s c")
    case None
    then show ?thesis by (simp del: IndexByte_None)
  next
    case (Some i)
    obtain y ys where ys: "SplitN (drop (Suc i) s) c (Suc n) = y # ys"
      using Suc.IH by (meson neq_Nil_conv)
    with Suc.IH [of "drop (Suc i) s"] IndexByte_Some [OF Some] Some show ?thesis
      by simp
  qed
qed

definition CutPrefix :: "string \<Rightarrow> string \<Rightarrow> string option" where
  "CutPrefix s p = (if HasPrefix s p then Some (drop (length p) s) else None)"

lemma CutPrefix_append [simp]: "CutPrefix (p @ s) p = Some s"
  by (simp add: CutPrefix_def)

section \<open>White space\<close>

text \<open>
  \<^verbatim>\<open>strings.TrimSpace\<close> removes leading and trailing code points of \<^verbatim>\<open>unicode.IsSpace\<close>. The list
  has their UTF-8 encodings: the ASCII spaces, U+0085, U+00A0, U+1680, U+2000 to U+200A,
  U+2028, U+2029, U+202F, U+205F and U+3000.
\<close>

definition bytes_str :: "nat list \<Rightarrow> string" where
  "bytes_str ns = map char_of ns"

definition space_runes :: "string list" where
  "space_runes = map bytes_str
     ([[9], [10], [11], [12], [13], [32], [0xC2, 0x85], [0xC2, 0xA0], [0xE1, 0x9A, 0x80]] @
      map (\<lambda>k. [0xE2, 0x80, 0x80 + k]) [0..<11] @
      [[0xE2, 0x80, 0xA8], [0xE2, 0x80, 0xA9], [0xE2, 0x80, 0xAF], [0xE2, 0x81, 0x9F], [0xE3, 0x80, 0x80]])"

definition leading_space :: "string list \<Rightarrow> string \<Rightarrow> nat" where
  "leading_space runes s = (case filter (HasPrefix s) runes of [] \<Rightarrow> 0 | r # _ \<Rightarrow> length r)"

text \<open>Remove leading runes as long as there are any.\<close>

function trim_runes :: "string list \<Rightarrow> string \<Rightarrow> string" where
  "trim_runes runes s =
     (let n = leading_space runes s
      in if n = 0 \<or> s = [] then s else trim_runes runes (drop n s))"
  by pat_completeness auto
termination
  by (relation "measure (\<lambda>(_, s). length s)") auto

declare trim_runes.simps [simp del]

definition TrimSpace :: "string \<Rightarrow> string" where
  "TrimSpace s =
     rev (trim_runes (map rev space_runes) (rev (trim_runes space_runes s)))"

definition is_space_start :: "char \<Rightarrow> bool" where
  "is_space_start c \<longleftrightarrow> c \<in> hd ` set space_runes"

definition is_space_end :: "char \<Rightarrow> bool" where
  "is_space_end c \<longleftrightarrow> c \<in> last ` set space_runes"

lemma space_runes_nonempty: "[] \<notin> set space_runes"
  by (auto simp: space_runes_def bytes_str_def)

lemma trim_runes_id:
  assumes "[] \<notin> set runes" and "s = [] \<or> hd s \<notin> hd ` set runes"
  shows "trim_runes runes s = s"
proof (cases "s = []")
  case True
  then show ?thesis by (simp add: trim_runes.simps)
next
  case False
  have "\<not> HasPrefix s r" if r: "r \<in> set runes" for r
  proof
    assume "HasPrefix s r"
    moreover have "r \<noteq> []" using r assms(1) by auto
    ultimately have "hd s = hd r" using False by (cases s; cases r) (auto simp: HasPrefix_def)
    with assms(2) False r show False by force
  qed
  then have "filter (HasPrefix s) runes = []"
    by (simp add: filter_empty_conv)
  then show ?thesis
    by (subst trim_runes.simps) (simp add: leading_space_def)
qed

lemma TrimSpace_id:
  assumes "s = [] \<or> \<not> is_space_start (hd s) \<and> \<not> is_space_end (last s)"
  shows "TrimSpace s = s"
proof -
  have "trim_runes space_runes s = s"
    using assms by (intro trim_runes_id space_runes_nonempty) (auto simp: is_space_start_def)
  moreover have "trim_runes (map rev space_runes) (rev s) = rev s"
  proof (rule trim_runes_id)
    show "[] \<notin> set (map rev space_runes)"
      using space_runes_nonempty by auto
    show "rev s = [] \<or> hd (rev s) \<notin> hd ` set (map rev space_runes)"
      using assms by (auto simp: hd_rev is_space_end_def)
  qed
  ultimately show ?thesis
    by (simp add: TrimSpace_def)
qed

section \<open>Letter case\<close>

text \<open>ASCII letters; the code maps country codes and file extensions only.\<close>

definition upper_char :: "char \<Rightarrow> char" where
  "upper_char c = (let n = (of_char c :: nat) in if 97 \<le> n \<and> n \<le> 122 then char_of (n - 32) else c)"

definition lower_char :: "char \<Rightarrow> char" where
  "lower_char c = (let n = (of_char c :: nat) in if 65 \<le> n \<and> n \<le> 90 then char_of (n + 32) else c)"

definition ToUpper :: "string \<Rightarrow> string" where
  "ToUpper s = map upper_char s"

definition ToLower :: "string \<Rightarrow> string" where
  "ToLower s = map lower_char s"

lemma upper_lower_char: "upper_char (lower_char c) = upper_char c"
  by (auto simp: upper_char_def lower_char_def Let_def)

lemma ToUpper_ToLower: "ToUpper (ToLower s) = ToUpper s"
  by (simp add: ToUpper_def ToLower_def o_def upper_lower_char)

section \<open>Decimal numbers\<close>

definition digit_char :: "nat \<Rightarrow> char" where
  "digit_char d = char_of (48 + d)"

fun itoa :: "nat \<Rightarrow> string" where
  "itoa n = (if n < 10 then [digit_char n] else itoa (n div 10) @ [digit_char (n mod 10)])"

declare itoa.simps [simp del]

definition digit_val :: "char \<Rightarrow> nat option" where
  "digit_val c = (let n = (of_char c :: nat) in if 48 \<le> n \<and> n \<le> 57 then Some (n - 48) else None)"

definition is_digit :: "char \<Rightarrow> bool" where
  "is_digit c \<longleftrightarrow> c \<in> set ''0123456789''"

fun parse_digits :: "string \<Rightarrow> nat \<Rightarrow> nat option" where
  "parse_digits [] acc = Some acc"
| "parse_digits (c # cs) acc =
     (case digit_val c of None \<Rightarrow> None | Some d \<Rightarrow> parse_digits cs (10 * acc + d))"

text \<open>\<^verbatim>\<open>strconv.ParseUint(s, 10, 16)\<close>: an error on the empty string, on any byte that is not a
  digit and on values above 65535; \<^verbatim>\<open>uint16\<close> of the result otherwise.\<close>

definition ParseUint16 :: "string \<Rightarrow> u16 option" where
  "ParseUint16 s =
     (if s = [] then None
      else case parse_digits s 0 of None \<Rightarrow> None
        | Some n \<Rightarrow> if n < 2 ^ 16 then Some (of_nat n) else None)"

lemma digit_val_char: "d < 10 \<Longrightarrow> digit_val (digit_char d) = Some d"
  by (simp add: digit_val_def digit_char_def)

lemma parse_digits_append:
  "parse_digits (xs @ ys) acc =
     (case parse_digits xs acc of None \<Rightarrow> None | Some n \<Rightarrow> parse_digits ys n)"
  by (induction xs arbitrary: acc) (auto split: option.splits)

lemma parse_digits_itoa: "parse_digits (itoa n) 0 = Some n"
proof (induction n rule: itoa.induct)
  case (1 n)
  show ?case
  proof (cases "n < 10")
    case True
    then show ?thesis by (subst itoa.simps) (simp add: digit_val_char)
  next
    case False
    with 1 show ?thesis by (subst itoa.simps) (simp add: parse_digits_append digit_val_char)
  qed
qed

lemma itoa_nonempty [simp]: "itoa n \<noteq> []"
  by (subst itoa.simps) simp

lemma itoa_digits: "c \<in> set (itoa n) \<Longrightarrow> \<exists>d < 10. c = digit_char d"
proof (induction n rule: itoa.induct)
  case (1 n)
  show ?case
  proof (cases "n < 10")
    case True
    with 1 show ?thesis by (subst (asm) itoa.simps) auto
  next
    case False
    with 1 show ?thesis by (subst (asm) itoa.simps) (auto intro: exI [of _ "n mod 10"])
  qed
qed

lemma digit_char_code: "d < 10 \<Longrightarrow> (of_char (digit_char d) :: nat) = 48 + d"
  by (simp add: digit_char_def)

lemma itoa_no_char: "(of_char c :: nat) < 48 \<or> 57 < (of_char c :: nat) \<Longrightarrow> c \<notin> set (itoa n)"
  using digit_char_code by (fastforce dest: itoa_digits)

lemma itoa_no_punct [simp]:
  "CHR '':'' \<notin> set (itoa n)" "CHR ''@'' \<notin> set (itoa n)" "CHR ''/'' \<notin> set (itoa n)"
  by (rule itoa_no_char, simp)+

interpretation port_codec: codec "\<lambda>p :: u16. itoa (unat p)" ParseUint16 "\<lambda>_. True"
proof
  fix p :: u16
  have "unat p < 2 ^ 16" using unsigned_less [of p] by simp
  then show "ParseUint16 (itoa (unat p)) = Some p"
    by (simp add: ParseUint16_def parse_digits_itoa)
qed

lemma ParseUint16_itoa [simp]: "ParseUint16 (itoa (unat p)) = Some p"
  by (rule port_codec.dec_enc) simp

end
