(* ===== verification/ProxyFormat.thy ===== *)
theory ProxyFormat
  imports Core GoStrings
begin

text \<open>
  \<^verbatim>\<open>proxy-kit/utils/proxy_format.go\<close>: the three textual formats of a proxy line. The parsers
  follow the source branch by branch; the printers below them are the formats' definition,
  and the properties are the round trips.
\<close>

type_synonym ProxyFormat = string

definition ProxyFormatHostPortUserPass :: ProxyFormat where
  "ProxyFormatHostPortUserPass = ''host_port_user_pass''"
definition ProxyFormatUserPassAtHostPort :: ProxyFormat where
  "ProxyFormatUserPassAtHostPort = ''user_pass_at_host_port''"
definition ProxyFormatUserPassHostPort :: ProxyFormat where
  "ProxyFormatUserPassHostPort = ''user_pass_host_port''"
definition DefaultProxyFormat :: ProxyFormat where
  "DefaultProxyFormat = ProxyFormatHostPortUserPass"

lemmas format_names = ProxyFormatHostPortUserPass_def ProxyFormatUserPassAtHostPort_def
  ProxyFormatUserPassHostPort_def DefaultProxyFormat_def

lemma format_distinct:
  "ProxyFormatHostPortUserPass \<noteq> ProxyFormatUserPassAtHostPort"
  "ProxyFormatHostPortUserPass \<noteq> ProxyFormatUserPassHostPort"
  "ProxyFormatUserPassHostPort \<noteq> ProxyFormatUserPassAtHostPort"
  by (simp_all add: format_names)

definition mkProxy :: "string \<Rightarrow> u16 \<Rightarrow> string \<Rightarrow> string \<Rightarrow> Proxy" where
  "mkProxy host port user pass =
     \<lparr>pHost = host, pPort = port, pUsername = user, pPassword = pass, pProtocol = ''''\<rparr>"

definition stripProtocol :: "string \<Rightarrow> string" where
  "stripProtocol s = (case str_Index s ''://'' of Some i \<Rightarrow> drop (i + 3) s | None \<Rightarrow> s)"

definition parseHostPort :: "string \<Rightarrow> error + (string \<times> u16)" where
  "parseHostPort s =
     (if HasPrefix s ''['' then
        (case str_Index s '']'' of
           None \<Rightarrow> Inl (ErrUnclosedBracket s)
         | Some e \<Rightarrow>
             let host = drop 1 (take e s); rest = drop (Suc e) s
             in if \<not> HasPrefix rest '':'' then Inl (ErrExpectedColon s)
                else case ParseUint16 (drop 1 rest) of
                       None \<Rightarrow> Inl (ErrInvalidPort s)
                     | Some port \<Rightarrow> Inr (host, port))
      else
        (case LastIndexByte s CHR '':'' of
           None \<Rightarrow> Inl (ErrExpectedHostPort s)
         | Some i \<Rightarrow>
             (case ParseUint16 (drop (Suc i) s) of
                None \<Rightarrow> Inl (ErrInvalidPort s)
              | Some port \<Rightarrow> Inr (take i s, port))))"

definition splitUserPass :: "string \<Rightarrow> error + (string \<times> string)" where
  "splitUserPass s =
     (case IndexByte s CHR '':'' of
        None \<Rightarrow> Inl (ErrExpectedUserPass s)
      | Some i \<Rightarrow> Inr (take i s, drop (Suc i) s))"

text \<open>\<^verbatim>\<open>rSplitN\<close>: the loop collects the pieces from the right, the last loop reverses them.\<close>

fun rSplit_loop :: "string \<Rightarrow> char \<Rightarrow> nat \<Rightarrow> string list \<Rightarrow> string list" where
  "rSplit_loop remaining c 0 parts = parts @ [remaining]"
| "rSplit_loop remaining c (Suc k) parts =
     (case LastIndexByte remaining c of
        None \<Rightarrow> parts @ [remaining]
      | Some i \<Rightarrow> rSplit_loop (take i remaining) c k (parts @ [drop (Suc i) remaining]))"

definition rSplitN :: "string \<Rightarrow> char \<Rightarrow> nat \<Rightarrow> string list" where
  "rSplitN s c n = rev (rSplit_loop s c (n - 1) [])"

definition parseUserPassAtHostPort :: "string \<Rightarrow> error + Proxy" where
  "parseUserPassAtHostPort s =
     (case LastIndexByte s CHR ''@'' of
        None \<Rightarrow>
          (case parseHostPort s of
             Inl e \<Rightarrow> Inl e
           | Inr (host, port) \<Rightarrow> Inr (mkProxy host port '''' ''''))
      | Some at \<Rightarrow>
          (case parseHostPort (drop (Suc at) s) of
             Inl e \<Rightarrow> Inl e
           | Inr (host, port) \<Rightarrow>
               (case splitUserPass (take at s) of
                  Inl e \<Rightarrow> Inl e
                | Inr (user, pass) \<Rightarrow> Inr (mkProxy host port user pass))))"

definition parseUserPassHostPort_plain :: "string \<Rightarrow> error + Proxy" where
  "parseUserPassHostPort_plain s =
     (case parseHostPort s of
        Inl _ \<Rightarrow> Inl (ErrExpectedFormat s)
      | Inr (host, port) \<Rightarrow> Inr (mkProxy host port '''' ''''))"

definition parseUserPassHostPort :: "string \<Rightarrow> error + Proxy" where
  "parseUserPassHostPort s =
     (case rSplitN s CHR '':'' 3 of
        [creds, host, portStr] \<Rightarrow>
          (case ParseUint16 portStr of
             Some port \<Rightarrow>
               (case IndexByte creds CHR '':'' of
                  Some ci \<Rightarrow>
                    if take ci creds \<noteq> ''''
                    then Inr (mkProxy host port (take ci creds) (drop (Suc ci) creds))
                    else parseUserPassHostPort_plain s
                | None \<Rightarrow> parseUserPassHostPort_plain s)
           | None \<Rightarrow> parseUserPassHostPort_plain s)
      | _ \<Rightarrow> parseUserPassHostPort_plain s)"

definition parsePortAndOptionalCreds :: "string \<Rightarrow> string \<Rightarrow> error + Proxy" where
  "parsePortAndOptionalCreds host rest =
     (case SplitN rest CHR '':'' 3 of
        [p] \<Rightarrow> (case ParseUint16 p of None \<Rightarrow> Inl (ErrInvalidPort p)
                | Some port \<Rightarrow> Inr (mkProxy host port '''' ''''))
      | [p, user, pass] \<Rightarrow> (case ParseUint16 p of None \<Rightarrow> Inl (ErrInvalidPort p)
                | Some port \<Rightarrow> Inr (mkProxy host port user pass))
      | _ \<Rightarrow> Inl (ErrExpectedFormat rest))"

definition parseHostPortUserPass :: "string \<Rightarrow> error + Proxy" where
  "parseHostPortUserPass s =
     (if HasPrefix s ''['' then
        (case str_Index s '']'' of
           None \<Rightarrow> Inl (ErrUnclosedBracket s)
         | Some e \<Rightarrow>
             let host = drop 1 (take e s); rest = drop (Suc e) s
             in if \<not> HasPrefix rest '':'' then Inl (ErrExpectedColon s)
                else parsePortAndOptionalCreds host (drop 1 rest))
      else
        (case SplitN s CHR '':'' 4 of
           [h, p] \<Rightarrow> (case ParseUint16 p of None \<Rightarrow> Inl (ErrInvalidPort s)
                     | Some port \<Rightarrow> Inr (mkProxy h port '''' ''''))
         | [h, p, user, pass] \<Rightarrow> (case ParseUint16 p of None \<Rightarrow> Inl (ErrInvalidPort s)
                     | Some port \<Rightarrow> Inr (mkProxy h port user pass))
         | _ \<Rightarrow> Inl (ErrExpectedFormat s)))"

definition ParseProxyLine :: "string \<Rightarrow> ProxyFormat \<Rightarrow> error + Proxy" where
  "ParseProxyLine s0 format =
     (let s = stripProtocol s0 in
      if format = ProxyFormatUserPassAtHostPort then parseUserPassAtHostPort s
      else if format = ProxyFormatUserPassHostPort then parseUserPassHostPort s
      else parseHostPortUserPass s)"

section \<open>The formats\<close>

text \<open>A host is written in brackets when it contains a colon (an IPv6 address).\<close>

definition show_host :: "string \<Rightarrow> string" where
  "show_host h = (if CHR '':'' \<in> set h then ''['' @ h @ '']'' else h)"

definition host_port :: "Proxy \<Rightarrow> string" where
  "host_port p = show_host (pHost p) @ '':'' @ itoa (unat (pPort p))"

definition print_proxy :: "ProxyFormat \<Rightarrow> Proxy \<Rightarrow> string" where
  "print_proxy format p =
     (let creds = pUsername p @ '':'' @ pPassword p in
      if format = ProxyFormatUserPassAtHostPort then creds @ ''@'' @ host_port p
      else if format = ProxyFormatUserPassHostPort then creds @ '':'' @ host_port p
      else host_port p @ '':'' @ creds)"

text \<open>Hosts the formats can carry: not starting with a bracket, no closing bracket, no \<open>@\<close>;
  user names without a colon; no scheme separator anywhere in the line.\<close>

definition printable_host :: "string \<Rightarrow> bool" where
  "printable_host h \<longleftrightarrow> \<not> HasPrefix h ''['' \<and> CHR '']'' \<notin> set h \<and> CHR ''@'' \<notin> set h"

definition printable :: "ProxyFormat \<Rightarrow> Proxy \<Rightarrow> bool" where
  "printable format p \<longleftrightarrow>
     printable_host (pHost p) \<and> CHR '':'' \<notin> set (pUsername p) \<and> pUsername p \<noteq> '''' \<and>
     pProtocol p = '''' \<and> str_Index (print_proxy format p) ''://'' = None \<and>
     (format = ProxyFormatUserPassHostPort \<longrightarrow> CHR '':'' \<notin> set (pHost p)) \<and>
     (format = ProxyFormatHostPortUserPass \<or> format = ProxyFormatUserPassAtHostPort \<or>
      format = ProxyFormatUserPassHostPort)"

section \<open>Round trips\<close>

lemma stripProtocol_none [simp]: "str_Index s ''://'' = None \<Longrightarrow> stripProtocol s = s"
  by (simp add: stripProtocol_def)

lemma mkProxy_id: "pProtocol p = '''' \<Longrightarrow> mkProxy (pHost p) (pPort p) (pUsername p) (pPassword p) = p"
  by (cases p) (simp add: mkProxy_def)

lemma bracket_index:
  assumes "CHR '']'' \<notin> set h"
  shows "str_Index (''['' @ h @ '']'' @ t) '']'' = Some (Suc (length h))"
  using IndexByte_append [of "CHR '']''" "''['' @ h" t] assms
  by (simp add: str_Index_single)

lemma parseHostPort_host_port:
  assumes "printable_host (pHost p)"
  shows "parseHostPort (host_port p) = Inr (pHost p, pPort p)"
proof (cases "CHR '':'' \<in> set (pHost p)")
  case True
  let ?t = "'':'' @ itoa (unat (pPort p))"
  have "str_Index (''['' @ pHost p @ '']'' @ ?t) '']'' = Some (Suc (length (pHost p)))"
    by (rule bracket_index) (use assms in \<open>simp add: printable_host_def\<close>)
  with True show ?thesis
    by (simp add: parseHostPort_def host_port_def show_host_def HasPrefix_single)
next
  case False
  have "\<not> HasPrefix (pHost p @ CHR '':'' # itoa (unat (pPort p))) ''[''"
    using assms by (cases "pHost p") (auto simp: HasPrefix_single printable_host_def)
  with False show ?thesis
    by (simp add: parseHostPort_def host_port_def show_host_def)
qed

lemma splitUserPass_creds:
  "CHR '':'' \<notin> set u \<Longrightarrow> splitUserPass (u @ '':'' @ pw) = Inr (u, pw)"
  by (simp add: splitUserPass_def)

lemma host_port_no_at:
  "printable_host (pHost p) \<Longrightarrow> CHR ''@'' \<notin> set (host_port p)"
  by (auto simp: host_port_def show_host_def printable_host_def)

lemma parse_at_print:
  assumes "printable ProxyFormatUserPassAtHostPort p"
  shows "parseUserPassAtHostPort (print_proxy ProxyFormatUserPassAtHostPort p) = Inr p"
proof -
  let ?creds = "pUsername p @ '':'' @ pPassword p"
  have "print_proxy ProxyFormatUserPassAtHostPort p = ?creds @ CHR ''@'' # host_port p"
    by (simp add: print_proxy_def)
  moreover have "LastIndexByte (?creds @ CHR ''@'' # host_port p) CHR ''@'' = Some (length ?creds)"
    by (rule LastIndexByte_append, rule host_port_no_at) (use assms in \<open>simp add: printable_def\<close>)
  ultimately show ?thesis
    using assms splitUserPass_creds [of "pUsername p" "pPassword p"]
    by (simp add: parseUserPassAtHostPort_def parseHostPort_host_port printable_def mkProxy_id)
qed

lemma rSplitN_3:
  assumes "c \<notin> set b" "c \<notin> set d"
  shows "rSplitN (a @ c # b @ c # d) c 3 = [a, b, d]"
proof -
  have "LastIndexByte ((a @ c # b) @ c # d) c = Some (length (a @ c # b))"
    by (rule LastIndexByte_append [OF assms(2)])
  then show ?thesis
    using assms by (simp add: rSplitN_def numeral_eq_Suc)
qed

lemma parse_uphp_print:
  assumes "printable ProxyFormatUserPassHostPort p"
  shows "parseUserPassHostPort (print_proxy ProxyFormatUserPassHostPort p) = Inr p"
proof -
  let ?creds = "pUsername p @ CHR '':'' # pPassword p"
  have nc: "CHR '':'' \<notin> set (pHost p)"
    using assms by (simp add: printable_def)
  have "print_proxy ProxyFormatUserPassHostPort p =
      ?creds @ CHR '':'' # pHost p @ CHR '':'' # itoa (unat (pPort p))"
    using nc by (simp add: print_proxy_def host_port_def show_host_def format_names)
  moreover have "rSplitN (?creds @ CHR '':'' # pHost p @ CHR '':'' # itoa (unat (pPort p))) CHR '':'' 3
      = [?creds, pHost p, itoa (unat (pPort p))]"
    by (rule rSplitN_3) (simp_all add: nc)
  ultimately show ?thesis
    using assms by (simp add: parseUserPassHostPort_def printable_def mkProxy_id)
qed

lemma SplitN_3:
  "c \<notin> set a \<Longrightarrow> c \<notin> set b \<Longrightarrow> SplitN (a @ c # b @ c # d) c 3 = [a, b, d]"
  by (simp add: numeral_eq_Suc)

lemma SplitN_4:
  "c \<notin> set a \<Longrightarrow> c \<notin> set b \<Longrightarrow> c \<notin> set d \<Longrightarrow>
     SplitN (a @ c # b @ c # d @ c # e) c 4 = [a, b, d, e]"
  by (simp add: numeral_eq_Suc)

lemma parse_hpup_print:
  assumes "printable ProxyFormatHostPortUserPass p"
  shows "parseHostPortUserPass (print_proxy ProxyFormatHostPortUserPass p) = Inr p"
proof -
  let ?port = "itoa (unat (pPort p))"
  let ?tail = "?port @ CHR '':'' # pUsername p @ CHR '':'' # pPassword p"
  have nu: "CHR '':'' \<notin> set (pUsername p)" and h: "printable_host (pHost p)"
    using assms by (simp_all add: printable_def)
  have pr: "print_proxy ProxyFormatHostPortUserPass p = show_host (pHost p) @ CHR '':'' # ?tail"
    by (simp add: print_proxy_def host_port_def format_names)
  have creds: "parsePortAndOptionalCreds (pHost p) ?tail = Inr p"
    using assms SplitN_3 [of "CHR '':''" ?port "pUsername p" "pPassword p"] nu
    by (simp add: parsePortAndOptionalCreds_def printable_def mkProxy_id)
  show ?thesis
  proof (cases "CHR '':'' \<in> set (pHost p)")
    case True
    have "str_Index (''['' @ pHost p @ '']'' @ CHR '':'' # ?tail) '']'' = Some (Suc (length (pHost p)))"
      by (rule bracket_index) (use h in \<open>simp add: printable_host_def\<close>)
    with True creds show ?thesis
      by (simp add: parseHostPortUserPass_def pr show_host_def HasPrefix_single)
  next
    case False
    then have "\<not> HasPrefix (pHost p @ CHR '':'' # ?tail) ''[''"
      using h by (cases "pHost p") (auto simp: HasPrefix_single printable_host_def)
    moreover have "SplitN (pHost p @ CHR '':'' # ?tail) CHR '':'' 4 =
        [pHost p, ?port, pUsername p, pPassword p]"
      by (rule SplitN_4) (simp_all add: False nu)
    ultimately show ?thesis
      using False assms by (simp add: parseHostPortUserPass_def pr show_host_def printable_def mkProxy_id)
  qed
qed

lemma ParseProxyLine_print:
  assumes "printable format p"
  shows "ParseProxyLine (print_proxy format p) format = Inr p"
proof -
  have strip: "stripProtocol (print_proxy format p) = print_proxy format p"
    using assms by (simp add: printable_def)
  consider "format = ProxyFormatHostPortUserPass" | "format = ProxyFormatUserPassAtHostPort"
    | "format = ProxyFormatUserPassHostPort"
    using assms by (auto simp: printable_def)
  then show ?thesis
    using strip assms parse_at_print [of p] parse_uphp_print [of p] parse_hpup_print [of p]
    by cases (simp_all add: ParseProxyLine_def format_distinct Let_def)
qed



section \<open>What the parsers reject and ignore\<close>

text \<open>Whatever scheme a line starts with is dropped: a parsed proxy never has a protocol set, so
  a line written socks5://... is dialled as an HTTP proxy.\<close>

lemma ParseProxyLine_ignores_scheme:
  assumes "ParseProxyLine s format = Inr p"
  shows "pProtocol p = '''' \<and> Proto p = ProtocolHTTP"
  using assms
  by (auto simp: ParseProxyLine_def parseUserPassAtHostPort_def parseUserPassHostPort_def
      parseUserPassHostPort_plain_def parseHostPortUserPass_def parsePortAndOptionalCreds_def
      mkProxy_def Proto_def Let_def split: if_splits option.splits list.splits sum.splits prod.splits)

lemma ParseProxyLine_ignores_scheme_witness:
  "\<exists>p. ParseProxyLine ''socks5://h:1'' ProxyFormatHostPortUserPass = Inr p \<and> Proto p = ProtocolHTTP"
proof -
  have "ParseProxyLine ''socks5://h:1'' ProxyFormatHostPortUserPass = Inr (mkProxy ''h'' 1 '''' '''')"
    by code_simp
  with ParseProxyLine_ignores_scheme show ?thesis by blast
qed

text \<open>In the user:pass:host:port format a bracketed IPv6 host is not recognised: the line
  is accepted, but the host is cut at the address's last colon and the rest of the address ends
  up in the password.\<close>

lemma parseUserPassHostPort_ipv6_misparsed:
  assumes "user \<noteq> ''''" and "CHR '':'' \<notin> set user" and "CHR '':'' \<notin> set h2"
  shows "parseUserPassHostPort
      (user @ '':'' @ pass @ '':'' @ ''['' @ (h1 @ '':'' @ h2) @ '']'' @ '':'' @ itoa (unat port)) =
    Inr (mkProxy (h2 @ '']'') port user (pass @ '':['' @ h1))"
proof -
  have "rSplitN ((user @ '':'' @ pass @ '':['' @ h1) @ CHR '':'' # (h2 @ '']'') @ CHR '':'' # itoa (unat port))
      CHR '':'' 3 = [user @ '':'' @ pass @ '':['' @ h1, h2 @ '']'', itoa (unat port)]"
    by (rule rSplitN_3) (simp_all add: assms(3))
  with assms show ?thesis
    by (simp add: parseUserPassHostPort_def)
qed

lemma parseUserPassHostPort_ipv6_misparsed_witness:
  "parseUserPassHostPort (''u:p:['' @ (''2001:db8:'' @ '':'' @ ''1'') @ '']'' @ '':'' @ itoa (unat (3128 :: u16))) =
     Inr (mkProxy ''1]'' 3128 ''u'' ''p:[2001:db8:'')"
  using parseUserPassHostPort_ipv6_misparsed [of "''u''" "''1''" "''p''" "''2001:db8:''" 3128]
  by simp

end
