(* ===== verification/CheapRandom.thy ===== *)
theory CheapRandom
  imports Core
begin

text \<open>
  The process environment shared by the components (readings of the wall clock and the
  choices of \<^verbatim>\<open>sync.Pool\<close>) and \<^verbatim>\<open>proxy-kit/utils/cheap_random.go\<close>, the xorshift generator.

  The environment is a record: \<open>w_clock i\<close> is the i-th reading of \<^verbatim>\<open>time.Now().UnixNano()\<close>
  and \<open>w_choice i\<close> the pooled generator the i-th \<^verbatim>\<open>rngPool.Get\<close> takes (an index outside the pool
  stands for a fresh generator, which \<^verbatim>\<open>sync.Pool\<close> may always decide on). Neither is
  constrained: the theorems hold for every clock and every choice.
\<close>

record world =
  w_clock :: "nat \<Rightarrow> int"
  w_reads :: nat
  w_pool :: "u64 list"
  w_choice :: "nat \<Rightarrow> nat"
  w_gets :: nat

definition time_Now :: "world \<Rightarrow> int \<times> world" where
  "time_Now w = (w_clock w (w_reads w), w\<lparr>w_reads := Suc (w_reads w)\<rparr>)"

definition xorshift64_next :: "u64 \<Rightarrow> u64" where
  "xorshift64_next x0 =
     (let x1 = x0 XOR push_bit 13 x0;
          x2 = x1 XOR drop_bit 7 x1;
          x3 = x2 XOR push_bit 17 x2
      in x3)"

definition rngPool_New :: "int \<Rightarrow> u64" where
  "rngPool_New nano =
     (let seed = word_of_int nano XOR 0x517cc1b727220a95
      in if seed = 0 then 0x517cc1b727220a95 else seed)"

definition CheapRandom :: "world \<Rightarrow> u64 \<times> world" where
  "CheapRandom w =
     (let i = w_choice w (w_gets w);
          w1 = w\<lparr>w_gets := Suc (w_gets w)\<rparr>;
          (s, w2) =
            (if i < length (w_pool w1)
             then (w_pool w1 ! i, w1\<lparr>w_pool := take i (w_pool w1) @ drop (Suc i) (w_pool w1)\<rparr>)
             else let (t, w') = time_Now w1 in (rngPool_New t, w'));
          v = xorshift64_next s
      in (v, w2\<lparr>w_pool := w_pool w2 @ [v]\<rparr>))"

section \<open>The generator is a bijection that never reaches zero\<close>

lemma push_bit_fixpoint:
  fixes z :: "'a::len word"
  assumes "z = push_bit n z" and "0 < n"
  shows "z = 0"
proof -
  have "\<not> bit z k" for k
  proof (induction k rule: less_induct)
    case (less k)
    have "bit z k \<longleftrightarrow> n \<le> k \<and> k < LENGTH('a) \<and> bit z (k - n)"
      using arg_cong [OF assms(1), of "\<lambda>w. bit w k"] by (simp add: bit_push_bit_iff)
    moreover have "n \<le> k \<Longrightarrow> k - n < k"
      using assms(2) by simp
    ultimately show ?case
      using less.IH by blast
  qed
  then show ?thesis
    by (simp add: bit_eq_iff)
qed

lemma drop_bit_fixpoint:
  fixes z :: "'a::len word"
  assumes "z = drop_bit n z" and "0 < n"
  shows "z = 0"
proof -
  have "\<not> bit z k" for k
  proof (induction "LENGTH('a) - k" arbitrary: k rule: less_induct)
    case less
    show ?case
    proof (cases "k < LENGTH('a)")
      case True
      have "bit z k \<longleftrightarrow> bit z (n + k)"
        using arg_cong [OF assms(1), of "\<lambda>w. bit w k"] by (simp add: bit_drop_bit_eq)
      moreover have "LENGTH('a) - (n + k) < LENGTH('a) - k"
        using True assms(2) by simp
      ultimately show ?thesis
        using less by blast
    next
      case False
      then show ?thesis
        by (auto dest: bit_imp_le_length)
    qed
  qed
  then show ?thesis
    by (simp add: bit_eq_iff)
qed

lemma xor_eq_0_iff: "a XOR b = 0 \<longleftrightarrow> a = b" for a b :: "'a::len word"
  by (metis xor_cancel_right bit.xor_self xor.left_neutral)

lemma inj_xor_linear:
  fixes g :: "'a::len word \<Rightarrow> 'a word"
  assumes lin: "\<And>x y. g (x XOR y) = g x XOR g y" and fix0: "\<And>z. z = g z \<Longrightarrow> z = 0"
  shows "inj (\<lambda>x. x XOR g x)"
proof (rule injI)
  fix x y assume "x XOR g x = y XOR g y"
  then have "(x XOR y) XOR g (x XOR y) = 0"
    unfolding lin by (metis xor.assoc xor.left_commute bit.xor_self)
  then have "x XOR y = g (x XOR y)"
    by (simp only: xor_eq_0_iff)
  then have "x XOR y = 0"
    by (rule fix0)
  then show "x = y"
    by (simp only: xor_eq_0_iff)
qed

lemma xorshift64_inj: "inj xorshift64_next"
proof -
  have L: "inj (\<lambda>x::u64. x XOR push_bit n x)" if "0 < n" for n
    using that by (intro inj_xor_linear) (auto simp: push_bit_xor dest: push_bit_fixpoint)
  have R: "inj (\<lambda>x::u64. x XOR drop_bit n x)" if "0 < n" for n
    using that by (intro inj_xor_linear) (auto simp: drop_bit_xor dest: drop_bit_fixpoint)
  have eq: "xorshift64_next =
      (\<lambda>x. x XOR push_bit 17 x) \<circ> ((\<lambda>x. x XOR drop_bit 7 x) \<circ> (\<lambda>x. x XOR push_bit 13 x))"
    by (simp add: xorshift64_next_def fun_eq_iff Let_def)
  show ?thesis
    unfolding eq by (intro inj_compose L R) simp_all
qed

lemma xorshift64_nonzero: "x \<noteq> 0 \<Longrightarrow> xorshift64_next x \<noteq> 0"
  using injD [OF xorshift64_inj, of x 0] by (auto simp: xorshift64_next_def)

lemma rngPool_New_nonzero: "rngPool_New t \<noteq> 0"
  by (simp add: rngPool_New_def Let_def)

definition rng_ok :: "world \<Rightarrow> bool" where
  "rng_ok w \<longleftrightarrow> 0 \<notin> set (w_pool w)"

lemma time_Now_rng_ok [simp]: "time_Now w = (t, w') \<Longrightarrow> rng_ok w' = rng_ok w"
  by (auto simp: time_Now_def rng_ok_def)

text \<open>The shared random generator never degenerates: from a world whose pooled generators
  are all non-zero, CheapRandom returns a non-zero value and leaves only non-zero generators in
  the pool, whatever generator the pool hands out and whatever the clock reads.\<close>

lemma CheapRandom_never_zero:
  assumes "rng_ok w" and "CheapRandom w = (v, w')"
  shows "v \<noteq> 0 \<and> rng_ok w'"
proof (cases "w_choice w (w_gets w) < length (w_pool w)")
  case True
  then have "w_pool w ! w_choice w (w_gets w) \<noteq> 0"
    using assms(1) nth_mem by (fastforce simp: rng_ok_def)
  with True assms show ?thesis
    by (auto simp: CheapRandom_def rng_ok_def Let_def xorshift64_nonzero
        dest: in_set_takeD in_set_dropD)
next
  case False
  with assms show ?thesis
    by (auto simp: CheapRandom_def rng_ok_def Let_def time_Now_def xorshift64_nonzero
        rngPool_New_nonzero)
qed

definition world0 :: world where
  "world0 = \<lparr>w_clock = (\<lambda>i. 1700000000000000000 + int i * 1000), w_reads = 0, w_pool = [],
     w_choice = (\<lambda>i. 0), w_gets = 0\<rparr>"

lemma CheapRandom_never_zero_witness:
  "fst (CheapRandom world0) \<noteq> 0 \<and> rng_ok (snd (CheapRandom world0))"
  by (rule CheapRandom_never_zero [where w = world0]) (simp_all add: rng_ok_def world0_def)

end
