(* ===== verification/CountingPool.thy ===== *)
theory CountingPool
  imports CheapRandom
begin

text \<open>
  \<^verbatim>\<open>proxy-kit/utils/counting_pool.go\<close>: a fixed-size pool with least-used selection. Use counts
  are 64-bit words that wrap, as \<^verbatim>\<open>atomic.Uint64\<close> does.
\<close>

record 'a poolEntry =
  pe_value :: 'a
  useCount :: u64

type_synonym 'a CountingPool = "'a poolEntry list"

definition NewCountingPool :: "'a list \<Rightarrow> 'a CountingPool" where
  "NewCountingPool items = map (\<lambda>v. \<lparr>pe_value = v, useCount = 0\<rparr>) items"

definition Pool_Len :: "'a CountingPool \<Rightarrow> nat" where
  "Pool_Len p = length p"

definition Pool_IsEmpty :: "'a CountingPool \<Rightarrow> bool" where
  "Pool_IsEmpty p \<longleftrightarrow> length p = 0"

text \<open>The first loop of both pickers: the running minimum.\<close>

fun min_loop :: "u64 \<Rightarrow> u64 list \<Rightarrow> u64" where
  "min_loop m [] = m"
| "min_loop m (c # cs) = min_loop (if c < m then c else m) cs"

definition candidate :: "nat list \<Rightarrow> u64 \<Rightarrow> nat" where
  "candidate cands tieBreaker =
     (if length cands = 1 then cands ! 0 else cands ! unat (tieBreaker mod of_nat (length cands)))"

definition pickLeastUsed :: "'a CountingPool \<Rightarrow> u64 \<Rightarrow> nat" where
  "pickLeastUsed entries tieBreaker =
     (let minCount = min_loop (useCount (entries ! 0)) (map useCount (tl entries));
          cands = filter (\<lambda>i. useCount (entries ! i) = minCount) [0..<length entries]
      in candidate cands tieBreaker)"

definition pickLeastUsedIndices :: "'a CountingPool \<Rightarrow> nat list \<Rightarrow> u64 \<Rightarrow> nat" where
  "pickLeastUsedIndices entries indices tieBreaker =
     (let minCount = min_loop (useCount (entries ! hd indices))
            (map (\<lambda>i. useCount (entries ! i)) (tl indices));
          cands = filter (\<lambda>i. useCount (entries ! i) = minCount) indices
      in candidate cands tieBreaker)"

definition bump :: "'a CountingPool \<Rightarrow> nat \<Rightarrow> 'a CountingPool" where
  "bump p idx = p[idx := (p ! idx)\<lparr>useCount := useCount (p ! idx) + 1\<rparr>]"

definition Pool_Next :: "'a CountingPool \<Rightarrow> world \<Rightarrow> 'a option \<times> 'a CountingPool \<times> world" where
  "Pool_Next p w =
     (if length p = 0 then (None, p, w)
      else let (r, w1) = CheapRandom w;
               idx = pickLeastUsed p r
           in (Some (pe_value (p ! idx)), bump p idx, w1))"

definition Pool_NextWithSeed ::
  "'a CountingPool \<Rightarrow> SessionSeed option \<Rightarrow> world \<Rightarrow> 'a option \<times> 'a CountingPool \<times> world" where
  "Pool_NextWithSeed p seed w =
     (if length p = 0 then (None, p, w)
      else let (r, w1) = CheapRandom w;
               tieBreaker = (case seed of Some s \<Rightarrow> seed_value s | None \<Rightarrow> r);
               idx = pickLeastUsed p tieBreaker
           in (Some (pe_value (p ! idx)), bump p idx, w1))"

definition Pool_NextExcluding ::
  "'a CountingPool \<Rightarrow> ('a \<Rightarrow> bool) \<Rightarrow> world \<Rightarrow> 'a option \<times> 'a CountingPool \<times> world" where
  "Pool_NextExcluding p equal w =
     (if length p = 0 then (None, p, w)
      else let nonExcluded = filter (\<lambda>i. \<not> equal (pe_value (p ! i))) [0..<length p];
               (r, w1) = CheapRandom w;
               idx = (if length nonExcluded = 0 then pickLeastUsed p r
                      else pickLeastUsedIndices p nonExcluded r)
           in (Some (pe_value (p ! idx)), bump p idx, w1))"

section \<open>The pickers return an index of minimal count\<close>

lemma min_loop_in: "min_loop m cs \<in> insert m (set cs)"
  by (induction cs arbitrary: m) (auto split: if_splits)

lemma min_loop_le: "x \<in> insert m (set cs) \<Longrightarrow> min_loop m cs \<le> x"
proof (induction cs arbitrary: m x)
  case Nil
  then show ?case by simp
next
  case (Cons c cs)
  let ?m = "if c < m then c else m"
  have head: "min_loop ?m cs \<le> ?m"
    by (rule Cons.IH) simp
  have le: "?m \<le> m" "?m \<le> c"
    by auto
  consider "x = m" | "x = c" | "x \<in> set cs"
    using Cons.prems by auto
  then have "min_loop ?m cs \<le> x"
    by cases (use head le in \<open>blast intro: order_trans Cons.IH\<close>)+
  then show ?case by simp
qed

lemma candidate_mem:
  assumes "cands \<noteq> []" and "length cands < 2 ^ 64"
  shows "candidate cands tb \<in> set cands"
  using assms unat_mod_less [of "length cands" tb] by (auto simp: candidate_def)

lemma pickLeastUsedIndices_least:
  assumes "ks \<noteq> []" and "length ks < 2 ^ 64"
  shows "pickLeastUsedIndices p ks tb \<in> set ks"
    and "j \<in> set ks \<Longrightarrow> useCount (p ! pickLeastUsedIndices p ks tb) \<le> useCount (p ! j)"
proof -
  let ?c = "\<lambda>i. useCount (p ! i)"
  let ?m = "min_loop (?c (hd ks)) (map ?c (tl ks))"
  let ?cands = "filter (\<lambda>i. ?c i = ?m) ks"
  have ks_split: "insert (?c (hd ks)) (set (map ?c (tl ks))) = ?c ` set ks"
    using assms(1) by (cases ks) auto
  have "?m \<in> ?c ` set ks"
    using min_loop_in [of "?c (hd ks)" "map ?c (tl ks)"] by (simp only: ks_split)
  then have "?cands \<noteq> []"
    by (auto simp: filter_empty_conv)
  moreover have "length ?cands < 2 ^ 64"
    using assms(2) length_filter_le [of "\<lambda>i. ?c i = ?m" "ks"] by linarith
  ultimately have mem: "candidate ?cands tb \<in> set ?cands"
    by (rule candidate_mem)
  then show "pickLeastUsedIndices p ks tb \<in> set ks"
    by (simp add: pickLeastUsedIndices_def Let_def)
  show "j \<in> set ks \<Longrightarrow> ?c (pickLeastUsedIndices p ks tb) \<le> ?c j"
    using mem min_loop_le [of "?c j" "?c (hd ks)" "map ?c (tl ks)", unfolded ks_split]
    by (simp add: pickLeastUsedIndices_def Let_def)
qed

lemma pickLeastUsed_eq_Indices:
  "p \<noteq> [] \<Longrightarrow> pickLeastUsed p tb = pickLeastUsedIndices p [0..<length p] tb"
proof -
  assume p: "p \<noteq> []"
  have "map useCount (tl p) = map (\<lambda>i. useCount (p ! i)) (tl [0..<length p])"
    by (rule nth_equalityI) (auto simp: nth_tl)
  with p show ?thesis
    by (simp add: pickLeastUsed_def pickLeastUsedIndices_def Let_def)
qed

lemma pickLeastUsed_least:
  assumes "p \<noteq> []" and "length p < 2 ^ 64"
  shows "pickLeastUsed p tb < length p"
    and "j < length p \<Longrightarrow> useCount (p ! pickLeastUsed p tb) \<le> useCount (p ! j)"
  using pickLeastUsedIndices_least [where ks = "[0..<length p]" and p = p and tb = tb] assms
  by (auto simp: pickLeastUsed_eq_Indices)

section \<open>Fairness of least-used selection\<close>

text \<open>The abstract view of a pool: its use counts as natural numbers.\<close>

definition counts :: "'a CountingPool \<Rightarrow> nat list" where
  "counts p = map (\<lambda>e. unat (useCount e)) p"

definition fair :: "nat list \<Rightarrow> bool" where
  "fair cs \<longleftrightarrow> (\<forall>x \<in> set cs. \<forall>y \<in> set cs. x \<le> Suc y)"

lemma fair_bump:
  assumes "fair cs" and "i < length cs" and least: "\<And>j. j < length cs \<Longrightarrow> cs ! i \<le> cs ! j"
  shows "fair (cs[i := Suc (cs ! i)])"
proof -
  have mem: "z = Suc (cs ! i) \<or> z \<in> set cs" if "z \<in> set (cs[i := Suc (cs ! i)])" for z
    using that set_update_subset_insert [of cs i "Suc (cs ! i)"] by blast
  have near: "cs ! i \<le> y" "y \<le> Suc (cs ! i)" if "y \<in> set cs" for y
    using that assms(1) least nth_mem [OF assms(2)] by (auto simp: in_set_conv_nth fair_def)
  have "x \<le> Suc y" if "x = Suc (cs ! i) \<or> x \<in> set cs" "y = Suc (cs ! i) \<or> y \<in> set cs" for x y
    using that near [of x] near [of y] assms(1) by (auto simp: fair_def)
  then show ?thesis
    unfolding fair_def using mem by blast
qed

lemma sum_list_bump: "i < length cs \<Longrightarrow> sum_list (cs[i := Suc (cs ! i)]) = Suc (sum_list cs)"
  by (induction cs arbitrary: i) (auto split: nat.split)

lemma sum_list_below:
  "\<forall>x \<in> set cs. x \<le> q \<Longrightarrow> sum_list cs \<le> q * length cs \<and>
     ((\<exists>x \<in> set cs. x < q) \<longrightarrow> sum_list cs < q * length cs)" for q :: nat
  by (induction cs) auto

lemma sum_list_above:
  "\<forall>x \<in> set cs. q \<le> x \<Longrightarrow> q * length cs \<le> sum_list cs \<and>
     ((\<exists>x \<in> set cs. q < x) \<longrightarrow> q * length cs < sum_list cs)" for q :: nat
  by (induction cs) auto

lemma fair_sum_unique:
  assumes "fair cs" and "sum_list cs = q * length cs" and "x \<in> set cs"
  shows "x = q"
proof (rule linorder_cases [of x q])
  assume "x < q"
  moreover from this have "\<forall>y \<in> set cs. y \<le> q"
    using assms(1,3) by (fastforce simp: fair_def)
  ultimately show ?thesis
    using sum_list_below [of cs q] assms(2,3) by auto
next
  assume "q < x"
  moreover from this have "\<forall>y \<in> set cs. q \<le> y"
    using assms(1,3) by (fastforce simp: fair_def)
  ultimately show ?thesis
    using sum_list_above [of cs q] assms(2,3) by auto
qed

text \<open>One selection, seen on the counts.\<close>

lemma unat_plus_one: "unat (c + 1 :: u64) = Suc (unat c)" if "Suc (unat c) < 2 ^ 64"
  using that by (simp add: unat_word_ariths)

lemma counts_bump:
  assumes "i < length p" and "Suc (counts p ! i) < 2 ^ 64"
  shows "counts (bump p i) = (counts p)[i := Suc (counts p ! i)]"
  using assms by (simp add: counts_def bump_def map_update unat_plus_one)

lemma values_bump: "map pe_value (bump p i) = map pe_value p"
proof (rule nth_equalityI)
  fix j assume "j < length (map pe_value (bump p i))"
  then show "map pe_value (bump p i) ! j = map pe_value p ! j"
    by (cases "i = j") (simp_all add: bump_def)
qed (simp add: bump_def)

lemma length_bump [simp]: "length (bump p i) = length p"
  by (simp add: bump_def)

text \<open>A run of selections, each with its own optional seed; the values handed out, in order.\<close>

fun pool_run ::
  "'a CountingPool \<Rightarrow> SessionSeed option list \<Rightarrow> world \<Rightarrow> 'a option list \<times> 'a CountingPool \<times> world" where
  "pool_run p [] w = ([], p, w)"
| "pool_run p (sd # sds) w =
     (let (v, p1, w1) = Pool_NextWithSeed p sd w;
          (vs, p2, w2) = pool_run p1 sds w1
      in (v # vs, p2, w2))"

lemma Pool_NextWithSeed_select:
  assumes "p \<noteq> []" and "length p < 2 ^ 64"
  obtains i w' where "Pool_NextWithSeed p sd w = (Some (pe_value (p ! i)), bump p i, w')"
    and "i < length p" and "\<And>j. j < length p \<Longrightarrow> counts p ! i \<le> counts p ! j"
proof -
  obtain r w' where r: "CheapRandom w = (r, w')" by fastforce
  let ?i = "pickLeastUsed p (case sd of Some s \<Rightarrow> seed_value s | None \<Rightarrow> r)"
  have i: "?i < length p"
    by (rule pickLeastUsed_least(1) [OF assms])
  have "counts p ! ?i \<le> counts p ! j" if "j < length p" for j
    using pickLeastUsed_least(2) [OF assms that] i that
    by (simp add: counts_def word_le_nat_alt)
  with i show thesis
    by (intro that [of ?i w']) (simp_all add: Pool_NextWithSeed_def r assms(1) Let_def)
qed

text \<open>How often each entry was handed out is what its counter says.\<close>

lemma pool_run_counts:
  assumes "pool_run p sds w = (vs, p', w')" and "p \<noteq> []" and "length p < 2 ^ 64"
    and "fair (counts p)" and "sum_list (counts p) + length sds < 2 ^ 64"
    and "distinct (map pe_value p)"
  shows "fair (counts p') \<and> sum_list (counts p') = sum_list (counts p) + length sds \<and>
    map pe_value p' = map pe_value p \<and>
    (\<forall>j < length p. counts p' ! j = counts p ! j + count_list vs (Some (pe_value (p ! j))))"
  using assms
proof (induction sds arbitrary: p w vs)
  case Nil
  then show ?case by simp
next
  case (Cons sd sds)
  obtain i w1 where step: "Pool_NextWithSeed p sd w = (Some (pe_value (p ! i)), bump p i, w1)"
    and i: "i < length p" and least: "\<And>j. j < length p \<Longrightarrow> counts p ! i \<le> counts p ! j"
    using Pool_NextWithSeed_select [OF Cons.prems(2,3), of sd w] by metis
  obtain vs' where run: "pool_run (bump p i) sds w1 = (vs', p', w')"
    and vs: "vs = Some (pe_value (p ! i)) # vs'"
    using Cons.prems(1) by (auto simp: step split: prod.splits)
  have len: "length (counts p) = length p" by (simp add: counts_def)
  have "counts p ! i \<le> sum_list (counts p)"
    using i by (simp add: elem_le_sum_list len)
  then have cb: "counts (bump p i) = (counts p)[i := Suc (counts p ! i)]"
    using i Cons.prems(5) by (intro counts_bump) simp_all
  have sum: "sum_list (counts (bump p i)) = Suc (sum_list (counts p))"
    unfolding cb by (rule sum_list_bump) (simp add: i len)
  have fair: "fair (counts (bump p i))"
    unfolding cb using Cons.prems(4) i least by (intro fair_bump) (simp_all add: len)
  have IH: "fair (counts p') \<and> sum_list (counts p') = sum_list (counts (bump p i)) + length sds \<and>
    map pe_value p' = map pe_value (bump p i) \<and>
    (\<forall>j < length (bump p i). counts p' ! j =
       counts (bump p i) ! j + count_list vs' (Some (pe_value (bump p i ! j))))"
  proof (rule Cons.IH [OF run])
    show "bump p i \<noteq> []" using Cons.prems(2) by (simp flip: length_greater_0_conv)
    show "length (bump p i) < 2 ^ 64" using Cons.prems(3) by simp
    show "sum_list (counts (bump p i)) + length sds < 2 ^ 64" using Cons.prems(5) sum by simp
    show "distinct (map pe_value (bump p i))" using Cons.prems(6) by (simp add: values_bump)
  qed (rule fair)
  have val: "pe_value (bump p i ! j) = pe_value (p ! j)" if "j < length p" for j
    using arg_cong [OF values_bump [of p i], of "\<lambda>xs. xs ! j"] that by simp
  have neq: "pe_value (p ! i) \<noteq> pe_value (p ! j)" if "j < length p" "j \<noteq> i" for j
    using nth_eq_iff_index_eq [OF Cons.prems(6), of i j] i that by auto
  have "counts p' ! j = counts p ! j + count_list vs (Some (pe_value (p ! j)))" if "j < length p" for j
    using IH that val [OF that] neq [OF that] i len by (auto simp: cb vs nth_list_update)
  with IH sum show ?case
    by (simp add: values_bump)
qed

lemma counts_New: "counts (NewCountingPool items) = replicate (length items) 0"
  by (simp add: counts_def NewCountingPool_def map_replicate_const [symmetric] o_def)

lemma values_New [simp]: "map pe_value (NewCountingPool items) = items"
  by (simp add: NewCountingPool_def o_def)

lemma length_New [simp]: "length (NewCountingPool items) = length items"
  by (simp add: NewCountingPool_def)



section \<open>Seeds and exclusion\<close>

lemma Pool_Next_eq_nil_seed: "Pool_Next p w = Pool_NextWithSeed p None w"
  by (simp add: Pool_Next_def Pool_NextWithSeed_def)

text \<open>With a session seed the selection is reproducible: two calls on the same pool with the
  same seed return the same entry and leave the same pool, whatever the state of the random
  generator and of the clock.\<close>

lemma NextWithSeed_deterministic:
  "fst (Pool_NextWithSeed p (Some sd) w) = fst (Pool_NextWithSeed p (Some sd) w') \<and>
   fst (snd (Pool_NextWithSeed p (Some sd) w)) = fst (snd (Pool_NextWithSeed p (Some sd) w'))"
  by (simp add: Pool_NextWithSeed_def Let_def split: prod.splits)

text \<open>NextExcluding never hands out an excluded value while some entry is not excluded, and
  picks a least-used one among the entries that are not excluded.\<close>

lemma NextExcluding_avoids:
  assumes "length p < 2 ^ 64" and "k < length p" and "\<not> excl (pe_value (p ! k))"
  shows "\<exists>i w'. Pool_NextExcluding p excl w = (Some (pe_value (p ! i)), bump p i, w') \<and>
    i < length p \<and> \<not> excl (pe_value (p ! i)) \<and>
    (\<forall>j < length p. \<not> excl (pe_value (p ! j)) \<longrightarrow> useCount (p ! i) \<le> useCount (p ! j))"
proof -
  let ?ks = "filter (\<lambda>i. \<not> excl (pe_value (p ! i))) [0..<length p]"
  obtain r w' where r: "CheapRandom w = (r, w')" by fastforce
  have "k \<in> set ?ks" using assms(2,3) by simp
  then have ne: "?ks \<noteq> []" by (metis empty_iff empty_set)
  have "length ?ks \<le> length p"
    using length_filter_le [of _ "[0..<length p]"] by simp
  with assms(1) have len: "length ?ks < 2 ^ 64" by linarith
  have "Pool_NextExcluding p excl w =
      (Some (pe_value (p ! pickLeastUsedIndices p ?ks r)), bump p (pickLeastUsedIndices p ?ks r), w')"
    using ne assms(2) by (auto simp: Pool_NextExcluding_def Let_def r)
  moreover have "pickLeastUsedIndices p ?ks r \<in> set ?ks"
    by (rule pickLeastUsedIndices_least(1) [OF ne len])
  moreover have "useCount (p ! pickLeastUsedIndices p ?ks r) \<le> useCount (p ! j)"
    if "j < length p" "\<not> excl (pe_value (p ! j))" for j
    using that by (intro pickLeastUsedIndices_least(2) [OF ne len]) simp
  ultimately show ?thesis
    by auto
qed

lemma NextExcluding_avoids_witness:
  "\<exists>i w'. Pool_NextExcluding (NewCountingPool [''a'', ''b'']) (\<lambda>s. s = ''a'') world0 =
      (Some (pe_value (NewCountingPool [''a'', ''b''] ! i)), bump (NewCountingPool [''a'', ''b'']) i, w')
    \<and> pe_value (NewCountingPool [''a'', ''b''] ! i) \<noteq> ''a''"
  using NextExcluding_avoids [of "NewCountingPool [''a'', ''b'']" 1 "\<lambda>s. s = ''a''" world0]
  by (auto simp: NewCountingPool_def)

section \<open>The pool as an interface\<close>

text \<open>What a proxy source relies on: a selection from a non-empty pool returns one of its items
  and keeps the items; a selection from an empty pool returns nothing and changes nothing.\<close>

locale selection_pool =
  fixes select :: "'p \<Rightarrow> SessionSeed option \<Rightarrow> world \<Rightarrow> 'a option \<times> 'p \<times> world"
    and items :: "'p \<Rightarrow> 'a list"
  assumes select_some: "items p \<noteq> [] \<Longrightarrow> length (items p) < 2 ^ 64 \<Longrightarrow>
      \<exists>v p' w'. select p sd w = (Some v, p', w') \<and> v \<in> set (items p) \<and> items p' = items p"
    and select_none: "items p = [] \<Longrightarrow> select p sd w = (None, p, w)"
begin

lemma select_items:
  "select p sd w = (r, p', w') \<Longrightarrow> length (items p) < 2 ^ 64 \<Longrightarrow> items p' = items p"
  by (cases "items p = []")
    (auto simp: select_none dest!: select_some [where sd = sd and w = w])

end

interpretation counting_pool: selection_pool Pool_NextWithSeed "map pe_value"
proof unfold_locales
  fix p :: "'a CountingPool" and sd w
  assume "map pe_value p \<noteq> []" and "length (map pe_value p) < 2 ^ 64"
  then have "p \<noteq> []" "length p < 2 ^ 64" by simp_all
  from Pool_NextWithSeed_select [OF this, of sd w]
  obtain i w' where "Pool_NextWithSeed p sd w = (Some (pe_value (p ! i)), bump p i, w')"
    and "i < length p" by blast
  then show "\<exists>v p' w'. Pool_NextWithSeed p sd w = (Some v, p', w') \<and>
      v \<in> set (map pe_value p) \<and> map pe_value p' = map pe_value p"
    by (auto simp: values_bump)
qed (simp add: Pool_NextWithSeed_def)

end
