(* ===== verification/StaticFile.thy ===== *)
theory StaticFile
  imports ProxyFormat CountingPool
begin

text \<open>
  \<^verbatim>\<open>proxy-kit/utils/provider_static_file.go\<close>: proxies loaded from a text file and served from a
  counting pool. The file system is a parameter \<open>readFile\<close> (\<open>None\<close> when \<^verbatim>\<open>os.Open\<close> fails). Lines
  are those of \<^verbatim>\<open>bufio.Scanner\<close> with its default limit of 64 KiB per line, paths those of
  \<^verbatim>\<open>path/filepath\<close> on Unix.
\<close>

section \<open>The contract of a proxy source\<close>

text \<open>A source in a ready state answers every request with a proxy, no error and no
  connection tracker, and stays ready.\<close>

locale proxy_source =
  fixes resolve :: "'s handler"
    and ready :: "'s \<Rightarrow> bool"
  assumes resolve_ready:
    "ready s \<Longrightarrow> \<exists>p s'. resolve ctx req s = (Ret (Some (Resolved p), None), s') \<and> ready s'"

section \<open>Lines\<close>

fun split_on :: "char \<Rightarrow> string \<Rightarrow> string list" where
  "split_on c [] = [[]]"
| "split_on c (x # xs) =
     (if x = c then [] # split_on c xs
      else (case split_on c xs of [] \<Rightarrow> [[x]] | y # ys \<Rightarrow> (x # y) # ys))"

definition newline :: char where "newline = CHR 10"
definition carriage_return :: char where "carriage_return = CHR 13"

text \<open>The raw lines of a file: pieces between newlines, without an empty last piece.\<close>

definition raw_lines :: "string \<Rightarrow> string list" where
  "raw_lines s = (let parts = split_on newline s
     in if last parts = [] then butlast parts else parts)"

definition dropCR :: "string \<Rightarrow> string" where
  "dropCR l = (if l \<noteq> [] \<and> last l = carriage_return then butlast l else l)"

definition MaxScanTokenSize :: nat where "MaxScanTokenSize = 65536"

section \<open>Loading\<close>

fun load_lines :: "ProxyFormat \<Rightarrow> nat \<Rightarrow> string list \<Rightarrow> error + Proxy list" where
  "load_lines format lineNum [] = Inr []"
| "load_lines format lineNum (l # ls) =
     (if MaxScanTokenSize \<le> length l then Inl ErrTokenTooLong
      else let line = TrimSpace (dropCR l) in
        if line = '''' \<or> HasPrefix line ''#'' then load_lines format (Suc lineNum) ls
        else (case ParseProxyLine line format of
                Inl e \<Rightarrow> Inl (ErrInvalidEntry (Suc lineNum) line e)
              | Inr p \<Rightarrow> (case load_lines format (Suc lineNum) ls of
                            Inl e \<Rightarrow> Inl e | Inr ps \<Rightarrow> Inr (p # ps))))"

definition loadProxiesFromFile ::
  "(string \<Rightarrow> string option) \<Rightarrow> string \<Rightarrow> ProxyFormat \<Rightarrow> error + Proxy list" where
  "loadProxiesFromFile readFile path format =
     (case readFile path of
        None \<Rightarrow> Inl (ErrReadFile path)
      | Some data \<Rightarrow> load_lines format 0 (raw_lines data))"

record StaticFileConfig =
  sfProxiesFile :: string
  sfFormat :: ProxyFormat

record StaticFileSource =
  sf_pool :: "Proxy CountingPool"
  sf_pathDisplay :: string

definition LoadStaticFileSource ::
  "(string \<Rightarrow> string option) \<Rightarrow> string \<Rightarrow> ProxyFormat \<Rightarrow> error + StaticFileSource" where
  "LoadStaticFileSource readFile path format0 =
     (let format = (if format0 = '''' then DefaultProxyFormat else format0)
      in case loadProxiesFromFile readFile path format of
           Inl e \<Rightarrow> Inl e
         | Inr proxies \<Rightarrow>
             if length proxies = 0 then Inl (ErrNoProxies path)
             else Inr \<lparr>sf_pool = NewCountingPool proxies, sf_pathDisplay = path\<rparr>)"

text \<open>\<^verbatim>\<open>filepath.IsAbs\<close>, \<^verbatim>\<open>filepath.Clean\<close> and \<^verbatim>\<open>filepath.Join\<close> on Unix; the stack of
  \<open>clean_components\<close> is in reverse order.\<close>

definition path_IsAbs :: "string \<Rightarrow> bool" where
  "path_IsAbs p = HasPrefix p ''/''"

fun clean_components :: "bool \<Rightarrow> string list \<Rightarrow> string list \<Rightarrow> string list" where
  "clean_components rooted stack [] = rev stack"
| "clean_components rooted stack (c # cs) =
     (if c = '''' \<or> c = ''.'' then clean_components rooted stack cs
      else if c = ''..'' then
        (case stack of
           d # rest \<Rightarrow> if d = ''..'' then clean_components rooted (c # stack) cs
                        else clean_components rooted rest cs
         | [] \<Rightarrow> if rooted then clean_components rooted [] cs
                 else clean_components rooted [c] cs)
      else clean_components rooted (c # stack) cs)"

definition path_Clean :: "string \<Rightarrow> string" where
  "path_Clean p =
     (let rooted = path_IsAbs p;
          body = str_Join (clean_components rooted [] (split_on CHR ''/'' p)) ''/''
      in if rooted then ''/'' @ body else if body = '''' then ''.'' else body)"

definition path_Join :: "string \<Rightarrow> string \<Rightarrow> string" where
  "path_Join a b =
     (if a = '''' \<and> b = '''' then ''''
      else path_Clean (if a = '''' then b else if b = '''' then a else a @ ''/'' @ b))"

definition NewStaticFileSource ::
  "(string \<Rightarrow> string option) \<Rightarrow> StaticFileConfig \<Rightarrow> string \<Rightarrow> error + StaticFileSource" where
  "NewStaticFileSource readFile cfg configDir =
     (let path = (if path_IsAbs (sfProxiesFile cfg) then sfProxiesFile cfg
                  else path_Join configDir (sfProxiesFile cfg))
      in LoadStaticFileSource readFile path (sfFormat cfg))"

definition StaticFileSource_Resolve :: "(StaticFileSource \<times> world) handler" where
  "StaticFileSource_Resolve ctx req sw =
     (let (s, w) = sw;
          (p, pool', w') = Pool_NextWithSeed (sf_pool s) (GetSessionSeed ctx) w;
          sw' = (s\<lparr>sf_pool := pool'\<rparr>, w')
      in case p of
           None \<Rightarrow> (Ret (None, Some ErrEmptyPool), sw')
         | Some cp \<Rightarrow> (Ret (Some (Resolved cp), None), sw'))"

section \<open>Reading a file back\<close>

lemma split_on_nonempty [simp]: "split_on c s \<noteq> []"
  by (cases s) (auto split: list.splits)

lemma split_on_line: "c \<notin> set l \<Longrightarrow> split_on c (l @ c # rest) = l # split_on c rest"
  by (induction l) auto

lemma split_on_lines:
  "\<forall>l \<in> set ls. c \<notin> set l \<Longrightarrow> split_on c (concat (map (\<lambda>l. l @ [c]) ls)) = ls @ [[]]"
  by (induction ls) (auto simp: split_on_line)

lemma raw_lines_unlines:
  "\<forall>l \<in> set ls. newline \<notin> set l \<Longrightarrow> raw_lines (concat (map (\<lambda>l. l @ [newline]) ls)) = ls"
  by (simp add: raw_lines_def split_on_lines)

text \<open>A line of a proxy file: a comment or blank line (\<open>None\<close>) or a proxy in the file's format.\<close>

definition clean_line :: "string \<Rightarrow> bool" where
  "clean_line l \<longleftrightarrow> newline \<notin> set l \<and> length l < MaxScanTokenSize"

definition skipped :: "string \<Rightarrow> bool" where
  "skipped l \<longleftrightarrow> (let line = TrimSpace (dropCR l) in line = '''' \<or> HasPrefix line ''#'')"

definition file_line :: "ProxyFormat \<Rightarrow> string \<Rightarrow> Proxy option \<Rightarrow> bool" where
  "file_line format l entry \<longleftrightarrow> clean_line l \<and>
     (case entry of
        None \<Rightarrow> skipped l
      | Some p \<Rightarrow> printable format p \<and> TrimSpace (dropCR l) = print_proxy format p \<and> \<not> skipped l)"

lemma load_lines_entries:
  "list_all2 (file_line format) ls entries \<Longrightarrow>
     load_lines format n ls = Inr (map the (filter (\<lambda>e. e \<noteq> None) entries))"
proof (induction ls entries arbitrary: n rule: list_all2_induct)
  case Nil
  then show ?case by simp
next
  case (Cons l ls e es)
  then show ?case
    by (cases e)
      (auto simp: file_line_def clean_line_def skipped_def Let_def ParseProxyLine_print)
qed



section \<open>Serving\<close>

definition static_ready :: "StaticFileSource \<times> world \<Rightarrow> bool" where
  "static_ready sw \<longleftrightarrow> 0 < length (sf_pool (fst sw)) \<and> length (sf_pool (fst sw)) < 2 ^ 64"

definition sf_items :: "StaticFileSource \<Rightarrow> Proxy list" where
  "sf_items s = map pe_value (sf_pool s)"

lemma StaticFileSource_Resolve_some:
  assumes "static_ready (s, w)"
  shows "\<exists>p s' w'. StaticFileSource_Resolve ctx req (s, w) = (Ret (Some (Resolved p), None), (s', w')) \<and>
    p \<in> set (sf_items s) \<and> sf_items s' = sf_items s \<and> static_ready (s', w')"
proof -
  have "map pe_value (sf_pool s) \<noteq> []" "length (map pe_value (sf_pool s)) < 2 ^ 64"
    using assms by (auto simp: static_ready_def)
  from counting_pool.select_some [OF this, of "GetSessionSeed ctx" w]
  obtain v p' w' where sel: "Pool_NextWithSeed (sf_pool s) (GetSessionSeed ctx) w = (Some v, p', w')"
    and v: "v \<in> set (map pe_value (sf_pool s))" and items: "map pe_value p' = map pe_value (sf_pool s)"
    by blast
  have "length p' = length (sf_pool s)"
    using items by (metis length_map)
  with sel v items assms show ?thesis
    by (auto simp: StaticFileSource_Resolve_def sf_items_def static_ready_def)
qed

interpretation static_source: proxy_source StaticFileSource_Resolve static_ready
proof
  fix s :: "StaticFileSource \<times> world" and ctx req
  assume "static_ready s"
  then show "\<exists>p s'. StaticFileSource_Resolve ctx req s = (Ret (Some (Resolved p), None), s') \<and> static_ready s'"
    using StaticFileSource_Resolve_some [of "fst s" "snd s" ctx req] by auto
qed

text \<open>A source built from a configuration is ready and serves only proxies of its file: every
  request is answered, without error, with one of the proxies the file lists.\<close>

lemma NewStaticFileSource_serves_file:
  assumes "NewStaticFileSource readFile cfg dir = Inr s" and "length (sf_items s) < 2 ^ 64"
  shows "\<exists>path format. loadProxiesFromFile readFile path format = Inr (sf_items s) \<and>
    (\<forall>ctx req w. \<exists>p s' w'. StaticFileSource_Resolve ctx req (s, w) = (Ret (Some (Resolved p), None), (s', w'))
       \<and> p \<in> set (sf_items s) \<and> sf_items s' = sf_items s)"
proof -
  obtain path format ps where load: "loadProxiesFromFile readFile path format = Inr ps"
    and ps: "ps \<noteq> []" and s: "sf_pool s = NewCountingPool ps"
    using assms(1)
    by (auto simp: NewStaticFileSource_def LoadStaticFileSource_def Let_def split: sum.splits if_splits)
  have items: "sf_items s = ps" by (simp add: sf_items_def s)
  moreover have "static_ready (s, w)" for w
    using ps assms(2) items by (simp add: static_ready_def s)
  ultimately show ?thesis
    using load StaticFileSource_Resolve_some by metis
qed

lemma NewStaticFileSource_serves_file_witness:
  "\<exists>s. NewStaticFileSource (\<lambda>p. if p = ''/etc/gw/p.txt'' then Some ''h1:80'' else None)
      \<lparr>sfProxiesFile = ''../gw/p.txt'', sfFormat = ''''\<rparr> ''/etc/gw'' = Inr s \<and>
    (\<forall>ctx req w. \<exists>s' w'. StaticFileSource_Resolve ctx req (s, w) =
       (Ret (Some (Resolved (mkProxy ''h1'' 80 '''' '''')), None), (s', w')))"
proof -
  let ?s = "\<lparr>sf_pool = NewCountingPool [mkProxy ''h1'' 80 '''' ''''], sf_pathDisplay = ''/etc/gw/p.txt''\<rparr>"
  have new: "NewStaticFileSource (\<lambda>p. if p = ''/etc/gw/p.txt'' then Some ''h1:80'' else None)
      \<lparr>sfProxiesFile = ''../gw/p.txt'', sfFormat = ''''\<rparr> ''/etc/gw'' = Inr ?s"
    by code_simp
  have items: "sf_items ?s = [mkProxy ''h1'' 80 '''' '''']"
    by (simp add: sf_items_def)
  from NewStaticFileSource_serves_file [OF new] have
    "\<forall>ctx req w. \<exists>p s' w'. StaticFileSource_Resolve ctx req (?s, w) = (Ret (Some (Resolved p), None), (s', w'))
       \<and> p \<in> set (sf_items ?s)"
    unfolding items by simp blast
  then have "\<forall>ctx req w. \<exists>s' w'. StaticFileSource_Resolve ctx req (?s, w) =
       (Ret (Some (Resolved (mkProxy ''h1'' 80 '''' '''')), None), (s', w'))"
    unfolding items by simp
  with new show ?thesis by blast
qed

end
