(* ===== verification/RateLimit.thy ===== *)
theory RateLimit
  imports RollingCounter StaticFile
begin

text \<open>
  The rate limiter of \<^verbatim>\<open>proxy-kit/ratelimit.go\<close> and the trackers of \<^verbatim>\<open>proxy-kit/conn_tracker.go\<close>.

  A \<^verbatim>\<open>*userState\<close> is shared between the limiter and every open connection's tracker, so the
  states live in an explicit store (a list; an address is a position) and the limiter maps
  keys to addresses. The store is part of the state the inner handler sees, so that limiters
  nest. \<open>clk\<close> stands for \<^verbatim>\<open>time.Now()\<close> on the rest of the state. The sequential definitions
  run each operation without interruption; the section on interleavings treats the atomic
  counter operations of concurrent connections one by one.
\<close>

section \<open>State\<close>

record userState =
  us_concurrent :: int
  us_counters :: "rollingCounter option list"

type_synonym store = "userState list"

record RateLimiter =
  rl_state :: "string \<rightharpoonup> nat"

type_synonym 'w rlState = "RateLimiter \<times> store \<times> 'w"
type_synonym 'w clock = "'w \<Rightarrow> int \<times> 'w"

definition newRateLimiter :: RateLimiter where
  "newRateLimiter = \<lparr>rl_state = Map.empty\<rparr>"

definition StaticLimits :: "RateLimitRule list \<Rightarrow> string \<Rightarrow> RateLimitRule list" where
  "StaticLimits limits = (\<lambda>key. limits)"

fun new_counters :: "'w clock \<Rightarrow> RateLimitRule list \<Rightarrow> 'w \<Rightarrow> rollingCounter option list \<times> 'w" where
  "new_counters clk [] w = ([], w)"
| "new_counters clk (rl # rls) w =
     (if rlTimeframe rl = Realtime \<or> rlType rl = LimitConcurrentConnections
      then let (cs, w') = new_counters clk rls w in (None # cs, w')
      else let (now, w1) = clk w; (cs, w') = new_counters clk rls w1
           in (Some (newRollingCounter (windowDuration rl) now) # cs, w'))"

definition newUserState :: "'w clock \<Rightarrow> RateLimitRule list \<Rightarrow> 'w \<Rightarrow> userState \<times> 'w" where
  "newUserState clk limits w =
     (let (cs, w') = new_counters clk limits w in (\<lparr>us_concurrent = 0, us_counters = cs\<rparr>, w'))"

definition getState :: "'w clock \<Rightarrow> string \<Rightarrow> RateLimitRule list \<Rightarrow> 'w rlState \<Rightarrow> nat \<times> 'w rlState" where
  "getState clk key limits s =
     (let (h, st, w) = s in
      case rl_state h key of
        Some a \<Rightarrow> (a, s)
      | None \<Rightarrow> let (u, w') = newUserState clk limits w
               in (length st, (h\<lparr>rl_state := (rl_state h)(key \<mapsto> length st)\<rparr>, st @ [u], w')))"

section \<open>The loops over the rules\<close>

text \<open>
  Three loops of the source walk the rules with the counter of the same index, skip the rules
  that do not apply or have no counter, operate on the counter, and stop at the first rule
  whose bound is hit. \<open>applies\<close>, \<open>counter_op\<close> and \<open>hit\<close> are what differs.
\<close>

type_synonym 'w counter_op = "rollingCounter \<Rightarrow> 'w \<Rightarrow> int outcome \<times> rollingCounter \<times> 'w"

fun scan_rules :: "(RateLimitRule \<Rightarrow> bool) \<Rightarrow> 'w counter_op \<Rightarrow> (RateLimitRule \<Rightarrow> int \<Rightarrow> bool) \<Rightarrow> nat \<Rightarrow>
    RateLimitRule list \<Rightarrow> userState \<Rightarrow> 'w \<Rightarrow> RateLimitRule option outcome \<times> userState \<times> 'w" where
  "scan_rules applies op hit i [] u w = (Ret None, u, w)"
| "scan_rules applies op hit i (rl # rls) u w =
     (if \<not> applies rl then scan_rules applies op hit (Suc i) rls u w
      else if length (us_counters u) \<le> i then (Panicked IndexOutOfRange, u, w)
      else case us_counters u ! i of
        None \<Rightarrow> scan_rules applies op hit (Suc i) rls u w
      | Some c \<Rightarrow>
          (case op c w of
             (Panicked p, c', w') \<Rightarrow> (Panicked p, u\<lparr>us_counters := (us_counters u)[i := Some c']\<rparr>, w')
           | (Ret v, c', w') \<Rightarrow>
               let u' = u\<lparr>us_counters := (us_counters u)[i := Some c']\<rparr>
               in if hit rl v then (Ret (Some rl), u', w')
                  else scan_rules applies op hit (Suc i) rls u' w'))"

definition add_op :: "'w clock \<Rightarrow> int \<Rightarrow> 'w counter_op" where
  "add_op clk delta c w =
     (let (now1, w1) = clk w; (now2, w2) = clk w1; (r, c') = rc_Add c delta now1 now2 in (r, c', w2))"

definition total_op :: "'w clock \<Rightarrow> 'w counter_op" where
  "total_op clk c w = (let (now, w1) = clk w; (v, c') = rc_Total c now in (Ret v, c', w1))"

definition is_bytes :: "RateLimitRule \<Rightarrow> bool" where
  "is_bytes rl \<longleftrightarrow> \<not> (rlType rl = LimitConcurrentConnections \<or> rlType rl = LimitTotalConnections)"

fun limitLabel :: "LimitType \<Rightarrow> string" where
  "limitLabel LimitUploadBytes = ''upload''"
| "limitLabel LimitDownloadBytes = ''download''"
| "limitLabel LimitTotalBytes = ''total bandwidth''"
| "limitLabel _ = ''limit''"

definition checkWindowedLimits ::
  "'w clock \<Rightarrow> RateLimitRule list \<Rightarrow> userState \<Rightarrow> 'w \<Rightarrow> error option outcome \<times> userState \<times> 'w" where
  "checkWindowedLimits clk limits u w =
     (let (r, u', w') = scan_rules is_bytes (total_op clk) (\<lambda>rl v. rlMax rl \<le> v) 0 limits u w
      in (bind_outcome r (\<lambda>hit. Ret (map_option (\<lambda>rl. ErrRateLimit (limitLabel (rlType rl))) hit)), u', w'))"

section \<open>Opening a connection\<close>

text \<open>The first loop of \<^verbatim>\<open>openConnection\<close>: one increment per concurrent rule.\<close>

fun open_concurrent :: "string \<Rightarrow> RateLimitRule list \<Rightarrow> userState \<Rightarrow> error option \<times> userState" where
  "open_concurrent key [] u = (None, u)"
| "open_concurrent key (rl # rls) u =
     (if rlType rl \<noteq> LimitConcurrentConnections then open_concurrent key rls u
      else let current = wrap64 (us_concurrent u + 1);
               u1 = u\<lparr>us_concurrent := current\<rparr>
           in if rlMax rl < current
              then (Some (ErrConcurrentLimit (rlMax rl) key), u1\<lparr>us_concurrent := wrap64 (current - 1)\<rparr>)
              else open_concurrent key rls u1)"

definition openConnection :: "'w clock \<Rightarrow> string \<Rightarrow> RateLimitRule list \<Rightarrow> nat \<Rightarrow> userState \<Rightarrow> 'w \<Rightarrow>
    (error + ConnTracker) outcome \<times> userState \<times> 'w" where
  "openConnection clk key limits a u w =
     (case open_concurrent key limits u of
        (Some e, u1) \<Rightarrow> (Ret (Inl e), u1, w)
      | (None, u1) \<Rightarrow>
          (case scan_rules (\<lambda>rl. rlType rl = LimitTotalConnections) (add_op clk 1) (\<lambda>rl v. rlMax rl < v) 0 limits u1 w of
             (Panicked p, u2, w2) \<Rightarrow> (Panicked p, u2, w2)
           | (Ret (Some rl), u2, w2) \<Rightarrow>
               (Ret (Inl (ErrTotalLimit (rlMax rl) key)), u2\<lparr>us_concurrent := wrap64 (us_concurrent u2 - 1)\<rparr>, w2)
           | (Ret None, u2, w2) \<Rightarrow> (Ret (Inr (RlConnTracker limits a)), u2, w2)))"

section \<open>Resolve\<close>

text \<open>The end of \<^verbatim>\<open>Resolve\<close>, once the inner handler has returned a proxy.\<close>

definition rl_track :: "'w clock \<Rightarrow> string \<Rightarrow> RateLimitRule list \<Rightarrow> nat \<Rightarrow> Result option \<Rightarrow> ('w rlState) \<Rightarrow> resolution \<times> 'w rlState" where
  "rl_track clk key limits a result s =
     (let (h, st, w) = s in
      case openConnection clk key limits a (st ! a) w of
        (Panicked p, u, w') \<Rightarrow> (Panicked p, (h, st[a := u], w'))
      | (Ret (Inl e), u, w') \<Rightarrow> (Ret (None, Some e), (h, st[a := u], w'))
      | (Ret (Inr handle), u, w') \<Rightarrow>
          (Ret (map_option (\<lambda>r. r\<lparr>rConnTracker := ChainTrackers (Some handle) (rConnTracker r)\<rparr>) result, None),
           (h, st[a := u], w')))"

definition RateLimiter_Resolve :: "'w clock \<Rightarrow> (Context \<Rightarrow> string) \<Rightarrow> (string \<Rightarrow> RateLimitRule list) \<Rightarrow>
    (store \<times> 'w) handler \<Rightarrow> ('w rlState) handler" where
  "RateLimiter_Resolve clk keyFn limitsFn next ctx req s =
     (let key = keyFn ctx; limits = limitsFn key in
      if limits = [] then
        let (h, sw) = s; (r, sw') = next ctx req sw in (r, (h, sw'))
      else
        let (a, (h, st, w)) = getState clk key limits s;
            (e, u, w1) = checkWindowedLimits clk limits (st ! a) w;
            st1 = st[a := u]
        in case e of
          Panicked p \<Rightarrow> (Panicked p, (h, st1, w1))
        | Ret (Some err) \<Rightarrow> (Ret (None, Some err), (h, st1, w1))
        | Ret None \<Rightarrow>
            (let (r, sw) = next ctx req (st1, w1)
             in case r of
               Panicked p \<Rightarrow> (Panicked p, (h, sw))
             | Ret (result, err) \<Rightarrow>
                 if no_proxy result err then (Ret (result, err), (h, sw))
                 else rl_track clk key limits a result (h, sw)))"

section \<open>Trackers\<close>

fun traffic_applies :: "bool \<Rightarrow> LimitType \<Rightarrow> bool" where
  "traffic_applies upstream LimitUploadBytes = upstream"
| "traffic_applies upstream LimitDownloadBytes = (\<not> upstream)"
| "traffic_applies upstream LimitTotalBytes = True"
| "traffic_applies upstream _ = False"

text \<open>\<^verbatim>\<open>rlConnTracker.RecordTraffic\<close> on the counters; the result says whether \<^verbatim>\<open>cancel()\<close> was called.\<close>

definition rl_RecordTraffic :: "'w clock \<Rightarrow> RateLimitRule list \<Rightarrow> bool \<Rightarrow> int \<Rightarrow> userState \<Rightarrow> 'w \<Rightarrow>
    bool outcome \<times> userState \<times> 'w" where
  "rl_RecordTraffic clk limits upstream delta u w =
     (let (r, u', w') = scan_rules (\<lambda>rl. traffic_applies upstream (rlType rl)) (add_op clk delta)
            (\<lambda>rl v. rlMax rl \<le> v) 0 limits u w
      in (bind_outcome r (\<lambda>hit. Ret (hit \<noteq> None)), u', w'))"

definition rl_Close :: "userState \<Rightarrow> userState" where
  "rl_Close u = (if 0 < us_concurrent u then u\<lparr>us_concurrent := wrap64 (us_concurrent u - 1)\<rparr> else u)"

text \<open>The interface methods, by the dynamic type of the tracker. The result of
  \<open>CT_RecordTraffic\<close> counts the calls of \<^verbatim>\<open>cancel\<close>.\<close>

fun CT_RecordTraffic :: "'w clock \<Rightarrow> ConnTracker \<Rightarrow> bool \<Rightarrow> int \<Rightarrow> store \<times> 'w \<Rightarrow> nat outcome \<times> store \<times> 'w" where
  "CT_RecordTraffic clk (RlConnTracker limits a) upstream delta (st, w) =
     (case rl_RecordTraffic clk limits upstream delta (st ! a) w of
        (r, u, w') \<Rightarrow> (bind_outcome r (\<lambda>b. Ret (of_bool b)), st[a := u], w'))"
| "CT_RecordTraffic clk (ChainedTracker x y) upstream delta sw =
     (case CT_RecordTraffic clk x upstream delta sw of
        (Panicked p, sw1) \<Rightarrow> (Panicked p, sw1)
      | (Ret m, sw1) \<Rightarrow>
          (case CT_RecordTraffic clk y upstream delta sw1 of
             (r, sw2) \<Rightarrow> (bind_outcome r (\<lambda>n. Ret (m + n)), sw2)))"
| "CT_RecordTraffic clk NoopHandle upstream delta sw = (Ret 0, sw)"

fun CT_Close :: "ConnTracker \<Rightarrow> store \<Rightarrow> store" where
  "CT_Close (RlConnTracker limits a) st = st[a := rl_Close (st ! a)]"
| "CT_Close (ChainedTracker x y) st = CT_Close y (CT_Close x st)"
| "CT_Close NoopHandle st = st"


section \<open>The interfaces: clocks and counter operations\<close>

definition counters_ok :: "userState \<Rightarrow> bool" where
  "counters_ok u \<longleftrightarrow> (\<forall>c. Some c \<in> set (us_counters u) \<longrightarrow> rc_inv c)"

lemma counters_ok_nth: "counters_ok u \<Longrightarrow> i < length (us_counters u) \<Longrightarrow> us_counters u ! i = Some c \<Longrightarrow> rc_inv c"
  unfolding counters_ok_def by (metis nth_mem)

lemma counters_ok_update:
  "counters_ok u \<Longrightarrow> rc_inv c \<Longrightarrow> counters_ok (u\<lparr>us_counters := (us_counters u)[i := Some c]\<rparr>)"
  unfolding counters_ok_def using set_update_subset_insert by fastforce

lemma counters_ok_concurrent [simp]: "counters_ok (u\<lparr>us_concurrent := x\<rparr>) = counters_ok u"
  by (simp add: counters_ok_def)

text \<open>Some rule of the list (with counters from index \<open>i\<close> on) has hit its bound.\<close>

fun exceeded :: "(RateLimitRule \<Rightarrow> bool) \<Rightarrow> (RateLimitRule \<Rightarrow> int \<Rightarrow> bool) \<Rightarrow> nat \<Rightarrow> RateLimitRule list \<Rightarrow>
    rollingCounter option list \<Rightarrow> bool" where
  "exceeded applies hit i [] cs = False"
| "exceeded applies hit i (rl # rls) cs =
     ((applies rl \<and> (case cs ! i of None \<Rightarrow> False | Some c \<Rightarrow> hit rl (rc_sum c))) \<or>
      exceeded applies hit (Suc i) rls cs)"

lemma exceeded_iff:
  "exceeded applies hit i ls cs \<longleftrightarrow>
     (\<exists>j < length ls. applies (ls ! j) \<and> (\<exists>c. cs ! (i + j) = Some c \<and> hit (ls ! j) (rc_sum c)))"
  by (induction ls arbitrary: i) (auto simp: less_Suc_eq_0_disj split: option.splits)

text \<open>A counter operation returns the new total of the counter and keeps it well formed.\<close>

locale counter_operation =
  fixes op :: "'w counter_op"
    and ok :: "'w \<Rightarrow> bool"
  assumes op_total: "rc_inv c \<Longrightarrow> ok w \<Longrightarrow>
    \<exists>c' w'. op c w = (Ret (rc_sum c'), c', w') \<and> rc_inv c' \<and> ok w'"
begin

lemma scan_result:
  assumes "counters_ok u" and "ok w" and "i + length ls \<le> length (us_counters u)"
  shows "\<exists>r u' w'. scan_rules applies op hit i ls u w = (Ret r, u', w') \<and>
    us_concurrent u' = us_concurrent u \<and> length (us_counters u') = length (us_counters u) \<and>
    counters_ok u' \<and> ok w' \<and> (\<forall>j<i. us_counters u' ! j = us_counters u ! j) \<and>
    (r \<noteq> None \<longleftrightarrow> exceeded applies hit i ls (us_counters u')) \<and> (\<forall>rl. r = Some rl \<longrightarrow> applies rl)"
  using assms
proof (induction ls arbitrary: i u w)
  case (Cons rl rls)
  have i: "i < length (us_counters u)" and len: "Suc i + length rls \<le> length (us_counters u)"
    using Cons.prems(3) by simp_all
  note rec = Cons.IH [OF Cons.prems(1,2) len]
  show ?case
  proof (cases "applies rl")
    case False
    with rec show ?thesis by fastforce
  next
    case True
    note app = True
    show ?thesis
    proof (cases "us_counters u ! i")
      case None
      with app i rec show ?thesis by (fastforce simp: not_le)
    next
      case (Some c)
      then have "rc_inv c"
        using Cons.prems(1) i by (rule counters_ok_nth [rotated 2])
      then obtain c' w' where op: "op c w = (Ret (rc_sum c'), c', w')" and c': "rc_inv c'" "ok w'"
        using op_total Cons.prems(2) by blast
      define u1 where "u1 = u\<lparr>us_counters := (us_counters u)[i := Some c']\<rparr>"
      have u1: "counters_ok u1" "length (us_counters u1) = length (us_counters u)"
        "us_concurrent u1 = us_concurrent u" "us_counters u1 ! i = Some c'"
        "\<forall>j<i. us_counters u1 ! j = us_counters u ! j"
        using Cons.prems(1) c' i by (simp_all add: u1_def counters_ok_update)
      have eq: "scan_rules applies op hit i (rl # rls) u w =
          (if hit rl (rc_sum c') then (Ret (Some rl), u1, w') else scan_rules applies op hit (Suc i) rls u1 w')"
        using app i Some op by (simp add: u1_def Let_def)
      show ?thesis
      proof (cases "hit rl (rc_sum c')")
        case True
        with u1 c' app show ?thesis unfolding eq by simp
      next
        case False
        have "Suc i + length rls \<le> length (us_counters u1)"
          using len u1(2) by simp
        from Cons.IH [OF u1(1) c'(2) this] u1 False app show ?thesis
          unfolding eq by (auto simp: less_Suc_eq)
      qed
    qed
  qed
qed simp

end

locale clock_source =
  fixes clk :: "'w clock"
    and ok :: "'w \<Rightarrow> bool"
  assumes clk_ok: "ok w \<Longrightarrow> 0 \<le> fst (clk w) \<and> ok (snd (clk w))"

sublocale clock_source \<subseteq> add_to: counter_operation "add_op clk delta" ok for delta
proof
  fix c w assume inv: "rc_inv c" and w: "ok w"
  let ?w1 = "snd (clk w)" and ?w2 = "snd (clk (snd (clk w)))"
  have "0 \<le> fst (clk ?w1)" "ok ?w2"
    using clk_ok [OF w] clk_ok [of ?w1] by simp_all
  moreover obtain c' where "rc_Add c delta (fst (clk w)) (fst (clk ?w1)) = (Ret (tw_total (rc_abs c')), c')" "rc_inv c'"
    using rc_Add_correct [OF inv, of "fst (clk ?w1)" delta "fst (clk w)"] calculation(1) by metis
  ultimately show "\<exists>c' w'. add_op clk delta c w = (Ret (rc_sum c'), c', w') \<and> rc_inv c' \<and> ok w'"
    by (simp add: add_op_def case_prod_beta Let_def rc_abs_def)
qed

sublocale clock_source \<subseteq> total_of: counter_operation "total_op clk" ok
proof
  fix c w assume inv: "rc_inv c" and w: "ok w"
  have "fst (rc_Total c t) = rc_sum (snd (rc_Total c t))" for t
    by (simp add: rc_Total_def Let_def)
  then show "\<exists>c' w'. total_op clk c w = (Ret (rc_sum c'), c', w') \<and> rc_inv c' \<and> ok w'"
    using rc_Total_correct [OF inv, of "fst (clk w)"] clk_ok [OF w]
    by (simp add: total_op_def case_prod_beta Let_def)
qed

text \<open>The world's clock, when its readings are after the epoch.\<close>

definition after_epoch :: "world \<Rightarrow> bool" where
  "after_epoch w \<longleftrightarrow> (\<forall>i. 0 \<le> w_clock w i)"

interpretation world_clock: clock_source time_Now after_epoch
  by unfold_locales (simp add: time_Now_def after_epoch_def)


section \<open>Opening connections\<close>

definition is_concurrent :: "RateLimitRule \<Rightarrow> bool" where
  "is_concurrent rl \<longleftrightarrow> rlType rl = LimitConcurrentConnections"

lemma open_concurrent_filter: "open_concurrent key ls u = open_concurrent key (filter is_concurrent ls) u"
  by (induction ls arbitrary: u) (simp_all add: is_concurrent_def Let_def)

lemma open_concurrent_counters: "open_concurrent key ls u = (e, u') \<Longrightarrow> us_counters u' = us_counters u"
  by (induction ls arbitrary: u) (auto simp: Let_def split: if_splits)

lemma open_concurrent_admitted:
  "open_concurrent key ls u = (None, u') \<Longrightarrow> in_int64 (us_concurrent u) \<Longrightarrow>
   us_concurrent u' = wrap64 (us_concurrent u + int (length (filter is_concurrent ls)))"
proof (induction ls arbitrary: u)
  case (Cons rl rls)
  show ?case
  proof (cases "is_concurrent rl")
    case True
    let ?u1 = "u\<lparr>us_concurrent := wrap64 (us_concurrent u + 1)\<rparr>"
    have "open_concurrent key rls ?u1 = (None, u')"
      using Cons.prems(1) True by (auto simp: is_concurrent_def Let_def split: if_splits)
    from Cons.IH [OF this] show ?thesis
      using True by (simp add: wrap64_range wrap64_add_left add.assoc)
  next
    case False
    with Cons show ?thesis by (simp add: is_concurrent_def)
  qed
qed (simp add: wrap64_id)

lemma counters_ok_cong: "us_counters u = us_counters v \<Longrightarrow> counters_ok u = counters_ok v"
  by (simp add: counters_ok_def)

context clock_source
begin

lemma openConnection_returns:
  assumes "counters_ok u" and "ok w" and "length limits \<le> length (us_counters u)"
  shows "\<exists>r u' w'. openConnection clk key limits a u w = (Ret r, u', w') \<and> counters_ok u' \<and> ok w' \<and>
    length (us_counters u') = length (us_counters u) \<and>
    (\<forall>u1. open_concurrent key limits u = (None, u1) \<longrightarrow>
       (r = Inr (RlConnTracker limits a) \<and> us_concurrent u' = us_concurrent u1) \<or>
       (\<exists>e. r = Inl e \<and> us_concurrent u' = wrap64 (us_concurrent u1 - 1))) \<and>
    (\<forall>e u1. open_concurrent key limits u = (Some e, u1) \<longrightarrow> r = Inl e \<and> u' = u1)"
proof -
  obtain e u1 where oc: "open_concurrent key limits u = (e, u1)"
    by fastforce
  then have c1: "us_counters u1 = us_counters u"
    by (rule open_concurrent_counters)
  then have ok1: "counters_ok u1" "0 + length limits \<le> length (us_counters u1)"
    using assms by (simp_all add: counters_ok_cong [OF c1])
  obtain r u2 w2 where scan: "scan_rules (\<lambda>rl. rlType rl = LimitTotalConnections) (add_op clk 1)
      (\<lambda>rl v. rlMax rl < v) 0 limits u1 w = (Ret r, u2, w2)" and u2: "us_concurrent u2 = us_concurrent u1"
      "length (us_counters u2) = length (us_counters u1)" "counters_ok u2" "ok w2"
    using add_to.scan_result [OF ok1(1) assms(2) ok1(2)] by blast
  show ?thesis
  proof (cases e)
    case None
    with oc scan u2 c1 show ?thesis
      by (cases r) (simp_all add: openConnection_def)
  next
    case (Some err)
    with oc ok1 c1 assms show ?thesis
      by (simp add: openConnection_def)
  qed
qed

lemma openConnection_one_rule:
  assumes "counters_ok u" and "ok w" and "length limits \<le> length (us_counters u)"
    and one: "filter is_concurrent limits = [rl]" and conc: "0 \<le> us_concurrent u" "us_concurrent u < 2 ^ 63 - 1"
  shows "\<exists>r u' w'. openConnection clk key limits a u w = (Ret r, u', w') \<and> counters_ok u' \<and> ok w' \<and>
    length (us_counters u') = length (us_counters u) \<and>
    ((r = Inr (RlConnTracker limits a) \<and> us_concurrent u' = us_concurrent u + 1 \<and> us_concurrent u' \<le> rlMax rl) \<or>
     (\<exists>e. r = Inl e \<and> us_concurrent u' = us_concurrent u))"
proof -
  have conc_rl: "rlType rl = LimitConcurrentConnections"
    using arg_cong [OF one, of set] by (auto simp: is_concurrent_def)
  have w1: "wrap64 (us_concurrent u + 1) = us_concurrent u + 1" and w0: "wrap64 (us_concurrent u) = us_concurrent u"
    using conc by (simp_all add: wrap64_id in_int64_def)
  have oc: "open_concurrent key limits u =
      (if rlMax rl < us_concurrent u + 1 then (Some (ErrConcurrentLimit (rlMax rl) key), u\<lparr>us_concurrent := us_concurrent u\<rparr>)
       else (None, u\<lparr>us_concurrent := us_concurrent u + 1\<rparr>))"
    unfolding open_concurrent_filter [of key limits] one by (simp add: conc_rl w1 w0 Let_def)
  from openConnection_returns [OF assms(1-3), of key a]
  obtain r u' w' where open': "openConnection clk key limits a u w = (Ret r, u', w')"
    "counters_ok u'" "ok w'" "length (us_counters u') = length (us_counters u)"
    and adm: "\<And>u1. open_concurrent key limits u = (None, u1) \<Longrightarrow>
       (r = Inr (RlConnTracker limits a) \<and> us_concurrent u' = us_concurrent u1) \<or>
       (\<exists>e. r = Inl e \<and> us_concurrent u' = wrap64 (us_concurrent u1 - 1))"
    and rej: "\<And>e u1. open_concurrent key limits u = (Some e, u1) \<Longrightarrow> r = Inl e \<and> u' = u1"
    by (elim exE conjE) (rule that, blast+)
  have "(r = Inr (RlConnTracker limits a) \<and> us_concurrent u' = us_concurrent u + 1 \<and> us_concurrent u' \<le> rlMax rl) \<or>
     (\<exists>e. r = Inl e \<and> us_concurrent u' = us_concurrent u)"
  proof (cases "rlMax rl < us_concurrent u + 1")
    case True
    with oc rej show ?thesis by simp
  next
    case False
    with oc have "open_concurrent key limits u = (None, u\<lparr>us_concurrent := us_concurrent u + 1\<rparr>)" by simp
    from adm [OF this] False w0 show ?thesis by auto
  qed
  with open' show ?thesis by blast
qed

end

text \<open>
  The concurrent counter across one admitted connection. \<^verbatim>\<open>openConnection\<close> adds one per
  concurrent rule and \<^verbatim>\<open>Close\<close> subtracts one in all, so with \<open>n\<close> concurrent rules every
  connection that is opened and closed leaves \<open>n - 1\<close> phantom connections behind. Only with a
  single concurrent rule does the counter come back to where it was.
\<close>
lemma openConnection_Close_leaks:
  assumes "clock_source clk ok" and "ok w" and "counters_ok u" and "length limits \<le> length (us_counters u)"
    and "0 \<le> us_concurrent u" and "us_concurrent u + int (length (filter is_concurrent limits)) < 2 ^ 63"
    and "filter is_concurrent limits \<noteq> []"
    and "openConnection clk key limits a u w = (Ret (Inr t), u', w')"
  shows "us_concurrent u' = us_concurrent u + int (length (filter is_concurrent limits)) \<and>
    us_concurrent (rl_Close u') = us_concurrent u + int (length (filter is_concurrent limits)) - 1"
proof -
  obtain e u1 where oc: "open_concurrent key limits u = (e, u1)"
    by fastforce
  have e: "e = None" and c: "us_concurrent u' = us_concurrent u1"
    using clock_source.openConnection_returns [OF assms(1,3,2,4), of key a] oc assms(8) by (cases e; auto)+
  define n where "n = int (length (filter is_concurrent limits))"
  have n: "0 < n" "us_concurrent u + n < 2 ^ 63"
    using assms(6,7) by (simp_all add: n_def)
  have "us_concurrent u1 = wrap64 (us_concurrent u + n)"
    unfolding n_def using oc e assms(5,6) by (intro open_concurrent_admitted) (auto simp: in_int64_def)
  also have "\<dots> = us_concurrent u + n"
    using assms(5) n by (simp add: wrap64_id in_int64_def)
  finally show ?thesis
    using c n assms(5) unfolding n_def [symmetric] by (simp add: rl_Close_def wrap64_id in_int64_def)
qed

definition concurrent_rule :: "int \<Rightarrow> RateLimitRule" where
  "concurrent_rule m = \<lparr>rlType = LimitConcurrentConnections, rlTimeframe = Realtime, rlWindow = 0, rlMax = m\<rparr>"

lemma is_concurrent_rule [simp]: "is_concurrent (concurrent_rule m)"
  by (simp add: is_concurrent_def concurrent_rule_def)

lemma fixed_clock: "0 \<le> t \<Longrightarrow> clock_source (\<lambda>w. (t, w)) (\<lambda>w. True)"
  by unfold_locales simp

lemma openConnection_Close_leaks_witness:
  "\<exists>u' w'. openConnection (\<lambda>w. (9, w)) ''alice'' [concurrent_rule 5, concurrent_rule 8] 0
      \<lparr>us_concurrent = 0, us_counters = [None, None]\<rparr> (0::nat) =
      (Ret (Inr (RlConnTracker [concurrent_rule 5, concurrent_rule 8] 0)), u', w') \<and>
    us_concurrent (rl_Close u') = 1"
proof -
  let ?u = "\<lparr>us_concurrent = 0, us_counters = [None, None]\<rparr>" and ?ls = "[concurrent_rule 5, concurrent_rule 8]"
  have "openConnection (\<lambda>w. (9, w)) ''alice'' ?ls 0 ?u (0::nat) =
      (Ret (Inr (RlConnTracker ?ls 0)), \<lparr>us_concurrent = 2, us_counters = [None, None]\<rparr>, 0)"
    by (simp add: openConnection_def concurrent_rule_def wrap64_def Let_def signed_take_bit_int_eq_self)
  from this openConnection_Close_leaks [OF fixed_clock _ _ _ _ _ _ this]
  show ?thesis
    by (simp add: counters_ok_def)
qed


section \<open>Histories of a limiter\<close>

text \<open>
  What the limiter asks of the handler behind it: with the clock condition it keeps the
  store, keeps the condition, and never supplies a tracker of its own.
\<close>

locale limited_handler = clock_source +
  fixes inner :: "(store \<times> 'a) handler"
  assumes inner_frame: "ok w \<Longrightarrow> inner ctx req (st, w) = (r, (st', w')) \<Longrightarrow> st' = st \<and> ok w'"
    and inner_tracker: "ok w \<Longrightarrow> inner ctx req (st, w) = (Ret (Some res, err), sw') \<Longrightarrow> rConnTracker res = None"

text \<open>A handler that does not know the store.\<close>

definition below_store :: "'w handler \<Rightarrow> (store \<times> 'w) handler" where
  "below_store f = (\<lambda>ctx req (st, w). let (r, w') = f ctx req w in (r, (st, w')))"

text \<open>
  The states and the open connections a server can reach: resolving (with any outcome that
  returns), recording traffic on an open connection, closing an open connection once.
\<close>

inductive rl_reach :: "'w clock \<Rightarrow> (Context \<Rightarrow> string) \<Rightarrow> (string \<Rightarrow> RateLimitRule list) \<Rightarrow> (store \<times> 'w) handler \<Rightarrow>
    'w \<Rightarrow> 'w rlState \<Rightarrow> ConnTracker list \<Rightarrow> bool"
  for clk keyFn limitsFn inner w0 where
  start: "rl_reach clk keyFn limitsFn inner w0 (newRateLimiter, [], w0) []"
| resolve_open: "rl_reach clk keyFn limitsFn inner w0 s os \<Longrightarrow>
    RateLimiter_Resolve clk keyFn limitsFn inner ctx req s = (Ret (Some res, None), s') \<Longrightarrow>
    rConnTracker res = Some t \<Longrightarrow> rl_reach clk keyFn limitsFn inner w0 s' (t # os)"
| resolve_untracked: "rl_reach clk keyFn limitsFn inner w0 s os \<Longrightarrow>
    RateLimiter_Resolve clk keyFn limitsFn inner ctx req s = (out, s') \<Longrightarrow>
    (\<And>res t. out = Ret (Some res, None) \<Longrightarrow> rConnTracker res \<noteq> Some t) \<Longrightarrow> rl_reach clk keyFn limitsFn inner w0 s' os"
| traffic: "rl_reach clk keyFn limitsFn inner w0 (h, st, w) os \<Longrightarrow> t \<in> set os \<Longrightarrow>
    CT_RecordTraffic clk t upstream delta (st, w) = (r, st', w') \<Longrightarrow> rl_reach clk keyFn limitsFn inner w0 (h, st', w') os"
| close: "rl_reach clk keyFn limitsFn inner w0 (h, st, w) os \<Longrightarrow> t \<in> set os \<Longrightarrow>
    rl_reach clk keyFn limitsFn inner w0 (h, CT_Close t st, w) (remove1 t os)"

definition open_at :: "nat \<Rightarrow> ConnTracker list \<Rightarrow> int" where
  "open_at a os = int (length (filter (\<lambda>t. case t of RlConnTracker _ b \<Rightarrow> b = a | _ \<Rightarrow> False) os))"

text \<open>The maxima of the concurrent rules leave room for one increment in an \<^verbatim>\<open>int64\<close>.\<close>

definition rule_bounded :: "RateLimitRule list \<Rightarrow> bool" where
  "rule_bounded limits \<longleftrightarrow> (\<forall>rl. filter is_concurrent limits = [rl] \<longrightarrow> rlMax rl < 2 ^ 63 - 1)"

text \<open>The state of the key at address \<open>a\<close>, with \<open>n\<close> connections open.\<close>

definition key_ok :: "RateLimitRule list \<Rightarrow> userState \<Rightarrow> int \<Rightarrow> bool" where
  "key_ok limits u n \<longleftrightarrow> counters_ok u \<and> length (us_counters u) = length limits \<and> limits \<noteq> [] \<and>
     (\<forall>rl. filter is_concurrent limits = [rl] \<longrightarrow> us_concurrent u = n \<and> (n = 0 \<or> n \<le> rlMax rl))"

definition rl_inv :: "(string \<Rightarrow> RateLimitRule list) \<Rightarrow> RateLimiter \<Rightarrow> store \<Rightarrow> ConnTracker list \<Rightarrow> bool" where
  "rl_inv limitsFn h st os \<longleftrightarrow>
     (\<forall>k a. rl_state h k = Some a \<longrightarrow> a < length st \<and> key_ok (limitsFn k) (st ! a) (open_at a os)) \<and>
     (\<forall>k k' a. rl_state h k = Some a \<longrightarrow> rl_state h k' = Some a \<longrightarrow> k = k') \<and>
     (\<forall>t \<in> set os. \<exists>k a. t = RlConnTracker (limitsFn k) a \<and> rl_state h k = Some a)"

lemma open_at_nonneg [simp]: "0 \<le> open_at a os"
  by (simp add: open_at_def)

lemma open_at_Cons: "open_at a (RlConnTracker ls b # os) = open_at a os + of_bool (b = a)"
  by (simp add: open_at_def)

lemma open_at_remove1:
  "RlConnTracker ls b \<in> set os \<Longrightarrow> open_at a (remove1 (RlConnTracker ls b) os) = open_at a os - of_bool (b = a)"
  by (induction os) (auto simp: open_at_def split: ConnTracker.splits)


lemma rl_inv_keyD:
  assumes "rl_inv limitsFn h st os" and "rl_state h k = Some a"
  shows "a < length st \<and> key_ok (limitsFn k) (st ! a) (open_at a os)"
  using assms by (simp add: rl_inv_def)

lemma rl_inv_trackerD:
  assumes "rl_inv limitsFn h st os" and "t \<in> set os"
  obtains k a where "t = RlConnTracker (limitsFn k) a" "rl_state h k = Some a" "a < length st"
    "key_ok (limitsFn k) (st ! a) (open_at a os)"
  using assms unfolding rl_inv_def by blast

lemma rl_inv_update:
  assumes "rl_inv limitsFn h st os" and "rl_state h k = Some a" and "key_ok (limitsFn k) u (open_at a os')"
    and "\<And>b. b \<noteq> a \<Longrightarrow> open_at b os' = open_at b os"
    and "\<And>t. t \<in> set os' \<Longrightarrow> t \<in> set os \<or> t = RlConnTracker (limitsFn k) a"
  shows "rl_inv limitsFn h (st[a := u]) os'"
proof -
  have uniq: "k' = k" if "rl_state h k' = Some a" for k'
    using assms(1,2) that unfolding rl_inv_def by blast
  have "b < length (st[a := u]) \<and> key_ok (limitsFn k') (st[a := u] ! b) (open_at b os')" if "rl_state h k' = Some b" for k' b
    using rl_inv_keyD [OF assms(1) that] assms(3,4) uniq that by (cases "b = a") auto
  moreover have "\<exists>k a. t = RlConnTracker (limitsFn k) a \<and> rl_state h k = Some a" if "t \<in> set os'" for t
    using assms(5) [OF that] assms(1,2) unfolding rl_inv_def by blast
  ultimately show ?thesis
    using assms(1) unfolding rl_inv_def by blast
qed

lemma open_at_new: "rl_inv limitsFn h st os \<Longrightarrow> open_at (length st) os = 0"
  unfolding rl_inv_def open_at_def
  by (auto simp: filter_empty_conv split: ConnTracker.splits) fastforce

lemma new_counters_ok:
  "length (fst (new_counters clk limits w)) = length limits \<and>
   (\<forall>c. Some c \<in> set (fst (new_counters clk limits w)) \<longrightarrow> rc_inv c)"
  by (induction limits arbitrary: w) (auto simp: Let_def case_prod_beta newRollingCounter_inv)

lemma newUserState_ok:
  "limits \<noteq> [] \<Longrightarrow> key_ok limits (fst (newUserState clk limits w)) 0"
  using new_counters_ok [of clk limits w] by (simp add: key_ok_def counters_ok_def newUserState_def case_prod_beta Let_def)

context clock_source
begin

lemma new_counters_clock: "ok w \<Longrightarrow> ok (snd (new_counters clk limits w))"
  by (induction limits arbitrary: w) (auto simp: Let_def case_prod_beta clk_ok)

lemma getState_inv:
  assumes "rl_inv limitsFn h st os" and "ok w" and "limitsFn key \<noteq> []"
    and "getState clk key (limitsFn key) (h, st, w) = (a, h', st', w')"
  shows "rl_inv limitsFn h' st' os \<and> ok w' \<and> rl_state h' key = Some a"
proof (cases "rl_state h key")
  case None
  let ?u = "newUserState clk (limitsFn key) w"
  have s': "a = length st" "h' = h\<lparr>rl_state := (rl_state h)(key \<mapsto> length st)\<rparr>" "st' = st @ [fst ?u]" "w' = snd ?u"
    using assms(4) None by (auto simp: getState_def case_prod_beta Let_def)
  have lt: "b < length st" if "rl_state h k = Some b" for k b
    using rl_inv_keyD [OF assms(1) that] by blast
  have "key_ok (limitsFn key) (fst ?u) (open_at (length st) os)"
    unfolding open_at_new [OF assms(1)] by (rule newUserState_ok) (rule assms(3))
  then have "\<forall>k b. rl_state h' k = Some b \<longrightarrow> b < length st' \<and> key_ok (limitsFn k) (st' ! b) (open_at b os)"
    using rl_inv_keyD [OF assms(1)] lt by (auto simp: s' nth_append intro: less_SucI)
  moreover have "\<forall>k k' b. rl_state h' k = Some b \<longrightarrow> rl_state h' k' = Some b \<longrightarrow> k = k'"
    using assms(1) unfolding rl_inv_def s' by (auto dest: lt)
  moreover have "\<forall>t \<in> set os. \<exists>k b. t = RlConnTracker (limitsFn k) b \<and> rl_state h' k = Some b"
  proof
    fix t assume "t \<in> set os"
    with assms(1) obtain k b where "t = RlConnTracker (limitsFn k) b" "rl_state h k = Some b"
      by (rule rl_inv_trackerD)
    moreover from this None have "k \<noteq> key" by auto
    ultimately show "\<exists>k b. t = RlConnTracker (limitsFn k) b \<and> rl_state h' k = Some b"
      unfolding s' by (intro exI [of _ k] exI [of _ b]) simp
  qed
  ultimately have "rl_inv limitsFn h' st' os"
    unfolding rl_inv_def by blast
  then show ?thesis
    using new_counters_clock [OF assms(2), of "limitsFn key"] by (simp add: s' newUserState_def case_prod_beta Let_def)
next
  case (Some b)
  with assms show ?thesis by (simp add: getState_def)
qed

lemma checkWindowedLimits_ok:
  assumes "key_ok limits u n" and "ok w"
  shows "\<exists>e u' w'. checkWindowedLimits clk limits u w = (Ret e, u', w') \<and> key_ok limits u' n \<and> ok w' \<and>
    (e = None \<longleftrightarrow> \<not> exceeded is_bytes (\<lambda>rl v. rlMax rl \<le> v) 0 limits (us_counters u'))"
proof -
  have "counters_ok u" "0 + length limits \<le> length (us_counters u)"
    using assms(1) by (simp_all add: key_ok_def)
  from total_of.scan_result [OF this(1) assms(2) this(2), of is_bytes "\<lambda>rl v. rlMax rl \<le> v"] assms(1)
  show ?thesis
    by (auto simp: checkWindowedLimits_def key_ok_def)
qed

lemma openConnection_ok:
  assumes "key_ok limits u n" and "ok w" and "0 \<le> n"
    and "rule_bounded limits"
  shows "\<exists>r u' w'. openConnection clk key limits a u w = (Ret r, u', w') \<and> ok w' \<and>
    (r = Inr (RlConnTracker limits a) \<and> key_ok limits u' (n + 1) \<or> (\<exists>e. r = Inl e \<and> key_ok limits u' n))"
proof (cases "\<exists>rl. filter is_concurrent limits = [rl]")
  case True
  then obtain rl where one: "filter is_concurrent limits = [rl]" by blast
  with assms have "us_concurrent u = n" "n < 2 ^ 63 - 1"
    by (auto simp: key_ok_def rule_bounded_def)
  with openConnection_one_rule [of u w limits rl key a] assms one show ?thesis
    by (fastforce simp: key_ok_def)
next
  case False
  obtain e u1 where oc: "open_concurrent key limits u = (e, u1)"
    by fastforce
  with openConnection_returns [of u w limits key a] assms False show ?thesis
    by (cases e) (fastforce simp: key_ok_def)+
qed

lemma rl_RecordTraffic_ok:
  assumes "key_ok limits u n" and "ok w"
  shows "\<exists>b u' w'. rl_RecordTraffic clk limits upstream delta u w = (Ret b, u', w') \<and> key_ok limits u' n \<and> ok w' \<and>
    (b \<longleftrightarrow> exceeded (\<lambda>rl. traffic_applies upstream (rlType rl)) (\<lambda>rl v. rlMax rl \<le> v) 0 limits (us_counters u'))"
proof -
  have "counters_ok u" "0 + length limits \<le> length (us_counters u)"
    using assms(1) by (simp_all add: key_ok_def)
  from add_to.scan_result [OF this(1) assms(2) this(2), of "\<lambda>rl. traffic_applies upstream (rlType rl)" delta "\<lambda>rl v. rlMax rl \<le> v"] assms(1)
  show ?thesis
    by (auto simp: rl_RecordTraffic_def key_ok_def)
qed

end

lemma rl_Close_ok:
  assumes "key_ok limits u n" and "0 < n" and "rule_bounded limits"
  shows "key_ok limits (rl_Close u) (n - 1)"
proof -
  have "us_concurrent (rl_Close u) = n - 1 \<and> (n - 1 = 0 \<or> n - 1 \<le> rlMax rl)" if "filter is_concurrent limits = [rl]" for rl
    using assms that by (auto simp: rule_bounded_def key_ok_def rl_Close_def wrap64_id in_int64_def)
  moreover have "us_counters (rl_Close u) = us_counters u"
    by (simp add: rl_Close_def)
  ultimately show ?thesis
    using assms(1) unfolding key_ok_def by (simp add: counters_ok_def)
qed


context limited_handler
begin

lemma rl_track_inv:
  assumes "rl_inv limitsFn h st os" and "ok w" and "rl_state h key = Some a"
    and bounded: "\<And>k. rule_bounded (limitsFn k)"
    and tr: "rConnTracker rr = None"
  shows "\<exists>out h' st' w'. rl_track clk key (limitsFn key) a (Some rr) (h, st, w) = (out, h', st', w') \<and> ok w' \<and>
    (out = Ret (Some (rr\<lparr>rConnTracker := Some (RlConnTracker (limitsFn key) a)\<rparr>), None) \<and>
       rl_inv limitsFn h' st' (RlConnTracker (limitsFn key) a # os) \<or>
     (\<exists>e. out = Ret (None, Some e) \<and> rl_inv limitsFn h' st' os))"
proof -
  note k = conjunct2 [OF rl_inv_keyD [OF assms(1,3)]]
  obtain o1 u w' where op: "openConnection clk key (limitsFn key) a (st ! a) w = (Ret o1, u, w')" and "ok w'"
    and o1: "o1 = Inr (RlConnTracker (limitsFn key) a) \<and> key_ok (limitsFn key) u (open_at a os + 1) \<or>
      (\<exists>e. o1 = Inl e \<and> key_ok (limitsFn key) u (open_at a os))"
    using openConnection_ok [where key = key and a = a, OF k assms(2) open_at_nonneg bounded] by metis
  from o1 show ?thesis
  proof (elim disjE exE conjE)
    assume o: "o1 = Inr (RlConnTracker (limitsFn key) a)" and k': "key_ok (limitsFn key) u (open_at a os + 1)"
    have "rl_inv limitsFn h (st[a := u]) (RlConnTracker (limitsFn key) a # os)"
      using assms(1,3) by (rule rl_inv_update) (auto simp: open_at_Cons k')
    with op o tr \<open>ok w'\<close> show ?thesis
      by (simp add: rl_track_def ChainTrackers_def)
  next
    fix e assume o: "o1 = Inl e" and k': "key_ok (limitsFn key) u (open_at a os)"
    have "rl_inv limitsFn h (st[a := u]) os"
      using assms(1,3) k' by (rule rl_inv_update) simp_all
    with op o \<open>ok w'\<close> show ?thesis
      by (simp add: rl_track_def)
  qed
qed

lemma Resolve_inv:
  assumes "rl_inv limitsFn h st os" and "ok w"
    and bounded: "\<And>k. rule_bounded (limitsFn k)"
  shows "\<exists>out h' st' w'. RateLimiter_Resolve clk keyFn limitsFn inner ctx req (h, st, w) = (out, h', st', w') \<and> ok w' \<and>
    (rl_inv limitsFn h' st' os \<and> (\<forall>r. out = Ret (Some r, None) \<longrightarrow> rConnTracker r = None) \<or>
     (\<exists>r a. out = Ret (Some r, None) \<and> rConnTracker r = Some (RlConnTracker (limitsFn (keyFn ctx)) a) \<and>
        rl_inv limitsFn h' st' (RlConnTracker (limitsFn (keyFn ctx)) a # os)))"
proof (cases "limitsFn (keyFn ctx) = []")
  case True
  obtain r st1 w1 where n: "inner ctx req (st, w) = (r, st1, w1)"
    by (metis prod_cases3)
  with inner_frame [OF assms(2) n] inner_tracker [OF assms(2)] True assms(1) show ?thesis
    by (auto simp: RateLimiter_Resolve_def)
next
  case False
  define key where "key = keyFn ctx"
  obtain a h1 st1 w1 where gs: "getState clk key (limitsFn key) (h, st, w) = (a, h1, st1, w1)"
    by (metis prod_cases4)
  from getState_inv [OF assms(1,2) _ this] False
  have inv1: "rl_inv limitsFn h1 st1 os" "ok w1" and a: "rl_state h1 key = Some a"
    by (simp_all add: key_def)
  obtain e u w2 where chk: "checkWindowedLimits clk (limitsFn key) (st1 ! a) w1 = (Ret e, u, w2)"
    and u: "key_ok (limitsFn key) u (open_at a os)" "ok w2"
    using checkWindowedLimits_ok [OF _ inv1(2)] rl_inv_keyD [OF inv1(1) a] by blast
  have inv2: "rl_inv limitsFn h1 (st1[a := u]) os"
    using inv1(1) a u(1) by (rule rl_inv_update) simp_all
  obtain r st3 w3 where n: "inner ctx req (st1[a := u], w2) = (r, st3, w3)"
    by (metis prod_cases3)
  have st3: "st3 = st1[a := u]" and w3: "ok w3"
    using inner_frame [OF u(2) n] by simp_all
  have tr: "rConnTracker rr = None" if "r = Ret (Some rr, err)" for rr err
    using inner_tracker [OF u(2)] n that by blast
  have eq: "RateLimiter_Resolve clk keyFn limitsFn inner ctx req (h, st, w) =
      (case e of Some err \<Rightarrow> (Ret (None, Some err), (h1, st1[a := u], w2))
       | None \<Rightarrow> (case r of Panicked p \<Rightarrow> (Panicked p, (h1, st3, w3))
                | Ret (result, err) \<Rightarrow> if no_proxy result err then (Ret (result, err), (h1, st3, w3))
                                    else rl_track clk key (limitsFn key) a result (h1, st3, w3)))"
    using False gs chk n by (cases e) (simp_all add: RateLimiter_Resolve_def key_def Let_def split: outcome.split)
  show ?thesis
  proof (cases "e = None \<and> (\<exists>rr. r = Ret (Some rr, None) \<and> rProxy rr \<noteq> None)")
    case False
    then show ?thesis
      unfolding eq using inv2 st3 w3 u(2) tr
      by (auto simp: no_proxy_def split: option.splits outcome.splits)
  next
    case True
    then obtain rr where rr: "e = None" "r = Ret (Some rr, None)" "rProxy rr \<noteq> None" by blast
    from rl_track_inv [OF inv2 w3 a bounded tr [OF rr(2)]] rr show ?thesis
      unfolding eq by (fastforce simp: key_def st3)
  qed
qed

end


lemma limits_bounded_inv:
  assumes "limited_handler clk ok inner" and "ok w0"
    and bounded: "\<And>k. rule_bounded (limitsFn k)"
    and "rl_reach clk keyFn limitsFn inner w0 s os"
  shows "case s of (h, st, w) \<Rightarrow> rl_inv limitsFn h st os \<and> ok w"
  using assms(4)
proof (induction rule: rl_reach.induct)
  case start
  then show ?case
    using assms(2) by (simp add: rl_inv_def newRateLimiter_def)
next
  case (resolve_open s os ctx req res s' t)
  with limited_handler.Resolve_inv [where os = os and limitsFn = limitsFn and h = "fst s" and st = "fst (snd s)" and w = "snd (snd s)" and keyFn = keyFn
      and ctx = ctx and req = req, OF assms(1) _ _ bounded]
  show ?case by (auto simp: case_prod_beta)
next
  case (resolve_untracked s os ctx req out s')
  with limited_handler.Resolve_inv [where os = os and limitsFn = limitsFn and h = "fst s" and st = "fst (snd s)" and w = "snd (snd s)" and keyFn = keyFn
      and ctx = ctx and req = req, OF assms(1) _ _ bounded]
  show ?case by (fastforce simp: case_prod_beta)
next
  case (traffic h st w os t upstream delta r st' w')
  then obtain k a where t: "t = RlConnTracker (limitsFn k) a" "rl_state h k = Some a"
      "key_ok (limitsFn k) (st ! a) (open_at a os)" and inv: "rl_inv limitsFn h st os" "ok w"
    by (auto elim: rl_inv_trackerD)
  with clock_source.rl_RecordTraffic_ok [OF limited_handler.axioms(1) [OF assms(1)] t(3) inv(2), of upstream delta] traffic
  obtain u where "key_ok (limitsFn k) u (open_at a os)" "st' = st[a := u]" "ok w'"
    by auto
  then show ?case
    using rl_inv_update [OF inv(1) t(2), of u os] by simp
next
  case (close h st w os t)
  then obtain k a where t: "t = RlConnTracker (limitsFn k) a" "rl_state h k = Some a"
      "key_ok (limitsFn k) (st ! a) (open_at a os)" and inv: "rl_inv limitsFn h st os" "ok w"
    by (auto elim: rl_inv_trackerD)
  have rem: "open_at b (remove1 t os) = open_at b os - of_bool (b = a)" for b
    using close(2) open_at_remove1 [of "limitsFn k" a os b] by (auto simp: t(1))
  have "0 < open_at a os"
    using rem [of a] open_at_nonneg [of a "remove1 t os"] by simp
  then have "key_ok (limitsFn k) (rl_Close (st ! a)) (open_at a (remove1 t os))"
    using rl_Close_ok [OF t(3) _ bounded] by (simp add: rem)
  then have "rl_inv limitsFn h (st[a := rl_Close (st ! a)]) (remove1 t os)"
    using rl_inv_update [OF inv(1) t(2)] notin_set_remove1 by (fastforce simp: rem)
  then show ?case
    using inv(2) by (simp add: t(1))
qed

text \<open>
  C3: The concurrent-connection limit is enforced. In every state a limiter can reach, for every
  key whose rules contain exactly one concurrent rule, the counter equals the number of open
  connections of the key and never exceeds the rule's maximum: whatever the other rules,
  rejections by total-connection rules, failures of the inner handler, traffic and the order of
  opening and closing.
\<close>
theorem concurrent_limit_enforced:
  assumes "limited_handler clk ok inner" and "ok w0"
    and "\<And>k. rule_bounded (limitsFn k)"
    and "rl_reach clk keyFn limitsFn inner w0 (h, st, w) os"
    and "rl_state h key = Some a" and "filter is_concurrent (limitsFn key) = [rl]" and "0 \<le> rlMax rl"
  shows "us_concurrent (st ! a) = open_at a os \<and> open_at a os \<le> rlMax rl"
proof -
  have "rl_inv limitsFn h st os"
    using limits_bounded_inv [OF assms(1,2) assms(3) assms(4)] by simp
  with rl_inv_keyD [OF _ assms(5)] assms(6,7) show ?thesis
    by (fastforce simp: key_ok_def)
qed

section \<open>A limiter in front of a static file source\<close>

definition source_clock :: "('s \<times> world) clock" where
  "source_clock = (\<lambda>(s, w). let (t, w') = time_Now w in (t, (s, w')))"

lemma CheapRandom_w_clock: "w_clock (snd (CheapRandom w)) = w_clock w"
  by (simp add: CheapRandom_def Let_def time_Now_def case_prod_beta)

lemma StaticFile_w_clock: "w_clock (snd (snd (StaticFileSource_Resolve ctx req (s, w)))) = w_clock w"
  using CheapRandom_w_clock [of w]
  by (simp add: StaticFileSource_Resolve_def Pool_NextWithSeed_def Let_def case_prod_beta split: option.split)

interpretation limited_static: limited_handler source_clock "\<lambda>(s, w). after_epoch w" "below_store StaticFileSource_Resolve"
proof (unfold_locales, goal_cases)
  case (1 w)
  then show ?case
    using world_clock.clk_ok [of "snd w"] by (simp add: source_clock_def case_prod_beta Let_def)
next
  case (2 w ctx req st r st' w')
  then show ?case
    using StaticFile_w_clock [of ctx req "fst w" "snd w"] by (auto simp: below_store_def Let_def case_prod_beta after_epoch_def)
next
  case (3 w ctx req st res err sw')
  then show ?case
    by (auto simp: below_store_def StaticFileSource_Resolve_def Let_def case_prod_beta split: option.splits)
qed


definition demo_source :: StaticFileSource where
  "demo_source = \<lparr>sf_pool = NewCountingPool [mkProxy ''h1'' 80 '''' ''''], sf_pathDisplay = ''p.txt''\<rparr>"

theorem concurrent_limit_enforced_witness:
  "\<exists>h st w t. rl_reach source_clock Identity (StaticLimits [concurrent_rule 2]) (below_store StaticFileSource_Resolve)
      (demo_source, world0) (h, st, w) [t] \<and> rl_state h ''alice'' = Some 0 \<and> us_concurrent (st ! 0) = open_at 0 [t] \<and>
    open_at 0 [t] \<le> 2"
proof -
  let ?ls = "[concurrent_rule 2]" and ?inner = "below_store StaticFileSource_Resolve"
  let ?res = "RateLimiter_Resolve source_clock Identity (StaticLimits ?ls) ?inner
    (WithIdentity background ''alice'') emptyRequest (newRateLimiter, [], demo_source, world0)"
  have "case fst ?res of Ret (Some r, None) \<Rightarrow> rConnTracker r = Some (RlConnTracker ?ls 0) | _ \<Rightarrow> False"
    by code_simp
  then obtain r where r: "fst ?res = Ret (Some r, None)" and t: "rConnTracker r = Some (RlConnTracker ?ls 0)"
    by (auto split: outcome.splits option.splits)
  obtain h st w where res: "?res = (Ret (Some r, None), (h, st, w))"
    using r by (metis prod_cases3 prod.collapse)
  have "rl_state (fst (snd ?res)) ''alice'' = Some 0"
    by code_simp
  then have a: "rl_state h ''alice'' = Some 0"
    by (simp add: res)
  have reach: "rl_reach source_clock Identity (StaticLimits ?ls) ?inner (demo_source, world0) (h, st, w) [RlConnTracker ?ls 0]"
    by (rule rl_reach.resolve_open [OF rl_reach.start res t])
  have f: "filter is_concurrent (StaticLimits ?ls k) = [concurrent_rule 2]" for k
    by (simp add: StaticLimits_def)
  have "us_concurrent (st ! 0) = open_at 0 [RlConnTracker ?ls 0] \<and> open_at 0 [RlConnTracker ?ls 0] \<le> rlMax (concurrent_rule 2)"
    by (rule concurrent_limit_enforced [OF limited_static.limited_handler_axioms _ _ reach a f])
      (simp_all add: after_epoch_def world0_def rule_bounded_def f, simp_all add: concurrent_rule_def)
  moreover have "rlMax (concurrent_rule 2) = 2"
    by (simp add: concurrent_rule_def)
  ultimately show ?thesis
    using reach a by metis
qed

section \<open>Traffic against a byte limit\<close>

fun traffic_run :: "'w clock \<Rightarrow> RateLimitRule list \<Rightarrow> bool \<Rightarrow> int list \<Rightarrow> userState \<Rightarrow> 'w \<Rightarrow> bool outcome list" where
  "traffic_run clk limits upstream [] u w = []"
| "traffic_run clk limits upstream (d # ds) u w =
     (let (r, u', w') = rl_RecordTraffic clk limits upstream d u w in r # traffic_run clk limits upstream ds u' w')"

text \<open>The specification: cancel from the moment the running total reaches the maximum.\<close>

fun cancels_at :: "int \<Rightarrow> int \<Rightarrow> int list \<Rightarrow> bool outcome list" where
  "cancels_at m tot [] = []"
| "cancels_at m tot (d # ds) = Ret (m \<le> tot + d) # cancels_at m (tot + d) ds"

lemma tw_Add_inside: "now - tw_start t < tw_size t \<Longrightarrow> in_int64 (tw_total t + d) \<Longrightarrow> tw_Add t d now = t\<lparr>tw_total := tw_total t + d\<rparr>"
  by (simp add: tw_Add_def tw_roll_def wrap64_id)


lemma rl_RecordTraffic_single:
  assumes "clock_source clk ok" and "ok w" and "us_counters u = [Some c]" and "rc_inv c" and "traffic_applies upstream (rlType rl)"
    and "fst (clk w) - tw_start (rc_abs c) < tw_size (rc_abs c)" and "in_int64 (rc_sum c + d)"
  shows "\<exists>c' w'. rl_RecordTraffic clk [rl] upstream d u w = (Ret (rlMax rl \<le> rc_sum c + d), u\<lparr>us_counters := [Some c']\<rparr>, w') \<and>
    rc_inv c' \<and> ok w' \<and> rc_sum c' = rc_sum c + d \<and> tw_start (rc_abs c') = tw_start (rc_abs c) \<and> tw_size (rc_abs c') = tw_size (rc_abs c)"
proof -
  let ?w1 = "snd (clk w)" and ?w2 = "snd (clk (snd (clk w)))"
  have clk: "0 \<le> fst (clk ?w1)" "ok ?w2"
    using clock_source.clk_ok [OF assms(1)] assms(2) by blast+
  have "tw_Add (rc_abs c) d (fst (clk w)) = (rc_abs c)\<lparr>tw_total := rc_sum c + d\<rparr>"
    using tw_Add_inside [of "fst (clk w)" "rc_abs c" d] assms(6,7) by (simp add: rc_abs_def)
  with rc_Add_correct [OF assms(4) clk(1), of d "fst (clk w)"] obtain c' where
    add: "rc_Add c d (fst (clk w)) (fst (clk ?w1)) = (Ret (rc_sum c + d), c')" and c': "rc_inv c'"
    and abs: "rc_abs c' = (rc_abs c)\<lparr>tw_total := rc_sum c + d\<rparr>"
    by auto
  have "add_op clk d c w = (Ret (rc_sum c + d), c', ?w2)"
    by (simp add: add_op_def case_prod_beta Let_def add)
  then have "rl_RecordTraffic clk [rl] upstream d u w = (Ret (rlMax rl \<le> rc_sum c + d), u\<lparr>us_counters := [Some c']\<rparr>, ?w2)"
    using assms(3,5) by (simp add: rl_RecordTraffic_def Let_def)
  moreover have "rc_sum c' = rc_sum c + d"
    using arg_cong [OF abs, of tw_total] by (simp add: rc_abs_def)
  ultimately show ?thesis
    using c' clk(2) abs by (intro exI [of _ c'] exI [of _ ?w2]) simp
qed

text \<open>
  C36: A byte limit cuts connections exactly when it is used up. With one byte rule, while the
  clock stays inside the counter's window, the calls of \<^verbatim>\<open>RecordTraffic\<close> for the rule's direction
  cancel the connection from the very call that brings the accumulated bytes to the maximum,
  and no earlier one does.
\<close>
theorem RecordTraffic_cancels_at_limit:
  assumes "clock_source clk ok" and "ok w" and "us_counters u = [Some c]" and "rc_inv c"
    and "traffic_applies upstream (rlType rl)"
    and "\<And>w. ok w \<Longrightarrow> fst (clk w) - tw_start (rc_abs c) < tw_size (rc_abs c)"
    and "0 \<le> rc_sum c" and "\<forall>d \<in> set ds. 0 \<le> d" and "rc_sum c + sum_list ds < 2 ^ 63"
  shows "traffic_run clk [rl] upstream ds u w = cancels_at (rlMax rl) (rc_sum c) ds"
  using assms(2-4,6-9)
proof (induction ds arbitrary: u w c)
  case (Cons d ds)
  have nonneg: "0 \<le> d" "0 \<le> sum_list ds"
    using Cons.prems(6) by (auto intro: sum_list_nonneg)
  have "in_int64 (rc_sum c + d)"
    using Cons.prems(5,7) nonneg by (simp add: in_int64_def)
  from rl_RecordTraffic_single [OF assms(1) Cons.prems(1-3) assms(5) Cons.prems(4) [OF Cons.prems(1)] this]
  obtain c' w' where step: "rl_RecordTraffic clk [rl] upstream d u w =
        (Ret (rlMax rl \<le> rc_sum c + d), u\<lparr>us_counters := [Some c']\<rparr>, w')"
    and c': "rc_inv c'" "ok w'" "rc_sum c' = rc_sum c + d" "tw_start (rc_abs c') = tw_start (rc_abs c)"
      "tw_size (rc_abs c') = tw_size (rc_abs c)"
    by blast
  have "traffic_run clk [rl] upstream ds (u\<lparr>us_counters := [Some c']\<rparr>) w' = cancels_at (rlMax rl) (rc_sum c') ds"
    by (rule Cons.IH [OF c'(2) _ c'(1)]) (use Cons.prems nonneg c' in auto)
  then show ?case
    using step c'(3) by simp
qed simp

theorem RecordTraffic_cancels_at_limit_witness:
  "traffic_run (\<lambda>w. (1000, w)) [\<lparr>rlType = LimitUploadBytes, rlTimeframe = Hourly, rlWindow = 1, rlMax = 100\<rparr>] True [80, 30]
     \<lparr>us_concurrent = 0, us_counters = [Some (newRollingCounter 3600000000000 1000)]\<rparr> (0::nat) = [Ret False, Ret True]"
proof -
  let ?rl = "\<lparr>rlType = LimitUploadBytes, rlTimeframe = Hourly, rlWindow = 1, rlMax = 100\<rparr>"
  let ?c = "newRollingCounter 3600000000000 1000"
  have abs: "rc_abs ?c = \<lparr>tw_start = 1000, tw_total = 0, tw_size = 60 * max nsMillisecond (3600000000000 sdiv 60)\<rparr>"
    by (rule newRollingCounter_abs) (simp add: in_int64_def)
  have size: "0 < 60 * max nsMillisecond (3600000000000 sdiv 60)"
    by (simp add: nsMillisecond_def)
  have zero: "rc_sum ?c = 0"
    using arg_cong [OF abs, of tw_total] by (simp add: rc_abs_def)
  have "traffic_run (\<lambda>w. (1000, w)) [?rl] True [80, 30] \<lparr>us_concurrent = 0, us_counters = [Some ?c]\<rparr> (0::nat) =
      cancels_at (rlMax ?rl) (rc_sum ?c) [80, 30]"
    by (rule RecordTraffic_cancels_at_limit [where ok = "\<lambda>w. True"])
      (use size in \<open>auto simp: abs zero newRollingCounter_inv fixed_clock\<close>)
  then show ?thesis
    by (simp add: zero)
qed

section \<open>Interleaved connections\<close>

text \<open>
  Connections open and close concurrently. Of \<^verbatim>\<open>openConnection\<close> with one concurrent rule and of
  \<^verbatim>\<open>Close\<close>, only the operations on the atomic \<^verbatim>\<open>concurrent\<close> touch shared state, so an interleaving
  is a sequence of these operations. The state has the counter and the number of goroutines at
  each point: told to reject and about to undo its increment, admitted and not yet returned (a
  total rule may still reject it), open, in \<^verbatim>\<open>Close\<close> before the load, and in \<^verbatim>\<open>Close\<close> after a
  positive load. The number of goroutines stays far below \<open>2 ^ 63\<close>, so the counter does not wrap.
\<close>

record conc_state =
  cs_concurrent :: int
  cs_rejecting :: nat
  cs_admitted :: nat
  cs_open :: nat
  cs_closing :: nat
  cs_decrementing :: nat

definition conc_init :: conc_state where
  "conc_init = \<lparr>cs_concurrent = 0, cs_rejecting = 0, cs_admitted = 0, cs_open = 0, cs_closing = 0, cs_decrementing = 0\<rparr>"

inductive conc_step :: "int \<Rightarrow> conc_state \<Rightarrow> conc_state \<Rightarrow> bool" for m where
  add_over: "m < cs_concurrent s + 1 \<Longrightarrow>
    conc_step m s (s\<lparr>cs_concurrent := cs_concurrent s + 1, cs_rejecting := cs_rejecting s + 1\<rparr>)"
| add_ok: "\<not> m < cs_concurrent s + 1 \<Longrightarrow>
    conc_step m s (s\<lparr>cs_concurrent := cs_concurrent s + 1, cs_admitted := cs_admitted s + 1\<rparr>)"
| undo: "0 < cs_rejecting s \<Longrightarrow>
    conc_step m s (s\<lparr>cs_concurrent := cs_concurrent s - 1, cs_rejecting := cs_rejecting s - 1\<rparr>)"
| total_ok: "0 < cs_admitted s \<Longrightarrow> conc_step m s (s\<lparr>cs_admitted := cs_admitted s - 1, cs_open := cs_open s + 1\<rparr>)"
| total_over: "0 < cs_admitted s \<Longrightarrow>
    conc_step m s (s\<lparr>cs_admitted := cs_admitted s - 1, cs_rejecting := cs_rejecting s + 1\<rparr>)"
| start_close: "0 < cs_open s \<Longrightarrow> conc_step m s (s\<lparr>cs_open := cs_open s - 1, cs_closing := cs_closing s + 1\<rparr>)"
| load_positive: "0 < cs_closing s \<Longrightarrow> 0 < cs_concurrent s \<Longrightarrow>
    conc_step m s (s\<lparr>cs_closing := cs_closing s - 1, cs_decrementing := cs_decrementing s + 1\<rparr>)"
| load_zero: "0 < cs_closing s \<Longrightarrow> \<not> 0 < cs_concurrent s \<Longrightarrow> conc_step m s (s\<lparr>cs_closing := cs_closing s - 1\<rparr>)"
| decrement: "0 < cs_decrementing s \<Longrightarrow>
    conc_step m s (s\<lparr>cs_concurrent := cs_concurrent s - 1, cs_decrementing := cs_decrementing s - 1\<rparr>)"

definition conc_inv :: "int \<Rightarrow> conc_state \<Rightarrow> bool" where
  "conc_inv m s \<longleftrightarrow>
     cs_concurrent s = int (cs_rejecting s + cs_admitted s + cs_open s + cs_closing s + cs_decrementing s) \<and>
     int (cs_admitted s + cs_open s) \<le> m"

lemma conc_step_inv: "conc_step m s s' \<Longrightarrow> conc_inv m s \<Longrightarrow> conc_inv m s'"
  by (induction rule: conc_step.induct) (auto simp: conc_inv_def of_nat_diff)

text \<open>
  C23: Under every interleaving of concurrent opens and closes, the atomic counter equals the
  number of goroutines between their increment and their decrement, the open connections never
  exceed the maximum, and when nothing is in flight the counter is exactly the number of open
  connections: no update is lost and no phantom is left.
\<close>
theorem concurrent_counter_interleaving:
  assumes "(conc_step m)\<^sup>*\<^sup>* conc_init s" and "0 \<le> m"
  shows "int (cs_open s) \<le> m \<and>
    cs_concurrent s = int (cs_rejecting s + cs_admitted s + cs_open s + cs_closing s + cs_decrementing s)"
proof -
  have "conc_inv m s"
    using assms(1)
  proof (induction rule: rtranclp_induct)
    case base
    then show ?case using assms(2) by (simp add: conc_inv_def conc_init_def)
  next
    case (step y z)
    then show ?case by (blast intro: conc_step_inv)
  qed
  then show ?thesis by (simp add: conc_inv_def)
qed

theorem concurrent_counter_interleaving_witness:
  "\<exists>s. (conc_step 1)\<^sup>*\<^sup>* conc_init s \<and> cs_rejecting s = 1 \<and> cs_admitted s = 1 \<and> int (cs_open s) \<le> 1 \<and>
    cs_concurrent s = int (cs_rejecting s + cs_admitted s + cs_open s + cs_closing s + cs_decrementing s)"
proof -
  let ?s1 = "conc_init\<lparr>cs_concurrent := 1, cs_admitted := 1\<rparr>"
  let ?s2 = "?s1\<lparr>cs_concurrent := 2, cs_rejecting := 1\<rparr>"
  have "conc_step 1 conc_init ?s1"
    using conc_step.add_ok [of 1 conc_init] by (simp add: conc_init_def)
  moreover have "conc_step 1 ?s1 ?s2"
    using conc_step.add_over [of 1 ?s1] by (simp add: conc_init_def)
  ultimately have r: "(conc_step 1)\<^sup>*\<^sup>* conc_init ?s2"
    by (meson rtranclp.rtrancl_into_rtrancl rtranclp.rtrancl_refl)
  from concurrent_counter_interleaving [OF r] r show ?thesis
    by (intro exI [of _ ?s2]) (simp add: conc_init_def)
qed

end
