(* ===== verification/SessionManager.thy ===== *)
theory SessionManager
  imports RateLimit
begin

text \<open>
  \<^verbatim>\<open>proxy-kit/utils/session_manager.go\<close>: sticky sessions. \<^verbatim>\<open>Resolve\<close> and \<^verbatim>\<open>ForceRotate\<close> are built from
  their critical sections (the code between lock and unlock), so that the sequential
  operations and the interleavings of concurrent calls use the same definitions. Times are
  nanoseconds; every \<^verbatim>\<open>time.Now()\<close> of the source is one reading of \<open>clk\<close>.
\<close>

section \<open>State\<close>

record sessionEntry =
  se_id :: u64
  se_label :: string
  se_proxy :: Proxy
  se_seed :: "SessionSeed option"
  se_rotation :: u64
  se_resolveCtx :: Context
  se_startedAt :: int
  se_expiresAt :: int
  se_lastRotationAt :: int
  se_duration :: int

record SessionManager =
  sm_entries :: "u64 \<rightharpoonup> sessionEntry"
  sm_nextID :: u64

record SessionInfo =
  si_ID :: u64
  si_Label :: string
  si_TopLevelSeed :: u64
  si_Upstream :: string
  si_Seed :: u64
  si_Rotation :: u64
  si_CreatedAt :: int
  si_ExpiresAt :: int
  si_LastRotationAt :: int

definition NewSessionManager :: SessionManager where
  "NewSessionManager = \<lparr>sm_entries = Map.empty, sm_nextID = 0\<rparr>"

definition sessionInfoFrom :: "u64 \<Rightarrow> sessionEntry \<Rightarrow> SessionInfo" where
  "sessionInfoFrom topLevelSeed e =
     \<lparr>si_ID = se_id e, si_Label = se_label e, si_TopLevelSeed = topLevelSeed,
      si_Upstream = pHost (se_proxy e) @ '':'' @ itoa (unat (pPort (se_proxy e))),
      si_Seed = (case se_seed e of None \<Rightarrow> 0 | Some s \<Rightarrow> seed_value s),
      si_Rotation = se_rotation e, si_CreatedAt = se_startedAt e, si_ExpiresAt = se_expiresAt e,
      si_LastRotationAt = se_lastRotationAt e\<rparr>"

section \<open>Critical sections\<close>

text \<open>\<^verbatim>\<open>e, ok := m.entries[tls]; ok && time.Now().Before(e.expiresAt)\<close>: the clock is read only on a hit.\<close>

definition live_entry :: "'w clock \<Rightarrow> SessionManager \<Rightarrow> u64 \<Rightarrow> 'w \<Rightarrow> sessionEntry option \<times> 'w" where
  "live_entry clk m tls w =
     (case sm_entries m tls of
        None \<Rightarrow> (None, w)
      | Some e \<Rightarrow> let (now, w') = clk w in (if now < se_expiresAt e then Some e else None, w'))"

definition new_entry :: "u64 \<Rightarrow> Context \<Rightarrow> Proxy \<Rightarrow> u64 \<Rightarrow> int \<Rightarrow> int \<Rightarrow> sessionEntry" where
  "new_entry tls ctx p i ttl now =
     \<lparr>se_id = i, se_label = GetSessionLabel ctx, se_proxy = p, se_seed = Some (NewSessionSeed tls 0),
      se_rotation = 0, se_resolveCtx = ctx, se_startedAt = now, se_expiresAt = now + ttl,
      se_lastRotationAt = now, se_duration = ttl\<rparr>"

definition alloc_id :: "SessionManager \<Rightarrow> u64 \<times> SessionManager" where
  "alloc_id m = (sm_nextID m, m\<lparr>sm_nextID := sm_nextID m + 1\<rparr>)"

text \<open>The write-locked part of \<^verbatim>\<open>Resolve\<close>: an entry stored meanwhile wins if it is live.\<close>

definition sm_store :: "'w clock \<Rightarrow> u64 \<Rightarrow> sessionEntry \<Rightarrow> SessionManager \<times> 'w \<Rightarrow> Proxy option \<times> SessionManager \<times> 'w" where
  "sm_store clk tls ne mw =
     (let (m, w) = mw; (existing, w') = live_entry clk m tls w in
      case existing of
        Some e \<Rightarrow> (Some (se_proxy e), m, w')
      | None \<Rightarrow> (None, m\<lparr>sm_entries := (sm_entries m)(tls \<mapsto> ne)\<rparr>, w'))"

section \<open>Resolve\<close>

definition SessionManager_Resolve :: "'w clock \<Rightarrow> 'w handler \<Rightarrow> (SessionManager \<times> 'w) handler" where
  "SessionManager_Resolve clk next ctx req mw =
     (let (m, w) = mw; tls = GetTopLevelSeed ctx; ttl = GetSeedTTL ctx in
      if ttl \<le> 0 \<or> tls = 0 then let (r, w') = next ctx req w in (r, (m, w'))
      else let (hit, w1) = live_entry clk m tls w in
        case hit of
          Some e \<Rightarrow> (Ret (Some (Resolved (se_proxy e)), None), (m, w1))
        | None \<Rightarrow>
            (let seed = NewSessionSeed tls 0;
                 ctx' = WithSessionSeed ctx (Some seed);
                 (r, w2) = next ctx' req w1
             in case r of
                  Panicked p \<Rightarrow> (Panicked p, (m, w2))
                | Ret (result, err) \<Rightarrow>
                    if no_proxy result err then (Ret (result, err), (m, w2))
                    else let (now, w3) = clk w2;
                             (i, m1) = alloc_id m;
                             ne = new_entry tls ctx' (the (rProxy (the result))) i ttl now;
                             (existing, m2, w4) = sm_store clk tls ne (m1, w3)
                         in case existing of
                              Some p \<Rightarrow> (Ret (Some (Resolved p), None), (m2, w4))
                            | None \<Rightarrow> (Ret (result, None), (m2, w4))))"

section \<open>Forced rotation\<close>

text \<open>The read-locked snapshot: the next rotation number, the stored context, the duration.\<close>

definition fr_snapshot :: "'w clock \<Rightarrow> SessionManager \<Rightarrow> u64 \<Rightarrow> 'w \<Rightarrow> (u64 \<times> Context \<times> int) option \<times> 'w" where
  "fr_snapshot clk m tls w =
     (let (e, w') = live_entry clk m tls w
      in (map_option (\<lambda>e. (se_rotation e + 1, se_resolveCtx e, se_duration e)) e, w'))"

definition fr_commit :: "u64 \<Rightarrow> Proxy \<Rightarrow> u64 \<Rightarrow> int \<Rightarrow> int \<Rightarrow> SessionManager \<Rightarrow> SessionInfo option \<times> SessionManager" where
  "fr_commit tls p nextRotation duration now m =
     (case sm_entries m tls of
        None \<Rightarrow> (None, m)
      | Some e \<Rightarrow>
          let e' = e\<lparr>se_proxy := p, se_seed := Some (NewSessionSeed tls nextRotation), se_rotation := nextRotation,
                     se_lastRotationAt := now, se_expiresAt := now + duration\<rparr>
          in (Some (sessionInfoFrom tls e'), m\<lparr>sm_entries := (sm_entries m)(tls \<mapsto> e')\<rparr>))"

definition ForceRotate :: "'w clock \<Rightarrow> 'w handler \<Rightarrow> u64 \<Rightarrow> SessionManager \<times> 'w \<Rightarrow>
    (SessionInfo option \<times> error option) outcome \<times> SessionManager \<times> 'w" where
  "ForceRotate clk next tls mw =
     (let (m, w) = mw; (snapshot, w1) = fr_snapshot clk m tls w in
      case snapshot of
        None \<Rightarrow> (Ret (None, None), m, w1)
      | Some (nextRotation, resolveCtx, duration) \<Rightarrow>
          (let (r, w2) = next (WithSessionSeed resolveCtx (Some (NewSessionSeed tls nextRotation))) emptyRequest w1
           in case r of
                Panicked p \<Rightarrow> (Panicked p, m, w2)
              | Ret (result, err) \<Rightarrow>
                  if no_proxy result err then (Ret (None, err), m, w2)
                  else let (now, w3) = clk w2;
                           (info, m') = fr_commit tls (the (rProxy (the result))) nextRotation duration now m
                       in (Ret (info, None), m', w3)))"

section \<open>Introspection and cleanup\<close>

definition GetSession :: "'w clock \<Rightarrow> SessionManager \<Rightarrow> u64 \<Rightarrow> 'w \<Rightarrow> SessionInfo option \<times> 'w" where
  "GetSession clk m tls w =
     (let (e, w') = live_entry clk m tls w in (map_option (sessionInfoFrom tls) e, w'))"

text \<open>\<open>order\<close> is the order in which the runtime iterates over the map.\<close>

fun list_loop :: "SessionManager \<Rightarrow> int \<Rightarrow> u64 list \<Rightarrow> SessionInfo list" where
  "list_loop m now [] = []"
| "list_loop m now (tls # order) =
     (case sm_entries m tls of
        Some e \<Rightarrow> if now < se_expiresAt e then sessionInfoFrom tls e # list_loop m now order else list_loop m now order
      | None \<Rightarrow> list_loop m now order)"

definition ListEntries :: "'w clock \<Rightarrow> u64 list \<Rightarrow> SessionManager \<Rightarrow> 'w \<Rightarrow> SessionInfo list \<times> 'w" where
  "ListEntries clk order m w = (let (now, w') = clk w in (list_loop m now order, w'))"

text \<open>One tick of \<^verbatim>\<open>runCleanup\<close>.\<close>

definition cleanup :: "int \<Rightarrow> SessionManager \<Rightarrow> SessionManager" where
  "cleanup now m = m\<lparr>sm_entries := (\<lambda>tls. case sm_entries m tls of
     Some e \<Rightarrow> if \<not> now < se_expiresAt e then None else Some e | None \<Rightarrow> None)\<rparr>"

definition cleanup_tick :: "'w clock \<Rightarrow> SessionManager \<times> 'w \<Rightarrow> SessionManager \<times> 'w" where
  "cleanup_tick clk mw = (let (m, w) = mw; (now, w') = clk w in (cleanup now m, w'))"


section \<open>Sessions are sticky\<close>

datatype sm_op = OpResolve Context Request | OpRotate u64 | OpGet u64 | OpList "u64 list" | OpCleanup

fun sm_exec :: "'w clock \<Rightarrow> 'w handler \<Rightarrow> sm_op \<Rightarrow> SessionManager \<times> 'w \<Rightarrow> resolution option \<times> SessionManager \<times> 'w" where
  "sm_exec clk inner (OpResolve ctx req) mw = (case SessionManager_Resolve clk inner ctx req mw of (r, mw') \<Rightarrow> (Some r, mw'))"
| "sm_exec clk inner (OpRotate tls) mw = (None, snd (ForceRotate clk inner tls mw))"
| "sm_exec clk inner (OpGet tls) mw = (None, fst mw, snd (GetSession clk (fst mw) tls (snd mw)))"
| "sm_exec clk inner (OpList order) mw = (None, fst mw, snd (ListEntries clk order (fst mw) (snd mw)))"
| "sm_exec clk inner OpCleanup mw = (None, cleanup_tick clk mw)"

fun sm_run :: "'w clock \<Rightarrow> 'w handler \<Rightarrow> sm_op list \<Rightarrow> SessionManager \<times> 'w \<Rightarrow> resolution option list \<times> SessionManager \<times> 'w" where
  "sm_run clk inner [] mw = ([], mw)"
| "sm_run clk inner (op # ops) mw =
     (let (out, mw1) = sm_exec clk inner op mw; (outs, mw2) = sm_run clk inner ops mw1 in (out # outs, mw2))"

definition resolves_session :: "u64 \<Rightarrow> sm_op \<Rightarrow> bool" where
  "resolves_session tls op \<longleftrightarrow> (\<exists>ctx req. op = OpResolve ctx req \<and> GetTopLevelSeed ctx = tls \<and> 0 < GetSeedTTL ctx)"

lemma live_entry_cases:
  "live_entry clk m tls w = (None, w) \<and> sm_entries m tls = None \<or>
   (\<exists>e. sm_entries m tls = Some e \<and> live_entry clk m tls w = (if fst (clk w) < se_expiresAt e then Some e else None, snd (clk w)))"
  by (auto simp: live_entry_def case_prod_beta Let_def split: option.split)

lemma alloc_id_entries [simp]: "sm_entries (snd (alloc_id m)) = sm_entries m"
  by (simp add: alloc_id_def)

text \<open>
  The environment of a session that does not expire: every reading of the clock in a state
  satisfying \<open>ok\<close> is before the deadline, and the inner handler keeps \<open>ok\<close>.
\<close>

locale before_deadline =
  fixes clk :: "'w clock" and inner :: "'w handler" and ok :: "'w \<Rightarrow> bool" and deadline :: int
  assumes clk_before: "ok w \<Longrightarrow> fst (clk w) < deadline \<and> ok (snd (clk w))"
    and inner_ok: "ok w \<Longrightarrow> ok (snd (inner ctx req w))"
begin

lemma live_entry_ok: "ok w \<Longrightarrow> ok (snd (live_entry clk m tls w))"
  using live_entry_cases [of clk m tls w] clk_before by force

lemma live_entry_kept:
  "ok w \<Longrightarrow> sm_entries m tls = Some e \<Longrightarrow> se_expiresAt e = deadline \<Longrightarrow> live_entry clk m tls w = (Some e, snd (clk w))"
  using clk_before [of w] by (simp add: live_entry_def case_prod_beta Let_def)

lemma sm_store_keeps:
  assumes "ok w" and "sm_entries m tls = Some e" and "se_expiresAt e = deadline"
  shows "ok (snd (snd (sm_store clk k ne (m, w)))) \<and> sm_entries (fst (snd (sm_store clk k ne (m, w)))) tls = Some e"
  using assms live_entry_ok [OF assms(1), of m k] live_entry_kept [OF assms]
  by (auto simp: sm_store_def Let_def case_prod_beta split: option.splits)

lemma Resolve_keeps:
  assumes "ok w" and "sm_entries m tls = Some e" and "se_expiresAt e = deadline"
    and "SessionManager_Resolve clk inner ctx req (m, w) = (r, m', w')"
  shows "ok w' \<and> sm_entries m' tls = Some e"
proof -
  obtain hit w1 where hit: "live_entry clk m (GetTopLevelSeed ctx) w = (hit, w1)" "ok w1"
    using live_entry_ok [OF assms(1)] by (metis prod.collapse)
  let ?ctx = "WithSessionSeed ctx (Some (NewSessionSeed (GetTopLevelSeed ctx) 0))"
  obtain r2 w2 where next_: "inner ?ctx req w1 = (r2, w2)" "ok w2"
    using inner_ok [OF hit(2)] by (metis prod.collapse)
  have store: "ok w'' \<and> sm_entries m'' tls = Some e"
    if "snd (sm_store clk k ne (snd (alloc_id m), snd (clk w2))) = (m'', w'')" for k ne m'' w''
    using sm_store_keeps [of "snd (clk w2)" "snd (alloc_id m)" tls e k ne] that clk_before [OF next_(2)] assms(2,3) by simp
  show ?thesis
  proof (cases "GetSeedTTL ctx \<le> 0 \<or> GetTopLevelSeed ctx = 0")
    case True
    with assms inner_ok [OF assms(1), of ctx req] show ?thesis
      by (auto simp: SessionManager_Resolve_def Let_def case_prod_beta)
  next
    case False
    with assms(2,4) hit next_ show ?thesis
      by (auto simp: SessionManager_Resolve_def Let_def case_prod_beta dest: store split: option.splits outcome.splits if_splits)
  qed
qed

lemma ForceRotate_keeps:
  assumes "ok w" and "k \<noteq> tls" and "ForceRotate clk inner k (m, w) = (r, m', w')"
  shows "ok w' \<and> sm_entries m' tls = sm_entries m tls"
proof -
  obtain hit w1 where hit: "live_entry clk m k w = (hit, w1)" "ok w1"
    using live_entry_ok [OF assms(1)] by (metis prod.collapse)
  have "ok (snd (clk (snd (inner c q w1))))" for c q
    using inner_ok [OF hit(2)] clk_before by blast
  with assms(2,3) hit inner_ok [OF hit(2)] show ?thesis
    by (auto simp: ForceRotate_def fr_snapshot_def fr_commit_def Let_def case_prod_beta
        split: option.splits outcome.splits if_splits)
qed

lemma exec_keeps:
  assumes "ok w" and "sm_entries m tls = Some e" and "se_expiresAt e = deadline" and "op \<noteq> OpRotate tls"
    and "sm_exec clk inner op (m, w) = (out, m', w')"
  shows "ok w' \<and> sm_entries m' tls = Some e"
proof (cases op)
  case (OpResolve ctx req)
  with assms Resolve_keeps [OF assms(1-3), of ctx req] show ?thesis by (auto split: prod.splits)
next
  case (OpRotate k)
  with assms ForceRotate_keeps [OF assms(1), of k tls m] show ?thesis by (auto simp: prod_eq_iff)
next
  case (OpGet k)
  with assms live_entry_ok [OF assms(1), of m k] show ?thesis by (auto simp: GetSession_def Let_def case_prod_beta)
next
  case (OpList order)
  with assms clk_before show ?thesis by (auto simp: ListEntries_def Let_def case_prod_beta)
next
  case OpCleanup
  with assms clk_before [OF assms(1)] show ?thesis
    by (auto simp: cleanup_tick_def cleanup_def Let_def case_prod_beta)
qed

lemma exec_sticky:
  assumes "ok w" and "sm_entries m tls = Some e" and "se_expiresAt e = deadline" and "tls \<noteq> 0"
    and "resolves_session tls op"
  shows "fst (sm_exec clk inner op (m, w)) = Some (Ret (Some (Resolved (se_proxy e)), None))"
  using assms live_entry_kept [OF assms(1-3)]
  by (auto simp: resolves_session_def SessionManager_Resolve_def Let_def split: prod.splits)

lemma run_sticky:
  assumes "ok w" and "sm_entries m tls = Some e" and "se_expiresAt e = deadline" and "tls \<noteq> 0"
    and "OpRotate tls \<notin> set ops" and "sm_run clk inner ops (m, w) = (outs, m', w')"
  shows "sm_entries m' tls = Some e \<and>
    list_all2 (\<lambda>op out. resolves_session tls op \<longrightarrow> out = Some (Ret (Some (Resolved (se_proxy e)), None))) ops outs"
  using assms
proof (induction ops arbitrary: m w outs m' w')
  case (Cons op ops)
  obtain out m1 w1 where ex: "sm_exec clk inner op (m, w) = (out, m1, w1)"
    by (metis prod_cases3)
  obtain outs1 m2 w2 where run: "sm_run clk inner ops (m1, w1) = (outs1, m2, w2)"
    by (metis prod_cases3)
  have "op \<noteq> OpRotate tls"
    using Cons.prems(5) by auto
  from exec_keeps [OF Cons.prems(1-3) this ex] have "ok w1" "sm_entries m1 tls = Some e" by simp_all
  from Cons.IH [OF this Cons.prems(3,4) _ run] Cons.prems exec_sticky [OF Cons.prems(1-4), of op] ex run
  show ?case by auto
qed simp

end

text \<open>A static file source, at a clock whose readings all lie before the deadline.\<close>

interpretation static_before: before_deadline source_clock StaticFileSource_Resolve "\<lambda>(s, w). \<forall>i. w_clock w i < deadline" deadline
  for deadline
proof (unfold_locales, goal_cases)
  case (1 w)
  then show ?case by (auto simp: source_clock_def time_Now_def split: prod.splits)
next
  case (2 w ctx req)
  then show ?case
    using StaticFile_w_clock [of ctx req "fst w" "snd w"] by (simp add: case_prod_beta)
qed

text \<open>
  C1: Sessions are sticky. Once a session exists, every request with its top-level seed and a
  positive TTL gets the session's proxy until the session's deadline, whatever else happens in
  between: requests of any kind (of this or of other sessions, served or failed), rotations of
  other sessions, introspection and cleanup. Only a forced rotation of this session changes it.
\<close>
theorem session_sticky:
  assumes "before_deadline clk inner ok (se_expiresAt e)" and "ok w"
    and "sm_entries m tls = Some e" and "tls \<noteq> 0" and "OpRotate tls \<notin> set ops"
    and "sm_run clk inner ops (m, w) = (outs, m', w')"
  shows "sm_entries m' tls = Some e \<and>
    list_all2 (\<lambda>op out. resolves_session tls op \<longrightarrow> out = Some (Ret (Some (Resolved (se_proxy e)), None))) ops outs"
  by (rule before_deadline.run_sticky [OF assms(1-3) refl assms(4-6)])


definition demo_ctx :: Context where
  "demo_ctx = WithSessionLabel (WithSeedTTL (WithTopLevelSeed background 7) 100) ''alice''"

definition demo_manager :: SessionManager where
  "demo_manager = \<lparr>sm_entries = [7 \<mapsto> new_entry 7 (WithSessionSeed demo_ctx (Some (NewSessionSeed 7 0))) (mkProxy ''up'' 3128 '''' '''') 0 100 10],
     sm_nextID = 1\<rparr>"

lemma demo_ctx_values [simp]: "GetTopLevelSeed demo_ctx = 7" "GetSeedTTL demo_ctx = 100" "GetSessionLabel demo_ctx = ''alice''"
  by (simp_all add: demo_ctx_def ctx_defs)

theorem session_sticky_witness:
  "case sm_run (\<lambda>s. (50, s)) StaticFileSource_Resolve
     [OpResolve demo_ctx emptyRequest, OpCleanup, OpResolve background emptyRequest, OpRotate 9, OpResolve demo_ctx emptyRequest]
     (demo_manager, demo_source, world0) of
   (outs, m', w') \<Rightarrow> length outs = 5 \<and> outs ! 0 = Some (Ret (Some (Resolved (mkProxy ''up'' 3128 '''' '''')), None)) \<and>
     outs ! 4 = Some (Ret (Some (Resolved (mkProxy ''up'' 3128 '''' '''')), None))"
proof -
  let ?ops = "[OpResolve demo_ctx emptyRequest, OpCleanup, OpResolve background emptyRequest, OpRotate 9, OpResolve demo_ctx emptyRequest]"
  let ?e = "new_entry 7 (WithSessionSeed demo_ctx (Some (NewSessionSeed 7 0))) (mkProxy ''up'' 3128 '''' '''') 0 100 10"
  obtain outs m' w' where run: "sm_run (\<lambda>s. (50, s)) StaticFileSource_Resolve ?ops (demo_manager, demo_source, world0) = (outs, m', w')"
    by (metis prod_cases3)
  have "list_all2 (\<lambda>op out. resolves_session 7 op \<longrightarrow> out = Some (Ret (Some (Resolved (se_proxy ?e)), None))) ?ops outs"
    by (rule conjunct2 [OF session_sticky [where ok = "\<lambda>s. True", OF _ _ _ _ _ run]])
      (simp_all add: before_deadline_def new_entry_def demo_manager_def)
  then have "length outs = 5" "\<forall>i < 5. resolves_session 7 (?ops ! i) \<longrightarrow> outs ! i = Some (Ret (Some (Resolved (se_proxy ?e)), None))"
    by (simp_all add: list_all2_conv_all_nth)
  moreover have "resolves_session 7 (?ops ! 0)" "resolves_session 7 (?ops ! 4)" "se_proxy ?e = mkProxy ''up'' 3128 '''' ''''"
    by (simp_all add: resolves_session_def new_entry_def)
  ultimately show ?thesis
    unfolding run prod.case by simp
qed

section \<open>Forced rotation\<close>

lemma rotation_bump_low:
  fixes r :: u64
  assumes "uint r mod 65536 \<noteq> 65535"
  shows "drop_bit 16 (r + 1) = drop_bit 16 r"
proof (rule word_uint_eqI)
  have "uint r < 2 ^ 64" "0 \<le> uint r"
    using uint_bounded [of r] by simp_all
  then have "uint r + 1 < 2 ^ 64"
    using assms by (cases "uint r = 2 ^ 64 - 1") simp_all
  then have "uint (r + 1) = uint r + 1"
    by (simp add: uint_word_ariths)
  moreover have "(uint r + 1) div 65536 = uint r div 65536"
  proof (rule int_div_pos_eq)
    show "uint r + 1 = 65536 * (uint r div 65536) + (uint r mod 65536 + 1)" by simp
    show "uint r mod 65536 + 1 < 65536"
      using assms pos_mod_bound [of 65536 "uint r"] by linarith
  qed simp
  ultimately show "uint (drop_bit 16 (r + 1)) = uint (drop_bit 16 r)"
    by (simp add: drop_bit_eq_div uint_div)
qed

text \<open>
  C18: A forced rotation of a live session, when the inner handler resolves, keeps the session's id,
  label, creation time, duration and stored context, stores the newly resolved proxy, bumps the
  rotation counter by one, and restarts the deadline at the time of rotation. The seed handed to
  the inner handler (and stored) is the one derived from the bumped counter, and it differs from
  the session's previous seed unless the counter crosses a multiple of 65536.
\<close>
theorem ForceRotate_rotates:
  assumes "sm_entries m tls = Some e" and "fst (clk w) < se_expiresAt e"
    and "se_seed e = Some (NewSessionSeed tls (se_rotation e))"
    and "inner (WithSessionSeed (se_resolveCtx e) (Some (NewSessionSeed tls (se_rotation e + 1)))) emptyRequest (snd (clk w)) =
      (Ret (Some r, None), w2)" and "rProxy r = Some p"
  shows "\<exists>e'. ForceRotate clk inner tls (m, w) = (Ret (Some (sessionInfoFrom tls e'), None), m\<lparr>sm_entries := (sm_entries m)(tls \<mapsto> e')\<rparr>, snd (clk w2)) \<and>
    se_id e' = se_id e \<and> se_label e' = se_label e \<and> se_startedAt e' = se_startedAt e \<and> se_duration e' = se_duration e \<and>
    se_resolveCtx e' = se_resolveCtx e \<and> se_proxy e' = p \<and> se_rotation e' = se_rotation e + 1 \<and>
    se_lastRotationAt e' = fst (clk w2) \<and> se_expiresAt e' = fst (clk w2) + se_duration e \<and>
    se_seed e' = Some (NewSessionSeed tls (se_rotation e + 1)) \<and>
    (uint (se_rotation e) mod 65536 \<noteq> 65535 \<longrightarrow> se_seed e' \<noteq> se_seed e)"
proof -
  have "NewSessionSeed tls (se_rotation e + 1) \<noteq> NewSessionSeed tls (se_rotation e)" if "uint (se_rotation e) mod 65536 \<noteq> 65535"
    using rotation_bump_low [OF that] by (intro NewSessionSeed_low_distinct) simp_all
  with assms show ?thesis
    by (intro exI [of _ "e\<lparr>se_proxy := p, se_seed := Some (NewSessionSeed tls (se_rotation e + 1)), se_rotation := se_rotation e + 1,
        se_lastRotationAt := fst (clk w2), se_expiresAt := fst (clk w2) + se_duration e\<rparr>"])
      (simp add: ForceRotate_def fr_snapshot_def live_entry_def fr_commit_def Let_def case_prod_beta)
qed

theorem ForceRotate_rotates_witness:
  "\<exists>e'. ForceRotate (\<lambda>s. (50, s)) (\<lambda>ctx req s. (Ret (Some (Resolved (mkProxy ''next'' 80 '''' '''')), None), s)) 7 (demo_manager, 0::nat) =
      (Ret (Some (sessionInfoFrom 7 e'), None), demo_manager\<lparr>sm_entries := (sm_entries demo_manager)(7 \<mapsto> e')\<rparr>, 0) \<and>
    se_id e' = 0 \<and> se_proxy e' = mkProxy ''next'' 80 '''' '''' \<and> se_rotation e' = 1 \<and> se_expiresAt e' = 150 \<and>
    se_seed e' \<noteq> Some (NewSessionSeed 7 0)"
proof -
  let ?e = "new_entry 7 (WithSessionSeed demo_ctx (Some (NewSessionSeed 7 0))) (mkProxy ''up'' 3128 '''' '''') 0 100 10"
  from ForceRotate_rotates [of demo_manager 7 ?e "\<lambda>s. (50, s)" "0::nat" "\<lambda>ctx req s. (Ret (Some (Resolved (mkProxy ''next'' 80 '''' '''')), None), s)"
      "Resolved (mkProxy ''next'' 80 '''' '''')" 0 "mkProxy ''next'' 80 '''' ''''"]
  show ?thesis
    by (auto simp: demo_manager_def new_entry_def)
qed


section \<open>Introspection\<close>

lemma list_loop_set:
  "i \<in> set (list_loop m now order) \<longleftrightarrow>
     (\<exists>tls e. tls \<in> set order \<and> sm_entries m tls = Some e \<and> now < se_expiresAt e \<and> i = sessionInfoFrom tls e)"
  by (induction order) (auto split: option.splits)

lemma list_loop_ids:
  "map si_TopLevelSeed (list_loop m now order) =
     filter (\<lambda>tls. case sm_entries m tls of Some e \<Rightarrow> now < se_expiresAt e | None \<Rightarrow> False) order"
  by (induction order) (auto simp: sessionInfoFrom_def split: option.splits)

text \<open>
  C39: \<^verbatim>\<open>ListEntries\<close> and \<^verbatim>\<open>GetSession\<close> agree. Whatever the iteration order of the map, at one
  reading of the clock the list holds exactly the infos \<^verbatim>\<open>GetSession\<close> returns, each once.
\<close>
theorem ListEntries_GetSession:
  assumes "set order = dom (sm_entries m)" and "distinct order"
  shows "(\<forall>i. i \<in> set (fst (ListEntries clk order m w)) \<longleftrightarrow> (\<exists>tls. fst (GetSession clk m tls w) = Some i)) \<and>
    distinct (map si_TopLevelSeed (fst (ListEntries clk order m w)))"
  using assms
  by (auto simp: ListEntries_def GetSession_def Let_def case_prod_beta list_loop_set list_loop_ids live_entry_def
      split: option.splits if_splits)

theorem ListEntries_GetSession_witness:
  "(\<forall>i. i \<in> set (fst (ListEntries (\<lambda>s. (50, s)) [7] demo_manager (0::nat))) \<longleftrightarrow>
      (\<exists>tls. fst (GetSession (\<lambda>s. (50, s)) demo_manager tls (0::nat)) = Some i)) \<and>
    distinct (map si_TopLevelSeed (fst (ListEntries (\<lambda>s. (50, s)) [7] demo_manager (0::nat))))"
  by (rule ListEntries_GetSession) (simp_all add: demo_manager_def)

text \<open>
  Cleanup is invisible. Pruning at time \<open>t\<close> changes no answer given at or after \<open>t\<close>: the
  same lookups hit with the same entry, so \<^verbatim>\<open>Resolve\<close>, \<^verbatim>\<open>GetSession\<close> and \<^verbatim>\<open>ForceRotate\<close> see the same
  sessions; and what remains is exactly the set of unexpired sessions.
\<close>
lemma cleanup_invisible:
  assumes "t \<le> fst (clk w)"
  shows "fst (live_entry clk (cleanup t m) tls w) = fst (live_entry clk m tls w) \<and>
    dom (sm_entries (cleanup t m)) = {tls. \<exists>e. sm_entries m tls = Some e \<and> t < se_expiresAt e}"
  using assms
  by (auto simp: live_entry_def cleanup_def Let_def case_prod_beta split: option.splits if_splits)

lemma cleanup_invisible_witness:
  "fst (live_entry (\<lambda>s. (120, s)) (cleanup 110 demo_manager) 7 (0::nat)) = None \<and>
   fst (live_entry (\<lambda>s. (120, s)) demo_manager 7 (0::nat)) = None \<and> dom (sm_entries (cleanup 110 demo_manager)) = {}"
  using cleanup_invisible [of 110 "\<lambda>s. (120, s)" "0::nat" demo_manager 7]
  by (simp add: live_entry_def demo_manager_def new_entry_def)

section \<open>A session manager in front of a rate limiter\<close>

definition limiter_clock :: "'w clock \<Rightarrow> 'w rlState clock" where
  "limiter_clock clk = (\<lambda>(h, st, w). let (t, w') = clk w in (t, (h, st, w')))"



section \<open>A session manager in front of a source\<close>

locale timed_source = proxy_source +
  fixes clk :: "'a clock"
  assumes clk_ready: "ready s \<Longrightarrow> ready (snd (clk s))"
begin

lemma live_entry_ready: "ready s \<Longrightarrow> ready (snd (live_entry clk m tls s))"
  using live_entry_cases [of clk m tls s] clk_ready by force

lemma managed_resolves:
  assumes "ready s"
  shows "\<exists>p m' s'. SessionManager_Resolve clk resolve ctx req (m, s) = (Ret (Some (Resolved p), None), (m', s')) \<and> ready s'"
proof (cases "GetSeedTTL ctx \<le> 0 \<or> GetTopLevelSeed ctx = 0")
  case True
  obtain p s' where "resolve ctx req s = (Ret (Some (Resolved p), None), s')" "ready s'"
    using resolve_ready [OF assms] by blast
  with True show ?thesis
    by (simp add: SessionManager_Resolve_def)
next
  case False
  obtain hit s1 where hit: "live_entry clk m (GetTopLevelSeed ctx) s = (hit, s1)" "ready s1"
    using live_entry_ready [OF assms] by (metis prod.collapse)
  let ?ctx = "WithSessionSeed ctx (Some (NewSessionSeed (GetTopLevelSeed ctx) 0))"
  obtain p s2 where res: "resolve ?ctx req s1 = (Ret (Some (Resolved p), None), s2)" "ready s2"
    using resolve_ready [OF hit(2)] by blast
  have "\<exists>m'' s''. snd (sm_store clk k ne (m', snd (clk s2))) = (m'', s'') \<and> ready s''" for k ne m'
    using live_entry_ready [OF clk_ready [OF res(2)], of m' k]
    by (simp add: sm_store_def Let_def case_prod_beta split: option.splits)
  with False hit res show ?thesis
    by (cases hit) (auto simp: SessionManager_Resolve_def Let_def case_prod_beta split: option.splits)
qed

end

sublocale timed_source \<subseteq> managed: proxy_source "SessionManager_Resolve clk resolve" "\<lambda>(m, s). ready s"
proof
  fix s :: "SessionManager \<times> 'a" and ctx req
  assume "case s of (m, s) \<Rightarrow> ready s"
  then show "\<exists>p s'. SessionManager_Resolve clk resolve ctx req s = (Ret (Some (Resolved p), None), s') \<and> (case s' of (m, s) \<Rightarrow> ready s)"
    using managed_resolves [of "snd s" ctx req "fst s"] by (auto simp: case_prod_beta)
qed

interpretation static_timed: timed_source StaticFileSource_Resolve static_ready source_clock
  by unfold_locales (auto simp: source_clock_def static_ready_def Let_def case_prod_beta)


section \<open>Concurrent calls\<close>

text \<open>
  Concurrent calls interleave at their critical sections and at the atomic id counter. The
  state has the manager, the entries that requests have built (with an id taken) and not yet
  stored, and the snapshots of rotations that wait for the inner handler. Proxies and clock
  readings are arbitrary in every step: the inner handler and the clock are unconstrained.
  The id counter does not wrap (it would take \<open>2 ^ 64\<close> sessions).
\<close>

record sm_conc =
  sc_mgr :: SessionManager
  sc_resolves :: "(u64 \<times> sessionEntry) set"
  sc_rotations :: "(u64 \<times> u64 \<times> Context \<times> int) list"

definition conc_start :: sm_conc where
  "conc_start = \<lparr>sc_mgr = NewSessionManager, sc_resolves = {}, sc_rotations = []\<rparr>"

definition at_time :: "int \<Rightarrow> unit clock" where
  "at_time now = (\<lambda>u. (now, u))"

inductive sm_step :: "sm_conc \<Rightarrow> sm_conc \<Rightarrow> bool" where
  build: "GetTopLevelSeed ctx = tls \<Longrightarrow> tls \<noteq> 0 \<Longrightarrow> GetSeedTTL ctx = ttl \<Longrightarrow> 0 < ttl \<Longrightarrow>
    alloc_id (sc_mgr s) = (i, m') \<Longrightarrow> i < i + 1 \<Longrightarrow>
    ne = new_entry tls (WithSessionSeed ctx (Some (NewSessionSeed tls 0))) p i ttl now \<Longrightarrow>
    sm_step s (s\<lparr>sc_mgr := m', sc_resolves := insert (tls, ne) (sc_resolves s)\<rparr>)"
| store_entry: "(tls, ne) \<in> sc_resolves s \<Longrightarrow> sm_store (at_time now) tls ne (sc_mgr s, ()) = (r, m', ()) \<Longrightarrow>
    sm_step s (s\<lparr>sc_mgr := m', sc_resolves := sc_resolves s - {(tls, ne)}\<rparr>)"
| snapshot: "fr_snapshot (at_time now) (sc_mgr s) tls () = (Some (rot, ctx, dur), ()) \<Longrightarrow>
    sm_step s (s\<lparr>sc_rotations := (tls, rot, ctx, dur) # sc_rotations s\<rparr>)"
| commit: "(tls, rot, ctx, dur) \<in> set (sc_rotations s) \<Longrightarrow> fr_commit tls p rot dur now (sc_mgr s) = (info, m') \<Longrightarrow>
    sm_step s (s\<lparr>sc_mgr := m', sc_rotations := remove1 (tls, rot, ctx, dur) (sc_rotations s)\<rparr>)"
| abandon: "sm_step s (s\<lparr>sc_rotations := remove1 x (sc_rotations s)\<rparr>)"
| prune: "sm_step s (s\<lparr>sc_mgr := cleanup now (sc_mgr s)\<rparr>)"

text \<open>What every entry satisfies: it belongs to the seed it is filed under.\<close>

definition entry_ok :: "u64 \<Rightarrow> sessionEntry \<Rightarrow> bool" where
  "entry_ok tls e \<longleftrightarrow> tls \<noteq> 0 \<and> se_seed e = Some (NewSessionSeed tls (se_rotation e)) \<and>
     GetTopLevelSeed (se_resolveCtx e) = tls \<and> GetSeedTTL (se_resolveCtx e) = se_duration e \<and> 0 < se_duration e \<and>
     GetSessionLabel (se_resolveCtx e) = se_label e"

text \<open>All entries with the seed they are filed or to be filed under.\<close>

definition all_entries :: "sm_conc \<Rightarrow> (u64 \<times> sessionEntry) set" where
  "all_entries s = {(tls, e). sm_entries (sc_mgr s) tls = Some e} \<union> sc_resolves s"

definition conc_ok :: "sm_conc \<Rightarrow> bool" where
  "conc_ok s \<longleftrightarrow> (\<forall>(tls, e) \<in> all_entries s. entry_ok tls e \<and> se_id e < sm_nextID (sc_mgr s)) \<and>
     inj_on (se_id \<circ> snd) (all_entries s) \<and>
     (\<forall>tls e. sm_entries (sc_mgr s) tls = Some e \<longrightarrow> (tls, e) \<notin> sc_resolves s)"

lemma conc_ok_shrink:
  assumes "conc_ok s" and "all_entries s' \<subseteq> all_entries s" and "sm_nextID (sc_mgr s') = sm_nextID (sc_mgr s)"
    and "\<And>tls e. sm_entries (sc_mgr s') tls = Some e \<Longrightarrow> (tls, e) \<notin> sc_resolves s'"
  shows "conc_ok s'"
  using assms(1,2,4) inj_on_subset [OF _ assms(2)] unfolding conc_ok_def assms(3) by blast

lemma new_entry_ok:
  "GetTopLevelSeed ctx = tls \<Longrightarrow> tls \<noteq> 0 \<Longrightarrow> GetSeedTTL ctx = ttl \<Longrightarrow> 0 < ttl \<Longrightarrow>
   entry_ok tls (new_entry tls (WithSessionSeed ctx (Some sd)) p i ttl now)"
  by (simp add: entry_ok_def new_entry_def)

lemma conc_ok_build:
  assumes "conc_ok s" and "entry_ok tls ne" and "se_id ne = sm_nextID (sc_mgr s)" and "sm_nextID (sc_mgr s) < sm_nextID (sc_mgr s) + 1"
  shows "conc_ok (s\<lparr>sc_mgr := snd (alloc_id (sc_mgr s)), sc_resolves := insert (tls, ne) (sc_resolves s)\<rparr>)"
    (is "conc_ok ?s'")
proof -
  have all: "all_entries ?s' = insert (tls, ne) (all_entries s)"
    by (auto simp: all_entries_def)
  have lt: "se_id (snd x) < sm_nextID (sc_mgr s)" if "x \<in> all_entries s" for x
    using assms(1) that by (auto simp: conc_ok_def)
  have fresh: "(k, ne) \<notin> all_entries s" for k
    using lt [of "(k, ne)"] assms(3) by auto
  have "inj_on (se_id \<circ> snd) (insert (tls, ne) (all_entries s))"
    using assms(1,3) lt by (fastforce simp: conc_ok_def inj_on_def)
  moreover have "\<forall>(k, e) \<in> insert (tls, ne) (all_entries s). entry_ok k e \<and> se_id e < sm_nextID (sc_mgr s) + 1"
    using assms order.strict_trans [OF _ assms(4)] by (auto simp: conc_ok_def)
  moreover have "(k, e) \<noteq> (tls, ne) \<and> (k, e) \<notin> sc_resolves s" if "sm_entries (sc_mgr s) k = Some e" for k e
    using that assms(1) fresh [of k] by (auto simp: conc_ok_def all_entries_def)
  ultimately show ?thesis
    unfolding conc_ok_def all by (simp add: alloc_id_def)
qed

lemma conc_ok_commit:
  assumes "conc_ok s" and e: "sm_entries (sc_mgr s) tls = Some e"
    and e': "entry_ok tls e'" "se_id e' = se_id e"
  shows "conc_ok (s\<lparr>sc_mgr := (sc_mgr s)\<lparr>sm_entries := (sm_entries (sc_mgr s))(tls \<mapsto> e')\<rparr>, sc_rotations := rs\<rparr>)"
    (is "conc_ok ?s'")
proof -
  have sub: "all_entries ?s' \<subseteq> insert (tls, e') (all_entries s - {(tls, e)})"
    using assms(1,2) by (auto simp: all_entries_def conc_ok_def split: if_splits)
  have mem: "(tls, e) \<in> all_entries s"
    using e by (simp add: all_entries_def)
  have inj: "inj_on (se_id \<circ> snd) (all_entries s)"
    using assms(1) by (simp add: conc_ok_def)
  have other: "se_id (snd x) \<noteq> se_id e'" if "x \<in> all_entries s - {(tls, e)}" for x
    using inj_onD [OF inj, of x "(tls, e)"] that mem e'(2) by auto
  have "inj_on (se_id \<circ> snd) (insert (tls, e') (all_entries s - {(tls, e)}))"
    using inj_on_subset [OF inj, of "all_entries s - {(tls, e)}"] other by (fastforce simp: inj_on_def)
  then have "inj_on (se_id \<circ> snd) (all_entries ?s')"
    using sub by (rule inj_on_subset)
  moreover have "entry_ok k x \<and> se_id x < sm_nextID (sc_mgr s)" if "(k, x) \<in> all_entries ?s'" for k x
    using assms(1) sub that e' mem by (fastforce simp: conc_ok_def)
  moreover have "(k, x) \<notin> sc_resolves s" if "sm_entries (sc_mgr ?s') k = Some x" for k x
  proof (cases "k = tls")
    case True
    have "(tls, e') \<notin> sc_resolves s"
      using other [of "(tls, e')"] assms(1) e by (auto simp: all_entries_def conc_ok_def)
    with that True show ?thesis by simp
  next
    case False
    with that assms(1) show ?thesis by (simp add: conc_ok_def)
  qed
  ultimately show ?thesis
    unfolding conc_ok_def by fastforce
qed

lemma conc_ok_step: "sm_step s s' \<Longrightarrow> conc_ok s \<Longrightarrow> conc_ok s'"
proof (induction rule: sm_step.induct)
  case (build ctx tls ttl s i m' ne p now)
  then have "entry_ok tls ne" "se_id ne = sm_nextID (sc_mgr s)" "m' = snd (alloc_id (sc_mgr s))" "i = sm_nextID (sc_mgr s)"
    by (auto simp: new_entry_ok) (auto simp: new_entry_def alloc_id_def)
  with conc_ok_build [OF build.prems] build(6) show ?case by simp
next
  case (store_entry tls ne s now r m')
  then have m': "m' = sc_mgr s \<or> m' = (sc_mgr s)\<lparr>sm_entries := (sm_entries (sc_mgr s))(tls \<mapsto> ne)\<rparr>"
    by (auto simp: sm_store_def Let_def case_prod_beta split: option.splits)
  have old: "(k, e) \<notin> sc_resolves s" if "sm_entries (sc_mgr s) k = Some e" for k e
    using store_entry.prems that by (simp add: conc_ok_def)
  show ?case
    by (rule conc_ok_shrink [OF store_entry.prems])
      (use m' store_entry(1) old in \<open>auto simp: all_entries_def split: if_splits\<close>)
next
  case (commit tls rot ctx dur s p now info m')
  show ?case
  proof (cases "sm_entries (sc_mgr s) tls")
    case None
    with commit show ?thesis by (simp add: fr_commit_def conc_ok_def all_entries_def)
  next
    case (Some e)
    let ?e = "e\<lparr>se_proxy := p, se_seed := Some (NewSessionSeed tls rot), se_rotation := rot,
                     se_lastRotationAt := now, se_expiresAt := now + dur\<rparr>"
    have "entry_ok tls e"
      using commit.prems Some by (auto simp: conc_ok_def all_entries_def)
    then have "entry_ok tls ?e" "se_id ?e = se_id e"
      by (simp_all add: entry_ok_def)
    from conc_ok_commit [OF commit.prems Some this] commit(2) Some show ?thesis
      by (simp add: fr_commit_def Let_def)
  qed
next
  case (prune s now)
  then show ?case
    by (rule conc_ok_shrink) (use prune in \<open>auto simp: all_entries_def cleanup_def conc_ok_def split: option.splits if_splits\<close>)
qed (simp_all add: conc_ok_def all_entries_def)

text \<open>
  C7: Under every interleaving of concurrent \<^verbatim>\<open>Resolve\<close> calls, forced rotations (completed or
  abandoned) and cleanup ticks, with any inner handler and any clock, every session is filed
  under the seed of its own context, its seed is the one derived from that seed and its current
  rotation counter, its label and duration are those of its context, and no two sessions share
  an id.
\<close>
theorem sessions_consistent:
  assumes "sm_step\<^sup>*\<^sup>* conc_start s"
  shows "(\<forall>tls e. sm_entries (sc_mgr s) tls = Some e \<longrightarrow> entry_ok tls e) \<and>
    (\<forall>tls tls' e e'. sm_entries (sc_mgr s) tls = Some e \<longrightarrow> sm_entries (sc_mgr s) tls' = Some e' \<longrightarrow> se_id e = se_id e' \<longrightarrow> tls = tls')"
proof -
  have ok: "conc_ok s"
    using assms
  proof (induction rule: rtranclp_induct)
    case base
    then show ?case by (simp add: conc_ok_def conc_start_def all_entries_def NewSessionManager_def)
  next
    case (step y z)
    then show ?case by (blast intro: conc_ok_step)
  qed
  then have inj: "inj_on (se_id \<circ> snd) (all_entries s)"
    by (simp add: conc_ok_def)
  have mem: "(tls, e) \<in> all_entries s" if "sm_entries (sc_mgr s) tls = Some e" for tls e
    using that by (simp add: all_entries_def)
  have "tls = tls'" if "sm_entries (sc_mgr s) tls = Some e" "sm_entries (sc_mgr s) tls' = Some e'" "se_id e = se_id e'" for tls tls' e e'
    using inj_onD [OF inj _ mem [OF that(1)] mem [OF that(2)]] that(3) by simp
  moreover have "entry_ok tls e" if "sm_entries (sc_mgr s) tls = Some e" for tls e
    using ok mem [OF that] by (auto simp: conc_ok_def)
  ultimately show ?thesis by blast
qed

theorem sessions_consistent_witness:
  "\<exists>s e. sm_step\<^sup>*\<^sup>* conc_start s \<and> sm_entries (sc_mgr s) 7 = Some e \<and> entry_ok 7 e"
proof -
  let ?ne = "new_entry 7 (WithSessionSeed demo_ctx (Some (NewSessionSeed 7 0))) (mkProxy ''up'' 3128 [] []) 0 100 10"
  let ?m1 = "\<lparr>sm_entries = Map.empty, sm_nextID = 1\<rparr>"
  let ?s1 = "\<lparr>sc_mgr = ?m1, sc_resolves = {(7, ?ne)}, sc_rotations = []\<rparr>"
  let ?s2 = "\<lparr>sc_mgr = \<lparr>sm_entries = [7 \<mapsto> ?ne], sm_nextID = 1\<rparr>, sc_resolves = {}, sc_rotations = []\<rparr>"
  have "sm_step conc_start ?s1"
    using sm_step.build [OF demo_ctx_values(1) _ demo_ctx_values(2) _ _ _ refl, of conc_start 0 ?m1 "mkProxy ''up'' 3128 [] []" 10]
    by (simp add: conc_start_def alloc_id_def NewSessionManager_def)
  moreover have "sm_step ?s1 ?s2"
    using sm_step.store_entry [of 7 ?ne ?s1 20 None "\<lparr>sm_entries = [7 \<mapsto> ?ne], sm_nextID = 1\<rparr>"]
    by (simp add: sm_store_def live_entry_def)
  ultimately have r: "sm_step\<^sup>*\<^sup>* conc_start ?s2"
    by (meson rtranclp.rtrancl_into_rtrancl rtranclp.rtrancl_refl)
  with sessions_consistent [OF r] show ?thesis
    by (intro exI [of _ ?s2] exI [of _ ?ne]) simp
qed

text \<open>
  C38: Concurrent forced rotations lose an update. When two rotations of a live session both take
  their snapshot before either commits, both report success with the same rotation number and
  the same seed, and the counter has advanced by one only.
\<close>
theorem ForceRotate_lost_update:
  assumes "sm_entries m tls = Some e" and "now < se_expiresAt e" and "now' < se_expiresAt e"
    and "fr_snapshot (at_time now) m tls () = (Some (rot1, ctx1, dur1), ())"
    and "fr_snapshot (at_time now') m tls () = (Some (rot2, ctx2, dur2), ())"
    and "fr_commit tls p1 rot1 dur1 t1 m = (info1, m1)" and "fr_commit tls p2 rot2 dur2 t2 m1 = (info2, m2)"
  shows "\<exists>i1 i2 e2. info1 = Some i1 \<and> info2 = Some i2 \<and> si_Rotation i1 = se_rotation e + 1 \<and> si_Rotation i2 = se_rotation e + 1 \<and>
    si_Seed i1 = si_Seed i2 \<and> sm_entries m2 tls = Some e2 \<and> se_rotation e2 = se_rotation e + 1"
  using assms by (auto simp: fr_snapshot_def live_entry_def at_time_def fr_commit_def sessionInfoFrom_def Let_def)

theorem ForceRotate_lost_update_witness:
  "\<exists>i1 i2 e2 m1 m2. fr_commit 7 (mkProxy ''a'' 1 [] []) 1 100 51 demo_manager = (Some i1, m1) \<and>
    fr_commit 7 (mkProxy ''b'' 2 [] []) 1 100 52 m1 = (Some i2, m2) \<and> si_Rotation i1 = 1 \<and> si_Rotation i2 = 1 \<and>
    si_Seed i1 = si_Seed i2 \<and> sm_entries m2 7 = Some e2 \<and> se_rotation e2 = 1"
proof -
  let ?ctx = "WithSessionSeed demo_ctx (Some (NewSessionSeed 7 0))"
  let ?e = "new_entry 7 ?ctx (mkProxy ''up'' 3128 [] []) 0 100 10"
  have e: "sm_entries demo_manager 7 = Some ?e" and ex: "50 < se_expiresAt ?e" and rot: "se_rotation ?e = 0"
    by (simp_all add: demo_manager_def new_entry_def)
  have snap: "fr_snapshot (at_time 50) demo_manager 7 () = (Some (1, ?ctx, 100), ())"
    by (simp add: fr_snapshot_def live_entry_def at_time_def demo_manager_def new_entry_def)
  obtain i1 m1 where c1: "fr_commit 7 (mkProxy ''a'' 1 [] []) 1 100 51 demo_manager = (i1, m1)" by fastforce
  obtain i2 m2 where c2: "fr_commit 7 (mkProxy ''b'' 2 [] []) 1 100 52 m1 = (i2, m2)" by fastforce
  from ForceRotate_lost_update [OF e ex ex snap snap c1 c2] c1 c2 rot show ?thesis
    by auto
qed

end
