(* ===== verification/Providers.thy ===== *)
theory Providers
  imports StaticFile
begin

text \<open>
  The provider-backed sources: \<^verbatim>\<open>country.go\<close> and \<^verbatim>\<open>seed_helpers.go\<close>, \<^verbatim>\<open>provider_geonode.go\<close> and
  \<^verbatim>\<open>provider_bottingtools.go\<close> of \<^verbatim>\<open>proxy-kit/utils\<close>. A source built from a configuration answers a
  request by composing the upstream user name; with a session seed the answer is a function
  of the seed. Environment variables are a parameter \<open>getenv\<close>; the rendering of a metadata
  value that is not a string (\<^verbatim>\<open>%g\<close>, \<^verbatim>\<open>%v\<close>) is a parameter \<open>fmt_json\<close>.
\<close>

section \<open>Countries and seed helpers\<close>

type_synonym Country = string

definition AsParamStr :: "Country \<Rightarrow> string" where
  "AsParamStr c = ToLower c"

text \<open>The decoders normalise a country to upper case; the TOML decoder refuses other types, the
  JSON one strips the quotes of the raw token.\<close>

definition Country_UnmarshalTOML :: "json \<Rightarrow> error + Country" where
  "Country_UnmarshalTOML v =
     (case v of JStr s \<Rightarrow> Inr (ToUpper s) | _ \<Rightarrow> Inl (ErrOther ''country must be a string''))"

definition Country_UnmarshalJSON :: "string \<Rightarrow> Country" where
  "Country_UnmarshalJSON raw =
     (let isq = (\<lambda>c. c = CHR 34)
      in ToUpper (rev (dropWhile isq (rev (dropWhile isq raw)))))"

definition hexCharset :: string where
  "hexCharset = ''0123456789abcdef''"

definition pickCountry :: "Country list \<Rightarrow> SessionSeed option \<Rightarrow> world \<Rightarrow> Country outcome \<times> world" where
  "pickCountry countries seed w =
     (if length countries = 0 then (Ret '''', w)
      else case seed of
             Some s \<Rightarrow> (bind_outcome (Pick s (int (length countries))) (\<lambda>i. Ret (countries ! nat i)), w)
           | None \<Rightarrow> let (r, w') = CheapRandom w
                     in (Ret (countries ! unat (r mod of_nat (length countries))), w'))"

text \<open>The verb \<^verbatim>\<open>%016x\<close> on a \<^verbatim>\<open>uint64\<close>.\<close>

definition hex16 :: "u64 \<Rightarrow> string" where
  "hex16 v = map (\<lambda>i. hexCharset ! unat (drop_bit (4 * (15 - i)) v AND 15)) [0..<16]"

definition deriveSessionID :: "SessionSeed option \<Rightarrow> world \<Rightarrow> string outcome \<times> world" where
  "deriveSessionID seed w =
     (case seed of
        Some s \<Rightarrow> (DeriveStringKey s hexCharset 16, w)
      | None \<Rightarrow> let (r, w') = CheapRandom w in (Ret (hex16 r), w'))"

section \<open>Geonode\<close>

record GeonodeSessionConfig =
  gsType :: string
  gsSessTime :: u32

record GeonodeConfig =
  gnUsername :: string
  gnPasswordEnv :: string
  gnGateway :: string
  gnProtocol :: string
  gnCountries :: "Country list"
  gnSession :: GeonodeSessionConfig

definition GeonodeGatewayFR :: string where [simp]: "GeonodeGatewayFR = ''fr''"
definition GeonodeGatewayUS :: string where [simp]: "GeonodeGatewayUS = ''us''"
definition GeonodeGatewaySG :: string where [simp]: "GeonodeGatewaySG = ''sg''"
definition GeonodeProtocolHTTP :: string where [simp]: "GeonodeProtocolHTTP = ''http''"
definition GeonodeProtocolSocks5 :: string where [simp]: "GeonodeProtocolSocks5 = ''socks5''"
definition GeonodeSessionRotating :: string where [simp]: "GeonodeSessionRotating = ''rotating''"
definition GeonodeSessionSticky :: string where [simp]: "GeonodeSessionSticky = ''sticky''"

definition Gateway_Host :: "string \<Rightarrow> string" where
  "Gateway_Host g =
     (if g = GeonodeGatewayFR then ''proxy.geonode.io''
      else if g = GeonodeGatewaySG then ''sg.premium-residential.geonode.com''
      else ''us.premium-residential.geonode.com'')"

definition Geonode_Host :: "GeonodeConfig \<Rightarrow> string" where
  "Geonode_Host c = Gateway_Host (gnGateway c)"

definition Geonode_Port :: "GeonodeConfig \<Rightarrow> u16" where
  "Geonode_Port c =
     (if gnProtocol c = GeonodeProtocolHTTP \<and> gsType (gnSession c) = GeonodeSessionRotating then 9000
      else if gnProtocol c = GeonodeProtocolHTTP \<and> gsType (gnSession c) = GeonodeSessionSticky then 10000
      else if gnProtocol c = GeonodeProtocolSocks5 \<and> gsType (gnSession c) = GeonodeSessionRotating then 11000
      else if gnProtocol c = GeonodeProtocolSocks5 \<and> gsType (gnSession c) = GeonodeSessionSticky then 12000
      else 9000)"

record GeonodeSource =
  gn_config :: GeonodeConfig
  gn_password :: string

definition NewGeonodeSource :: "(string \<Rightarrow> string) \<Rightarrow> GeonodeConfig \<Rightarrow> error + GeonodeSource" where
  "NewGeonodeSource getenv cfg =
     (let password = getenv (gnPasswordEnv cfg)
      in if password = '''' then Inl (ErrEnvNotSet (gnPasswordEnv cfg))
         else Inr \<lparr>gn_config = cfg, gn_password = password\<rparr>)"

definition gnBuildRotating :: "string \<Rightarrow> Country \<Rightarrow> string" where
  "gnBuildRotating username country =
     (if country = '''' then username
      else username @ ''-country-'' @ ToUpper (AsParamStr country))"

definition gnBuildSticky :: "string \<Rightarrow> u32 \<Rightarrow> string \<Rightarrow> Country \<Rightarrow> string" where
  "gnBuildSticky username sessTime sessionID country =
     (let parts = [username, ''session-'' @ sessionID, ''sessTime-'' @ itoa (unat sessTime)];
          parts' = (if country \<noteq> '''' then parts @ [''country-'' @ ToUpper (AsParamStr country)] else parts)
      in str_Join parts' ''-'')"

definition gnBuildUsername :: "GeonodeConfig \<Rightarrow> SessionSeed option \<Rightarrow> world \<Rightarrow> string outcome \<times> world" where
  "gnBuildUsername cfg seed w =
     (let (country, w1) = pickCountry (gnCountries cfg) seed w in
      if gsType (gnSession cfg) = GeonodeSessionSticky then
        let (sid, w2) = deriveSessionID seed w1
        in (bind_outcome country (\<lambda>c. bind_outcome sid (\<lambda>i.
              Ret (gnBuildSticky (gnUsername cfg) (gsSessTime (gnSession cfg)) i c))), w2)
      else (bind_outcome country (\<lambda>c. Ret (gnBuildRotating (gnUsername cfg) c)), w1))"

definition GeonodeSource_Resolve :: "GeonodeSource \<Rightarrow> world handler" where
  "GeonodeSource_Resolve s ctx req w =
     (let seed = GetSessionSeed ctx;
          proto = (if gnProtocol (gn_config s) = GeonodeProtocolSocks5 then ProtocolSOCKS5 else ProtocolHTTP);
          (username, w') = gnBuildUsername (gn_config s) seed w
      in (bind_outcome username (\<lambda>u. Ret (Some (Resolved
            \<lparr>pHost = Geonode_Host (gn_config s), pPort = Geonode_Port (gn_config s), pUsername = u,
             pPassword = gn_password s, pProtocol = proto\<rparr>), None)), w'))"

definition GeonodeSource_Describe :: "GeonodeSource \<Rightarrow> string" where
  "GeonodeSource_Describe s =
     (let c = gn_config s;
          parts = [''geonode''];
          parts' = (if 0 < length (gnCountries c)
                    then parts @ [str_Join (map (\<lambda>x. ToUpper (AsParamStr x)) (gnCountries c)) '','']
                    else parts)
      in str_Join (parts' @ [gnUsername c @ ''@'' @ Geonode_Host c @ '':'' @ itoa (unat (Geonode_Port c))]) '' '')"

section \<open>Bottingtools\<close>

record BtResidentialConfig =
  brQuality :: string
  brCountries :: "Country list"
  brCity :: string

text \<open>The typed product sections are pointers (nil is \<open>None\<close>) that no decoder fills: their tags
  are \<^verbatim>\<open>toml:"-"\<close>, \<^verbatim>\<open>yaml:"-"\<close> and \<^verbatim>\<open>json:"-"\<close>. The ISP and data-center sections only hold
  countries.\<close>

record BtProductConfig =
  bpType :: string
  bpResidential :: "BtResidentialConfig option"
  bpISP :: "Country list option"
  bpDatacenter :: "Country list option"

record BtRawProductConfig =
  rawType :: string
  rawQuality :: string
  rawCountries :: "Country list"
  rawCity :: string
  rawSessTime :: int

record BottingtoolsConfig =
  btUsername :: string
  btPasswordEnv :: string
  btHost :: string
  btProduct :: BtProductConfig

definition Validate :: "BtResidentialConfig \<Rightarrow> error option" where
  "Validate r = (if brCity r \<noteq> '''' \<and> length (brCountries r) \<noteq> 1
     then Some (ErrCityNeedsCountry (length (brCountries r))) else None)"

definition AsTypeStr :: "string \<Rightarrow> string" where
  "AsTypeStr q = (if q = ''low'' then ''low'' else ''high'')"

definition ParseBottingtoolsProductConfig :: "BtRawProductConfig \<Rightarrow> error + BtProductConfig" where
  "ParseBottingtoolsProductConfig raw =
     (if rawType raw = ''residential'' then
        let quality = (if rawQuality raw = ''low'' then ''low'' else ''high'');
            cfg = \<lparr>brQuality = quality, brCountries = rawCountries raw, brCity = rawCity raw\<rparr>
        in (case Validate cfg of
              Some e \<Rightarrow> Inl e
            | None \<Rightarrow> Inr \<lparr>bpType = ''residential'', bpResidential = Some cfg, bpISP = None, bpDatacenter = None\<rparr>)
      else if rawType raw = ''isp'' then
        Inr \<lparr>bpType = ''isp'', bpResidential = None, bpISP = Some (rawCountries raw), bpDatacenter = None\<rparr>
      else if rawType raw = ''datacenter'' then
        Inr \<lparr>bpType = ''datacenter'', bpResidential = None, bpISP = None, bpDatacenter = Some (rawCountries raw)\<rparr>
      else Inl (ErrUnknownProduct (rawType raw)))"

record BottingtoolsSource =
  bt_accountUser :: string
  bt_password :: string
  bt_host :: string
  bt_product :: BtProductConfig

definition NewBottingtoolsSource :: "(string \<Rightarrow> string) \<Rightarrow> BottingtoolsConfig \<Rightarrow> error + BottingtoolsSource" where
  "NewBottingtoolsSource getenv cfg =
     (let password = getenv (btPasswordEnv cfg)
      in if password = '''' then Inl (ErrEnvNotSet (btPasswordEnv cfg))
         else Inr \<lparr>bt_accountUser = btUsername cfg, bt_password = password, bt_host = btHost cfg,
                bt_product = btProduct cfg\<rparr>)"

definition btSesstimeStr :: "(json \<Rightarrow> string) \<Rightarrow> meta \<Rightarrow> string" where
  "btSesstimeStr fmt_json m =
     (case map_of m ''sesstime'' of
        None \<Rightarrow> ''''
      | Some JNull \<Rightarrow> ''''
      | Some (JStr s) \<Rightarrow> s
      | Some v \<Rightarrow> fmt_json v)"

definition opt_part :: "string \<Rightarrow> string \<Rightarrow> string list" where
  "opt_part label v = (if v \<noteq> '''' then [label @ v] else [])"

definition btBuildResidential ::
  "(json \<Rightarrow> string) \<Rightarrow> string \<Rightarrow> BtResidentialConfig option \<Rightarrow> meta \<Rightarrow> SessionSeed option \<Rightarrow> world \<Rightarrow>
     string outcome \<times> world" where
  "btBuildResidential fmt_json user cfgp m seed w =
     (case cfgp of
        None \<Rightarrow> (Panicked NilDereference, w)
      | Some cfg \<Rightarrow>
          let (country, w1) = pickCountry (brCountries cfg) seed w;
              (sid, w2) = deriveSessionID seed w1
          in (bind_outcome country (\<lambda>c. bind_outcome sid (\<lambda>i. Ret (str_Join
                ([user @ ''_pool-custom_type-'' @ AsTypeStr (brQuality cfg)] @
                 (if c \<noteq> '''' then [''country-'' @ ToUpper (AsParamStr c)] else []) @
                 opt_part ''city-'' (brCity cfg) @
                 [''session-'' @ i] @
                 opt_part ''sesstime-'' (btSesstimeStr fmt_json m) @
                 (if Meta_GetString m ''fastmode'' = ''true'' then [''fastmode-true''] else []))
                ''_''))), w2))"

definition btBuildISP ::
  "(json \<Rightarrow> string) \<Rightarrow> string \<Rightarrow> Country list option \<Rightarrow> meta \<Rightarrow> SessionSeed option \<Rightarrow> world \<Rightarrow>
     string outcome \<times> world" where
  "btBuildISP fmt_json user cfgp m seed w =
     (case cfgp of
        None \<Rightarrow> (Panicked NilDereference, w)
      | Some countries \<Rightarrow>
          let (country, w1) = pickCountry countries seed w;
              (sid, w2) = deriveSessionID seed w1
          in (bind_outcome country (\<lambda>c. bind_outcome sid (\<lambda>i. Ret (str_Join
                ([user @ ''_pool-isp''] @
                 (if c \<noteq> '''' then [''country-'' @ AsParamStr c] else []) @ [''session-'' @ i] @
                 opt_part ''sesstime-'' (btSesstimeStr fmt_json m)) ''_''))), w2))"

definition btBuildDatacenter ::
  "string \<Rightarrow> Country list option \<Rightarrow> SessionSeed option \<Rightarrow> world \<Rightarrow> string outcome \<times> world" where
  "btBuildDatacenter user cfgp seed w =
     (case cfgp of
        None \<Rightarrow> (Panicked NilDereference, w)
      | Some countries \<Rightarrow>
          let (country, w1) = pickCountry countries seed w
          in (bind_outcome country (\<lambda>c. Ret (str_Join
                ([user @ ''_pool-dc''] @
                 (if c \<noteq> '''' then [''country-'' @ AsParamStr c] else [])) ''_'')), w1))"

definition btBuildUsername ::
  "(json \<Rightarrow> string) \<Rightarrow> string \<Rightarrow> BtProductConfig \<Rightarrow> meta \<Rightarrow> SessionSeed option \<Rightarrow> world \<Rightarrow>
     string outcome \<times> world" where
  "btBuildUsername fmt_json user product m seed w =
     (if bpType product = ''residential'' then btBuildResidential fmt_json user (bpResidential product) m seed w
      else if bpType product = ''isp'' then btBuildISP fmt_json user (bpISP product) m seed w
      else if bpType product = ''datacenter'' then btBuildDatacenter user (bpDatacenter product) seed w
      else (Ret user, w))"

definition BottingtoolsSource_Resolve :: "(json \<Rightarrow> string) \<Rightarrow> BottingtoolsSource \<Rightarrow> world handler" where
  "BottingtoolsSource_Resolve fmt_json s ctx req w =
     (let (username, w') = btBuildUsername fmt_json (bt_accountUser s) (bt_product s) (GetMeta ctx)
            (GetSessionSeed ctx) w
      in (bind_outcome username (\<lambda>u. Ret (Some (Resolved
            \<lparr>pHost = bt_host s, pPort = 1337, pUsername = u, pPassword = bt_password s,
             pProtocol = ''''\<rparr>), None)), w'))"

definition BottingtoolsSource_Describe :: "BottingtoolsSource \<Rightarrow> string outcome" where
  "BottingtoolsSource_Describe s =
     bind_outcome
       (if bpType (bt_product s) = ''residential'' then
          (case bpResidential (bt_product s) of
             None \<Rightarrow> Panicked NilDereference
           | Some r \<Rightarrow> Ret (''residential('' @ AsTypeStr (brQuality r) @ '')''))
        else if bpType (bt_product s) = ''isp'' then Ret ''isp''
        else if bpType (bt_product s) = ''datacenter'' then Ret ''datacenter''
        else Ret '''')
       (\<lambda>product. Ret (''bottingtools '' @ product @ '' '' @ bt_accountUser s @ ''@'' @ bt_host s))"

section \<open>Countries and session identifiers\<close>

lemma pickCountry_member:
  assumes "length cs < 2 ^ 63"
  shows "\<exists>c w'. pickCountry cs seed w = (Ret c, w') \<and> (if cs = [] then c = '''' else c \<in> set cs)"
proof (cases "cs = []")
  case True
  then show ?thesis by (simp add: pickCountry_def)
next
  case False
  show ?thesis
  proof (cases seed)
    case None
    have "unat (r mod of_nat (length cs) :: u64) < length cs" for r
      using False assms by (intro unat_mod_less) simp_all
    with False None show ?thesis
      by (auto simp: pickCountry_def split: prod.splits)
  next
    case (Some s)
    have "0 < int (length cs)" "int (length cs) < 2 ^ 63"
      using False assms by simp_all
    from Pick_positive [OF this, of s]
    obtain i where "Pick s (int (length cs)) = Ret i" "0 \<le> i" "i < int (length cs)" by blast
    with False Some show ?thesis
      by (auto simp: pickCountry_def)
  qed
qed

lemma hexCharset_props: "hexCharset \<noteq> []" "length hexCharset = 16"
  by (simp_all add: hexCharset_def)

lemma hex16_props: "length (hex16 v) = 16" "set (hex16 v) \<subseteq> set hexCharset"
proof -
  show "length (hex16 v) = 16" by (simp add: hex16_def)
  have "unat (x AND 15) < length hexCharset" for x :: u64
  proof -
    have "unat (x AND 15) \<le> unat (15 :: u64)"
      by (rule word_and_le1 [THEN word_le_nat_alt [THEN iffD1]])
    then show ?thesis by (simp add: hexCharset_props)
  qed
  then show "set (hex16 v) \<subseteq> set hexCharset"
    by (auto simp: hex16_def)
qed

definition is_session_id :: "string \<Rightarrow> bool" where
  "is_session_id i \<longleftrightarrow> length i = 16 \<and> set i \<subseteq> set hexCharset"

lemma deriveSessionID_id: "\<exists>i w'. deriveSessionID seed w = (Ret i, w') \<and> is_session_id i"
proof (cases seed)
  case None
  then show ?thesis
    using hex16_props by (auto simp: deriveSessionID_def is_session_id_def split: prod.splits)
next
  case (Some s)
  have "length (derive_loop hexCharset v 16) = 16" "set (derive_loop hexCharset v 16) \<subseteq> set hexCharset" for v
    by (simp_all add: derive_loop_length derive_loop_set hexCharset_props)
  with Some show ?thesis
    by (simp add: deriveSessionID_def DeriveStringKey_def hexCharset_props is_session_id_def Let_def)
qed

text \<open>With a seed no user name builder touches the environment.\<close>

lemma gnBuildUsername_seeded:
  "gnBuildUsername cfg (Some s) w = (fst (gnBuildUsername cfg (Some s) w'), w)"
  by (simp add: gnBuildUsername_def pickCountry_def deriveSessionID_def)

lemma btBuildUsername_seeded:
  "btBuildUsername fmt user p m (Some s) w = (fst (btBuildUsername fmt user p m (Some s) w'), w)"
  by (simp add: btBuildUsername_def btBuildResidential_def btBuildISP_def btBuildDatacenter_def
      pickCountry_def deriveSessionID_def split: option.splits)

section \<open>Geonode answers\<close>

definition geonode_ready :: "GeonodeSource \<Rightarrow> bool" where
  "geonode_ready s \<longleftrightarrow> length (gnCountries (gn_config s)) < 2 ^ 63"

text \<open>The country suffix of an answer: absent without countries, one of them otherwise.\<close>

definition country_choice :: "Country list \<Rightarrow> Country \<Rightarrow> bool" where
  "country_choice cs c \<longleftrightarrow> (if cs = [] then c = '''' else c \<in> set cs)"

lemma gnBuildUsername_form:
  assumes "length (gnCountries cfg) < 2 ^ 63"
  shows "\<exists>u w' c. gnBuildUsername cfg seed w = (Ret u, w') \<and> country_choice (gnCountries cfg) c \<and>
    (if gsType (gnSession cfg) = ''sticky''
     then \<exists>i. is_session_id i \<and> u = gnBuildSticky (gnUsername cfg) (gsSessTime (gnSession cfg)) i c
     else u = gnBuildRotating (gnUsername cfg) c)"
proof -
  obtain c w1 where c: "pickCountry (gnCountries cfg) seed w = (Ret c, w1)" "country_choice (gnCountries cfg) c"
    using pickCountry_member [OF assms, of seed w] by (auto simp: country_choice_def)
  obtain i w2 where i: "deriveSessionID seed w1 = (Ret i, w2)" "is_session_id i"
    using deriveSessionID_id by blast
  from c i show ?thesis
    by (auto simp: gnBuildUsername_def)
qed

lemma GeonodeSource_Resolve_some:
  assumes "geonode_ready s"
  shows "\<exists>p w' c. GeonodeSource_Resolve s ctx req w = (Ret (Some (Resolved p), None), w') \<and>
    pHost p = Geonode_Host (gn_config s) \<and> pPort p = Geonode_Port (gn_config s) \<and>
    pPassword p = gn_password s \<and>
    (pProtocol p = ProtocolSOCKS5 \<longleftrightarrow> gnProtocol (gn_config s) = ''socks5'') \<and>
    country_choice (gnCountries (gn_config s)) c \<and>
    (if gsType (gnSession (gn_config s)) = ''sticky''
     then \<exists>i. is_session_id i \<and> pUsername p =
       gnBuildSticky (gnUsername (gn_config s)) (gsSessTime (gnSession (gn_config s))) i c
     else pUsername p = gnBuildRotating (gnUsername (gn_config s)) c)"
proof -
  obtain u w' c where "gnBuildUsername (gn_config s) (GetSessionSeed ctx) w = (Ret u, w')"
    "country_choice (gnCountries (gn_config s)) c"
    "if gsType (gnSession (gn_config s)) = ''sticky''
     then \<exists>i. is_session_id i \<and> u = gnBuildSticky (gnUsername (gn_config s)) (gsSessTime (gnSession (gn_config s))) i c
     else u = gnBuildRotating (gnUsername (gn_config s)) c"
    using gnBuildUsername_form [of "gn_config s" "GetSessionSeed ctx" w] assms
    by (auto simp: geonode_ready_def)
  note build = this
  let ?p = "\<lparr>pHost = Geonode_Host (gn_config s), pPort = Geonode_Port (gn_config s), pUsername = u,
     pPassword = gn_password s,
     pProtocol = (if gnProtocol (gn_config s) = ''socks5'' then ProtocolSOCKS5 else ProtocolHTTP)\<rparr>"
  have "GeonodeSource_Resolve s ctx req w = (Ret (Some (Resolved ?p), None), w')"
    by (simp add: GeonodeSource_Resolve_def build(1))
  with build(2,3) show ?thesis
    by (intro exI [of _ ?p] exI [of _ w'] exI [of _ c]) (simp add: ProtocolSOCKS5_def ProtocolHTTP_def)
qed

interpretation geonode: proxy_source "GeonodeSource_Resolve s" "\<lambda>_. geonode_ready s" for s
  using GeonodeSource_Resolve_some by unfold_locales blast

text \<open>A Geonode source always answers with a proxy at the configured gateway and port, whose
  protocol follows the configuration and whose user name is the account name with, for sticky
  sessions, a 16-digit hexadecimal session id and the session time, followed by the upper-case code
  of one of the configured countries when there are any.\<close>

lemma Geonode_resolves:
  assumes "geonode_ready s"
  shows "\<exists>p w' c. GeonodeSource_Resolve s ctx req w = (Ret (Some (Resolved p), None), w') \<and>
    pHost p = Geonode_Host (gn_config s) \<and> pPort p = Geonode_Port (gn_config s) \<and>
    (pProtocol p = ProtocolSOCKS5 \<longleftrightarrow> gnProtocol (gn_config s) = ''socks5'') \<and>
    country_choice (gnCountries (gn_config s)) c \<and>
    (if gsType (gnSession (gn_config s)) = ''sticky''
     then \<exists>i. is_session_id i \<and> pUsername p =
       gnUsername (gn_config s) @ ''-session-'' @ i @ ''-sessTime-'' @
       itoa (unat (gsSessTime (gnSession (gn_config s)))) @
       (if c = '''' then '''' else ''-country-'' @ ToUpper c)
     else pUsername p = gnUsername (gn_config s) @ (if c = '''' then '''' else ''-country-'' @ ToUpper c))"
  using GeonodeSource_Resolve_some [OF assms, of ctx req w]
  by (auto simp: gnBuildSticky_def gnBuildRotating_def AsParamStr_def ToUpper_ToLower Let_def split: if_splits)

definition geonode_example :: GeonodeSource where
  "geonode_example = \<lparr>gn_config = \<lparr>gnUsername = ''acc'', gnPasswordEnv = ''GN_PW'', gnGateway = ''fr'',
     gnProtocol = ''socks5'', gnCountries = [''DE''], gnSession = \<lparr>gsType = ''sticky'', gsSessTime = 10\<rparr>\<rparr>,
     gn_password = ''pw''\<rparr>"

lemma Geonode_resolves_witness:
  "\<exists>p w' i. GeonodeSource_Resolve geonode_example background emptyRequest world0 =
      (Ret (Some (Resolved p), None), w') \<and> pPort p = 12000 \<and> is_session_id i \<and>
    pUsername p = ''acc-session-'' @ i @ ''-sessTime-10-country-DE''"
proof -
  have "geonode_ready geonode_example"
    by (simp add: geonode_ready_def geonode_example_def)
  moreover have "itoa 10 = ''10''" "ToUpper ''DE'' = ''DE''" by code_simp+
  ultimately show ?thesis
    using Geonode_resolves [of geonode_example background emptyRequest world0]
    by (auto simp: geonode_example_def country_choice_def Geonode_Port_def)
qed

section \<open>Bottingtools answers\<close>

text \<open>A product whose typed section is present.\<close>

fun wf_product :: "BtProductConfig \<Rightarrow> bool" where
  "wf_product p =
     (if bpType p = ''residential'' then (case bpResidential p of None \<Rightarrow> False | Some r \<Rightarrow> length (brCountries r) < 2 ^ 63)
      else if bpType p = ''isp'' then (case bpISP p of None \<Rightarrow> False | Some cs \<Rightarrow> length cs < 2 ^ 63)
      else if bpType p = ''datacenter'' then (case bpDatacenter p of None \<Rightarrow> False | Some cs \<Rightarrow> length cs < 2 ^ 63)
      else True)"

lemma pick_and_derive:
  assumes "length cs < 2 ^ 63"
  obtains c w1 i w2 where "pickCountry cs seed w = (Ret c, w1)" "deriveSessionID seed w1 = (Ret i, w2)"
    "country_choice cs c" "is_session_id i"
  using pickCountry_member [OF assms, of seed w] deriveSessionID_id
  by (metis country_choice_def)

lemma btBuildUsername_returns:
  assumes "wf_product p"
  shows "\<exists>u w'. btBuildUsername fmt user p m seed w = (Ret u, w')"
proof -
  consider (res) r where "bpType p = ''residential''" "bpResidential p = Some r" "length (brCountries r) < 2 ^ 63"
    | (isp) cs where "bpType p = ''isp''" "bpISP p = Some cs" "length cs < 2 ^ 63"
    | (dc) cs where "bpType p = ''datacenter''" "bpDatacenter p = Some cs" "length cs < 2 ^ 63"
    | (other) "bpType p \<notin> {''residential'', ''isp'', ''datacenter''}"
    using assms by (auto split: option.splits if_splits)
  then show ?thesis
  proof cases
    case res
    from res(3) obtain c w1 i w2 where "pickCountry (brCountries r) seed w = (Ret c, w1)"
      "deriveSessionID seed w1 = (Ret i, w2)" by (rule pick_and_derive)
    with res show ?thesis by (simp add: btBuildUsername_def btBuildResidential_def)
  next
    case isp
    from isp(3) obtain c w1 i w2 where "pickCountry cs seed w = (Ret c, w1)"
      "deriveSessionID seed w1 = (Ret i, w2)" by (rule pick_and_derive)
    with isp show ?thesis by (simp add: btBuildUsername_def btBuildISP_def)
  next
    case dc
    from dc(3) obtain c w1 i w2 where "pickCountry cs seed w = (Ret c, w1)"
      "deriveSessionID seed w1 = (Ret i, w2)" by (rule pick_and_derive)
    with dc show ?thesis by (simp add: btBuildUsername_def btBuildDatacenter_def)
  next
    case other
    then show ?thesis by (simp add: btBuildUsername_def)
  qed
qed

interpretation bottingtools: proxy_source "BottingtoolsSource_Resolve fmt s" "\<lambda>_. wf_product (bt_product s)"
  for fmt s
proof
  fix w ctx req
  assume "wf_product (bt_product s)"
  from btBuildUsername_returns [OF this]
  obtain u w' where "btBuildUsername fmt (bt_accountUser s) (bt_product s) (GetMeta ctx) (GetSessionSeed ctx) w = (Ret u, w')"
    by blast
  then show "\<exists>p s'. BottingtoolsSource_Resolve fmt s ctx req w = (Ret (Some (Resolved p), None), s') \<and>
      wf_product (bt_product s)"
    using \<open>wf_product (bt_product s)\<close> by (simp add: BottingtoolsSource_Resolve_def)
qed

lemma ParseBottingtoolsProductConfig_wf:
  "ParseBottingtoolsProductConfig raw = Inr product \<Longrightarrow> length (rawCountries raw) < 2 ^ 63 \<Longrightarrow> wf_product product"
  by (auto simp: ParseBottingtoolsProductConfig_def Let_def split: if_splits option.splits)

text \<open>A Bottingtools source whose product came through ParseBottingtoolsProductConfig never
  panics: every request is answered with a proxy at the configured host, port 1337.\<close>

lemma Bottingtools_parsed_resolves:
  assumes "ParseBottingtoolsProductConfig raw = Inr (bt_product s)" and "length (rawCountries raw) < 2 ^ 63"
  shows "\<exists>p w'. BottingtoolsSource_Resolve fmt s ctx req w = (Ret (Some (Resolved p), None), w') \<and>
    pHost p = bt_host s \<and> pPort p = 1337"
proof -
  have wf: "wf_product (bt_product s)"
    using assms by (rule ParseBottingtoolsProductConfig_wf)
  obtain u w' where "btBuildUsername fmt (bt_accountUser s) (bt_product s) (GetMeta ctx) (GetSessionSeed ctx) w = (Ret u, w')"
    using btBuildUsername_returns [OF wf] by blast
  then show ?thesis
    by (simp add: BottingtoolsSource_Resolve_def)
qed

definition bt_raw_example :: BtRawProductConfig where
  "bt_raw_example = \<lparr>rawType = ''residential'', rawQuality = ''low'', rawCountries = [''US''], rawCity = ''nyc'', rawSessTime = 0\<rparr>"

lemma Bottingtools_parsed_resolves_witness:
  "\<exists>product p w'. ParseBottingtoolsProductConfig bt_raw_example = Inr product \<and>
     BottingtoolsSource_Resolve (\<lambda>_. '''') \<lparr>bt_accountUser = ''acc'', bt_password = ''pw'', bt_host = ''h'',
       bt_product = product\<rparr> background emptyRequest world0 = (Ret (Some (Resolved p), None), w') \<and> pPort p = 1337"
proof -
  obtain product where product: "ParseBottingtoolsProductConfig bt_raw_example = Inr product"
    by (simp add: ParseBottingtoolsProductConfig_def bt_raw_example_def Validate_def)
  from product Bottingtools_parsed_resolves [of bt_raw_example "\<lparr>bt_accountUser = ''acc'', bt_password = ''pw'',
      bt_host = ''h'', bt_product = product\<rparr>" "\<lambda>_. ''''" background emptyRequest world0]
  show ?thesis
    by (auto simp: bt_raw_example_def)
qed

text \<open>A Bottingtools configuration as the config file yields it, with a product type but none of
  the typed sections (they are excluded from decoding), makes every request panic with a nil
  dereference.\<close>

lemma Bottingtools_decoded_config_panics:
  assumes "NewBottingtoolsSource getenv cfg = Inr s"
    and "bpType (btProduct cfg) \<in> {''residential'', ''isp'', ''datacenter''}"
    and "bpResidential (btProduct cfg) = None" "bpISP (btProduct cfg) = None" "bpDatacenter (btProduct cfg) = None"
  shows "BottingtoolsSource_Resolve fmt s ctx req w = (Panicked NilDereference, w)"
  using assms
  by (auto simp: NewBottingtoolsSource_def BottingtoolsSource_Resolve_def btBuildUsername_def
      btBuildResidential_def btBuildISP_def btBuildDatacenter_def Let_def split: if_splits)

lemma Bottingtools_decoded_config_panics_witness:
  "\<exists>s. NewBottingtoolsSource (\<lambda>_. ''pw'') \<lparr>btUsername = ''acc'', btPasswordEnv = ''BT_PW'', btHost = ''h'',
      btProduct = \<lparr>bpType = ''isp'', bpResidential = None, bpISP = None, bpDatacenter = None\<rparr>\<rparr> = Inr s \<and>
    BottingtoolsSource_Resolve (\<lambda>_. '''') s background emptyRequest world0 = (Panicked NilDereference, world0)"
proof -
  let ?cfg = "\<lparr>btUsername = ''acc'', btPasswordEnv = ''BT_PW'', btHost = ''h'',
      btProduct = \<lparr>bpType = ''isp'', bpResidential = None, bpISP = None, bpDatacenter = None\<rparr>\<rparr>"
  obtain s where s: "NewBottingtoolsSource (\<lambda>_. ''pw'') ?cfg = Inr s"
    by (simp add: NewBottingtoolsSource_def)
  with Bottingtools_decoded_config_panics [OF s, of "\<lambda>_. ''''" background emptyRequest world0]
  show ?thesis by auto
qed

text \<open>With a session seed in the context both provider sources are reproducible: the answer does
  not depend on the random generator or the clock, and neither is consumed.\<close>

lemma providers_seeded_deterministic:
  assumes "GetSessionSeed ctx = Some sd"
  shows "GeonodeSource_Resolve g ctx req w = (fst (GeonodeSource_Resolve g ctx req w'), w) \<and>
    BottingtoolsSource_Resolve fmt b ctx req w = (fst (BottingtoolsSource_Resolve fmt b ctx req w'), w)"
  using gnBuildUsername_seeded [of "gn_config g" sd w w']
    btBuildUsername_seeded [of fmt "bt_accountUser b" "bt_product b" "GetMeta ctx" sd w w']
  by (simp add: GeonodeSource_Resolve_def BottingtoolsSource_Resolve_def assms split: prod.splits)

lemma providers_seeded_deterministic_witness:
  "fst (GeonodeSource_Resolve geonode_example (WithSessionSeed background (Some (NewSessionSeed 5 0))) emptyRequest world0) =
   fst (GeonodeSource_Resolve geonode_example (WithSessionSeed background (Some (NewSessionSeed 5 0))) emptyRequest
     (world0\<lparr>w_reads := 7\<rparr>))"
  using providers_seeded_deterministic [of "WithSessionSeed background (Some (NewSessionSeed 5 0))" "NewSessionSeed 5 0"
      geonode_example emptyRequest world0 "world0\<lparr>w_reads := 7\<rparr>"]
  by (metis ctx_frame_seed(1) fst_conv)

end
