(* ===== verification/Utf8.thy ===== *)
theory Utf8
  imports GoStrings
begin

text \<open>
  The package \<^verbatim>\<open>unicode/utf8\<close> of the standard library, as far as the JSON decoder of the user names
  uses it: \<^verbatim>\<open>DecodeRune\<close>, \<^verbatim>\<open>EncodeRune\<close> and \<^verbatim>\<open>Valid\<close>. Strings are byte strings, a rune is a number.
\<close>

section \<open>Encoding\<close>

definition RuneError :: nat where "RuneError = 0xFFFD"

definition is_surrogate :: "nat \<Rightarrow> bool" where
  "is_surrogate r \<longleftrightarrow> 0xD800 \<le> r \<and> r < 0xE000"

definition valid_rune :: "nat \<Rightarrow> bool" where
  "valid_rune r \<longleftrightarrow> r \<le> 0x10FFFF \<and> \<not> is_surrogate r"

definition encode_valid :: "nat \<Rightarrow> string" where
  "encode_valid r =
     (if r < 0x80 then [char_of r]
      else if r < 0x800 then [char_of (0xC0 + r div 64), char_of (0x80 + r mod 64)]
      else if r < 0x10000 then [char_of (0xE0 + r div 4096), char_of (0x80 + r div 64 mod 64), char_of (0x80 + r mod 64)]
      else [char_of (0xF0 + r div 262144), char_of (0x80 + r div 4096 mod 64), char_of (0x80 + r div 64 mod 64), char_of (0x80 + r mod 64)])"

definition EncodeRune :: "nat \<Rightarrow> string" where
  "EncodeRune r = encode_valid (if valid_rune r then r else RuneError)"

section \<open>Decoding\<close>

abbreviation byte :: "char \<Rightarrow> nat" where
  "byte c \<equiv> of_char c"

definition in_range :: "nat \<Rightarrow> nat \<Rightarrow> char \<Rightarrow> bool" where
  "in_range lo hi c \<longleftrightarrow> lo \<le> byte c \<and> byte c \<le> hi"

text \<open>The bounds of the second byte, by the first one: no overlong forms, no surrogates, nothing
  above U+10FFFF.\<close>

definition second_lo :: "nat \<Rightarrow> nat" where
  "second_lo b = (if b = 0xE0 then 0xA0 else if b = 0xF0 then 0x90 else 0x80)"

definition second_hi :: "nat \<Rightarrow> nat" where
  "second_hi b = (if b = 0xED then 0x9F else if b = 0xF4 then 0x8F else 0xBF)"

definition DecodeRune :: "string \<Rightarrow> nat \<times> nat" where
  "DecodeRune s =
     (case s of
        [] \<Rightarrow> (RuneError, 0)
      | c0 # t \<Rightarrow>
          let b0 = byte c0 in
          if b0 < 0x80 then (b0, 1)
          else if 0xC2 \<le> b0 \<and> b0 \<le> 0xDF then
            (case t of
               c1 # _ \<Rightarrow> if in_range 0x80 0xBF c1 then (b0 mod 32 * 64 + byte c1 mod 64, 2) else (RuneError, 1)
             | _ \<Rightarrow> (RuneError, 1))
          else if 0xE0 \<le> b0 \<and> b0 \<le> 0xEF then
            (case t of
               c1 # c2 # _ \<Rightarrow>
                 if in_range (second_lo b0) (second_hi b0) c1 \<and> in_range 0x80 0xBF c2
                 then (b0 mod 16 * 4096 + byte c1 mod 64 * 64 + byte c2 mod 64, 3) else (RuneError, 1)
             | _ \<Rightarrow> (RuneError, 1))
          else if 0xF0 \<le> b0 \<and> b0 \<le> 0xF4 then
            (case t of
               c1 # c2 # c3 # _ \<Rightarrow>
                 if in_range (second_lo b0) (second_hi b0) c1 \<and> in_range 0x80 0xBF c2 \<and> in_range 0x80 0xBF c3
                 then (b0 mod 8 * 262144 + byte c1 mod 64 * 4096 + byte c2 mod 64 * 64 + byte c3 mod 64, 4) else (RuneError, 1)
             | _ \<Rightarrow> (RuneError, 1))
          else (RuneError, 1))"

lemma DecodeRune_size: "0 < snd (DecodeRune (c # t)) \<and> snd (DecodeRune (c # t)) \<le> length (c # t)"
  by (auto simp: DecodeRune_def Let_def split: list.splits)

function utf8_Valid :: "string \<Rightarrow> bool" where
  "utf8_Valid s \<longleftrightarrow>
     (case s of
        [] \<Rightarrow> True
      | _ # _ \<Rightarrow> DecodeRune s \<noteq> (RuneError, 1) \<and> utf8_Valid (drop (snd (DecodeRune s)) s))"
  by pat_completeness auto
termination
proof (relation "measure length", goal_cases)
  case (2 s c t)
  then show ?case using DecodeRune_size [of c t] by simp
qed simp

declare utf8_Valid.simps [simp del]

section \<open>Both ways\<close>

text \<open>A rune that is read is written back as the bytes it was read from.\<close>

lemma char_of_byte: "byte c = n \<Longrightarrow> char_of n = c"
  by (metis char_of_char)

lemma digit_div_mod: "b < 64 \<Longrightarrow> (a * 64 + b) div 64 = a \<and> (a * 64 + b) mod 64 = (b :: nat)"
  by simp

lemma div_4096: "r div 4096 = r div 64 div (64 :: nat)"
  by (simp add: div_mult2_eq [symmetric])

lemma div_262144: "r div 262144 = r div 64 div 64 div (64 :: nat)"
  by (simp add: div_mult2_eq [symmetric])

lemmas rune_digits = digit_div_mod div_4096 div_262144

text \<open>The encoding of a rune given by its six-bit digits.\<close>

lemma encode_valid_2:
  assumes "2 \<le> a" and "a < 32" and "b < 64"
  shows "encode_valid (a * 64 + b) = [char_of (0xC0 + a), char_of (0x80 + b)]"
  using assms by (simp add: encode_valid_def)

lemma encode_valid_3:
  assumes "a < 16" and "b < 64" and "c < 64" and "0 < a \<or> 32 \<le> b"
  shows "encode_valid ((a * 64 + b) * 64 + c) = [char_of (0xE0 + a), char_of (0x80 + b), char_of (0x80 + c)]"
proof -
  have "0x800 \<le> (a * 64 + b) * 64 + c"
    using assms(4) by auto
  moreover have "(a * 64 + b) * 64 + c < 0x10000"
    using assms(1-3) by simp
  ultimately show ?thesis
    unfolding encode_valid_def rune_digits using digit_div_mod [OF assms(3), of "a * 64 + b"] digit_div_mod [OF assms(2), of a] by simp
qed

lemma encode_valid_4:
  assumes "a < 8" and "b < 64" and "c < 64" and "d < 64" and "0 < a \<or> 16 \<le> b"
  shows "encode_valid (((a * 64 + b) * 64 + c) * 64 + d) = [char_of (0xF0 + a), char_of (0x80 + b), char_of (0x80 + c), char_of (0x80 + d)]"
proof -
  have "0x10000 \<le> ((a * 64 + b) * 64 + c) * 64 + d"
    using assms(5) by auto
  then show ?thesis
    unfolding encode_valid_def rune_digits
    using digit_div_mod [OF assms(4), of "(a * 64 + b) * 64 + c"] digit_div_mod [OF assms(3), of "a * 64 + b"] digit_div_mod [OF assms(2), of a]
    by simp
qed

lemma rune_cases:
  assumes "valid_rune r"
  obtains (1) "r < 0x80"
    | (2) a b where "r = a * 64 + b" "2 \<le> a" "a < 32" "b < 64"
    | (3) a b c where "r = (a * 64 + b) * 64 + c" "a < 16" "b < 64" "c < 64" "0 < a \<or> 32 \<le> b" "a = 13 \<Longrightarrow> b < 32"
    | (4) a b c d where "r = ((a * 64 + b) * 64 + c) * 64 + d" "a < 5" "b < 64" "c < 64" "d < 64" "0 < a \<or> 16 \<le> b" "a = 4 \<Longrightarrow> b < 16"
proof -
  define a where "a = r div 64 div 64 div 64"
  obtain b c d where r: "r = ((a * 64 + b) * 64 + c) * 64 + d" "b < 64" "c < 64" "d < 64"
    using that by (metis a_def div_mult_mod_eq mod_less_divisor zero_less_numeral)
  consider "r < 0x80" | "0x80 \<le> r" "r < 0x800" | "0x800 \<le> r" "r < 0x10000" | "0x10000 \<le> r" "r < 0x110000"
    using assms by (force simp: valid_rune_def)
  then show thesis
  proof cases
    case 1
    then show thesis by (rule that(1))
  next
    case 2
    with r have "a = 0" "b = 0" by simp_all
    with 2 r show thesis by (intro that(2) [of c d]) auto
  next
    case 3
    with r have "a = 0" by simp
    moreover have "b = 13 \<Longrightarrow> c < 32"
      using assms r \<open>a = 0\<close> by (simp add: valid_rune_def is_surrogate_def)
    ultimately show thesis
      using 3 r by (intro that(3) [of b c d]) auto
  next
    case 4
    with r show thesis by (intro that(4) [of a b c d]) auto
  qed
qed

lemma marker_mod:
  "a < 32 \<Longrightarrow> (192 + a) mod 32 = (a :: nat)" "a < 16 \<Longrightarrow> (224 + a) mod 16 = (a :: nat)"
  "a < 8 \<Longrightarrow> (240 + a) mod 8 = (a :: nat)" "b < 64 \<Longrightarrow> (128 + b) mod 64 = (b :: nat)"
  using mod_mult_self3 [of 6 32 a] mod_mult_self3 [of 14 16 a] mod_mult_self3 [of 30 8 a] mod_mult_self3 [of 2 64 b] by simp_all

lemma DecodeRune_EncodeRune:
  assumes "valid_rune r"
  shows "DecodeRune (EncodeRune r @ t) = (r, length (EncodeRune r))"
proof -
  have "DecodeRune (encode_valid r @ t) = (r, length (encode_valid r))"
    using assms
  proof (cases rule: rune_cases)
    case 1
    then show ?thesis by (simp add: encode_valid_def DecodeRune_def)
  next
    case (2 a b)
    then show ?thesis
      unfolding 2(1) encode_valid_2 [OF 2(2-)] DecodeRune_def Let_def by (simp add: in_range_def marker_mod)
  next
    case (3 a b c)
    then show ?thesis
      unfolding 3(1) encode_valid_3 [OF 3(2-5)] DecodeRune_def Let_def by (auto simp: in_range_def second_lo_def second_hi_def marker_mod)
  next
    case (4 a b c d)
    then have "a < 8" by simp
    with 4 show ?thesis
      unfolding 4(1) encode_valid_4 [OF \<open>a < 8\<close> 4(3-6)] DecodeRune_def Let_def
      by (auto simp: in_range_def second_lo_def second_hi_def marker_mod)
  qed
  with assms show ?thesis by (simp add: EncodeRune_def)
qed

lemma marker_digit:
  "192 \<le> n \<Longrightarrow> n < 224 \<Longrightarrow> n mod 32 = n - (192 :: nat)" "224 \<le> n \<Longrightarrow> n < 240 \<Longrightarrow> n mod 16 = n - (224 :: nat)"
  "240 \<le> n \<Longrightarrow> n < 248 \<Longrightarrow> n mod 8 = n - (240 :: nat)" "128 \<le> n \<Longrightarrow> n < 192 \<Longrightarrow> n mod 64 = n - (128 :: nat)"
  using marker_mod(1) [of "n - 192"] marker_mod(2) [of "n - 224"] marker_mod(3) [of "n - 240"] marker_mod(4) [of "n - 128"] by simp_all

lemma valid_rune_3:
  assumes "a < 16" and "b < 64" and "c < 64" and "a < 13 \<or> 13 < a \<or> a = 13 \<and> b < 32"
  shows "valid_rune ((a * 64 + b) * 64 + c)"
  using assms(4) by (elim disjE) (use assms(1-3) in \<open>auto simp: valid_rune_def is_surrogate_def\<close>)

lemma valid_rune_4:
  assumes "b < 64" and "c < 64" and "d < 64" and "a < 4 \<or> a = 4 \<and> b < 16" and "0 < a \<or> 16 \<le> b"
  shows "valid_rune (((a * 64 + b) * 64 + c) * 64 + d)"
proof -
  have "((a * 64 + b) * 64 + c) * 64 + d \<le> 0x10FFFF"
    using assms(4) by (elim disjE) (use assms(1-3) in auto)
  moreover have "0x10000 \<le> ((a * 64 + b) * 64 + c) * 64 + d"
    using assms(5) by auto
  ultimately show ?thesis by (simp add: valid_rune_def is_surrogate_def)
qed

lemma decoded_2:
  assumes "0xC2 \<le> byte c0" and "byte c0 \<le> 0xDF" and "in_range 0x80 0xBF c1" and "r = byte c0 mod 32 * 64 + byte c1 mod 64"
  shows "valid_rune r \<and> encode_valid r = [c0, c1]"
proof -
  let ?a = "byte c0 - 192" and ?b = "byte c1 - 128"
  have d: "byte c0 mod 32 = ?a" "byte c1 mod 64 = ?b" "128 \<le> byte c1" "2 \<le> ?a" "?a < 32" "?b < 64"
    using assms(1-3) by (auto simp: in_range_def marker_digit)
  have r: "r = ?a * 64 + ?b" by (simp add: assms(4) d(1,2))
  have "encode_valid r = [char_of (0xC0 + ?a), char_of (0x80 + ?b)]"
    unfolding r by (intro encode_valid_2 d)
  moreover have "r < 2048" using d by (simp add: r)
  ultimately show ?thesis
    using d assms(1) by (simp add: valid_rune_def is_surrogate_def)
qed

lemma decoded_3:
  assumes "0xE0 \<le> byte c0" and "byte c0 \<le> 0xEF" and "in_range (second_lo (byte c0)) (second_hi (byte c0)) c1" and "in_range 0x80 0xBF c2"
    and "r = (byte c0 mod 16 * 64 + byte c1 mod 64) * 64 + byte c2 mod 64"
  shows "valid_rune r \<and> encode_valid r = [c0, c1, c2]"
proof -
  let ?a = "byte c0 - 224" and ?b = "byte c1 - 128" and ?c = "byte c2 - 128"
  have b: "128 \<le> byte c1" "byte c1 \<le> 191" "byte c0 = 224 \<Longrightarrow> 160 \<le> byte c1" "byte c0 = 237 \<Longrightarrow> byte c1 \<le> 159"
    using assms(3) by (auto simp: in_range_def second_lo_def second_hi_def split: if_splits)
  have d: "byte c0 mod 16 = ?a" "byte c1 mod 64 = ?b" "byte c2 mod 64 = ?c" "128 \<le> byte c2" "?b < 64" "?c < 64" "?a < 16"
    using assms(1,2,4) b by (auto simp: in_range_def marker_digit)
  have r: "r = (?a * 64 + ?b) * 64 + ?c" by (simp add: assms(5) d(1-3))
  have "encode_valid r = [char_of (0xE0 + ?a), char_of (0x80 + ?b), char_of (0x80 + ?c)]"
    unfolding r by (intro encode_valid_3 d) (use b assms(1) in linarith)
  moreover have "?a < 13 \<or> 13 < ?a \<or> ?a = 13 \<and> ?b < 32"
    using b(4) assms(1) by (cases "byte c0 = 237") auto
  then have "valid_rune r"
    unfolding r by (intro valid_rune_3 d)
  ultimately show ?thesis
    using d b assms(1) by simp
qed

lemma decoded_4:
  assumes "0xF0 \<le> byte c0" and "byte c0 \<le> 0xF4" and "in_range (second_lo (byte c0)) (second_hi (byte c0)) c1"
    and "in_range 0x80 0xBF c2" and "in_range 0x80 0xBF c3"
    and "r = ((byte c0 mod 8 * 64 + byte c1 mod 64) * 64 + byte c2 mod 64) * 64 + byte c3 mod 64"
  shows "valid_rune r \<and> encode_valid r = [c0, c1, c2, c3]"
proof -
  let ?a = "byte c0 - 240" and ?b = "byte c1 - 128" and ?c = "byte c2 - 128" and ?d = "byte c3 - 128"
  have b: "128 \<le> byte c1" "byte c1 \<le> 191" "byte c0 = 240 \<Longrightarrow> 144 \<le> byte c1" "byte c0 = 244 \<Longrightarrow> byte c1 \<le> 143"
    using assms(3) by (auto simp: in_range_def second_lo_def second_hi_def split: if_splits)
  have d: "byte c0 mod 8 = ?a" "byte c1 mod 64 = ?b" "byte c2 mod 64 = ?c" "byte c3 mod 64 = ?d" "128 \<le> byte c2" "128 \<le> byte c3"
    "?b < 64" "?c < 64" "?d < 64" "?a < 8"
    using assms(1,2,4,5) b by (auto simp: in_range_def marker_digit)
  have r: "r = ((?a * 64 + ?b) * 64 + ?c) * 64 + ?d" by (simp add: assms(6) d(1-4))
  have lo: "0 < ?a \<or> 16 \<le> ?b" using b assms(1) by linarith
  have "encode_valid r = [char_of (0xF0 + ?a), char_of (0x80 + ?b), char_of (0x80 + ?c), char_of (0x80 + ?d)]"
    unfolding r by (intro encode_valid_4 d lo)
  moreover have "?a < 4 \<or> ?a = 4 \<and> ?b < 16"
    using b(4) assms(1,2) by (cases "byte c0 = 244") auto
  then have "valid_rune r"
    unfolding r by (intro valid_rune_4 d lo)
  ultimately show ?thesis
    using d b assms(1) by simp
qed

lemma EncodeRune_DecodeRune:
  assumes "DecodeRune (c0 # t) = (r, n)" and "(r, n) \<noteq> (RuneError, 1)"
  shows "valid_rune r \<and> EncodeRune r = take n (c0 # t)"
proof -
  let ?b = "byte c0"
  consider "?b < 0x80" "r = ?b" "n = 1"
    | c1 u where "0xC2 \<le> ?b" "?b \<le> 0xDF" "t = c1 # u" "in_range 0x80 0xBF c1" "r = ?b mod 32 * 64 + byte c1 mod 64" "n = 2"
    | c1 c2 u where "0xE0 \<le> ?b" "?b \<le> 0xEF" "t = c1 # c2 # u" "in_range (second_lo ?b) (second_hi ?b) c1" "in_range 0x80 0xBF c2"
        "r = (?b mod 16 * 64 + byte c1 mod 64) * 64 + byte c2 mod 64" "n = 3"
    | c1 c2 c3 u where "0xF0 \<le> ?b" "?b \<le> 0xF4" "t = c1 # c2 # c3 # u" "in_range (second_lo ?b) (second_hi ?b) c1"
        "in_range 0x80 0xBF c2" "in_range 0x80 0xBF c3"
        "r = ((?b mod 8 * 64 + byte c1 mod 64) * 64 + byte c2 mod 64) * 64 + byte c3 mod 64" "n = 4"
    using assms by (auto simp: DecodeRune_def Let_def split: if_splits list.splits)
  then have "valid_rune r \<and> encode_valid r = take n (c0 # t)"
  proof cases
    case 1
    then show ?thesis by (simp add: valid_rune_def is_surrogate_def encode_valid_def)
  next
    case 2
    with decoded_2 [of c0] show ?thesis by simp
  next
    case 3
    with decoded_3 [of c0] show ?thesis by simp
  next
    case 4
    with decoded_4 [of c0] show ?thesis by simp
  qed
  then show ?thesis by (simp add: EncodeRune_def)
qed

section \<open>Valid strings\<close>

lemma EncodeRune_nonempty [simp]: "EncodeRune r \<noteq> []"
  by (simp add: EncodeRune_def encode_valid_def)

lemma valid_RuneError: "valid_rune RuneError"
  by (simp add: valid_rune_def is_surrogate_def RuneError_def)

lemma utf8_Valid_Nil [simp]: "utf8_Valid []"
  by (simp add: utf8_Valid.simps)

lemma length_encode_RuneError: "length (EncodeRune RuneError) = 3"
  by (simp add: EncodeRune_def valid_RuneError) (simp add: encode_valid_def RuneError_def)

lemma utf8_Valid_rune: "valid_rune r \<Longrightarrow> utf8_Valid (EncodeRune r @ t) = utf8_Valid t"
  using DecodeRune_EncodeRune [of r t] length_encode_RuneError
  by (subst utf8_Valid.simps) (auto split: list.split simp: append_eq_Cons_conv)

lemma utf8_Valid_EncodeRune [simp]: "utf8_Valid (EncodeRune r @ t) = utf8_Valid t"
proof (cases "valid_rune r")
  case False
  then have "EncodeRune r = EncodeRune RuneError"
    by (simp add: EncodeRune_def valid_RuneError)
  with utf8_Valid_rune [OF valid_RuneError] show ?thesis by simp
qed (rule utf8_Valid_rune)

text \<open>A valid string is a sequence of runes.\<close>

lemma utf8_Valid_induct [consumes 1, case_names Nil Rune]:
  assumes "utf8_Valid s" and "P []" and "\<And>r t. valid_rune r \<Longrightarrow> utf8_Valid t \<Longrightarrow> P t \<Longrightarrow> P (EncodeRune r @ t)"
  shows "P s"
  using assms(1)
proof (induction s rule: utf8_Valid.induct)
  case (1 s)
  show ?case
  proof (cases s)
    case (Cons c t)
    obtain r n where d: "DecodeRune s = (r, n)" by fastforce
    from 1(2) Cons d have "(r, n) \<noteq> (RuneError, 1)" and v: "utf8_Valid (drop n s)"
      by (simp_all add: utf8_Valid.simps [of "c # t"])
    with EncodeRune_DecodeRune [of c t r n] d Cons have r: "valid_rune r" "EncodeRune r = take n s" by auto
    have "P (drop n s)"
      using 1(1) [OF Cons] \<open>(r, n) \<noteq> (RuneError, 1)\<close> v d by simp
    from assms(3) [OF r(1) v this] show ?thesis by (simp add: r(2))
  qed (simp add: assms(2))
qed

lemma encode_ascii: "r < 0x80 \<Longrightarrow> EncodeRune r = [char_of r]"
  by (simp add: EncodeRune_def encode_valid_def valid_rune_def is_surrogate_def)

lemma encode_high:
  assumes "valid_rune r" and "0x80 \<le> r"
  shows "\<forall>c \<in> set (EncodeRune r). 0x80 \<le> byte c"
proof -
  have "\<forall>c \<in> set (encode_valid r). 0x80 \<le> byte c"
    using assms(1)
  proof (cases rule: rune_cases)
    case (2 a b)
    then show ?thesis unfolding 2(1) encode_valid_2 [OF 2(2-)] by simp
  next
    case (3 a b c)
    then show ?thesis unfolding 3(1) encode_valid_3 [OF 3(2-5)] by simp
  next
    case (4 a b c d)
    then have "a < 8" by simp
    with 4 show ?thesis unfolding 4(1) encode_valid_4 [OF \<open>a < 8\<close> 4(3-6)] by simp
  qed (use assms(2) in simp)
  with assms(1) show ?thesis by (simp add: EncodeRune_def)
qed

end
