(* ===== verification/Json.thy ===== *)
theory Json
  imports Core Utf8 "HOL-Library.AList" "HOL-Library.List_Lexorder" "HOL-Library.Char_ord"
begin

text \<open>
  The package \<^verbatim>\<open>encoding/json\<close> of the standard library, as the gateway uses it: \<^verbatim>\<open>Marshal\<close> of strings and of
  values that came out of \<^verbatim>\<open>Unmarshal\<close>, and \<^verbatim>\<open>Unmarshal\<close> of a text into such values. A text is parsed into a
  tree first (the scanner's grammar, its escapes, its limit on nesting); the decoders for a
  target type read the tree. The conversions between a \<^verbatim>\<open>float64\<close> and its decimal text are the parameters
  \<open>num\<close> and \<open>pf\<close> (\<^verbatim>\<open>strconv\<close>).
\<close>

section \<open>Writing\<close>

definition hex_digit :: "nat \<Rightarrow> char" where
  "hex_digit n = ''0123456789abcdef'' ! n"

definition backslash :: char where "backslash = CHR 92"
definition dquote :: char where "dquote = CHR 34"

text \<open>The escape of one byte below 128 (HTML escaping is on).\<close>

definition json_escape :: "char \<Rightarrow> string" where
  "json_escape c =
     (if c = dquote \<or> c = backslash then [backslash, c]
      else if c = CHR 8 then [backslash, CHR ''b'']
      else if c = CHR 12 then [backslash, CHR ''f'']
      else if c = CHR 10 then [backslash, CHR ''n'']
      else if c = CHR 13 then [backslash, CHR ''r'']
      else if c = CHR 9 then [backslash, CHR ''t'']
      else if (of_char c :: nat) < 32 \<or> c \<in> {CHR ''<'', CHR ''>'', CHR ''&''}
        then [backslash, CHR ''u'', CHR ''0'', CHR ''0'', hex_digit (of_char c div 16), hex_digit (of_char c mod 16)]
      else [c])"

text \<open>
  The body of a string literal: U+2028 and U+2029 are escaped, other multi-byte characters are
  copied, and a byte that is not UTF-8 is written as the escape of U+FFFD.
\<close>

function json_body :: "string \<Rightarrow> string" where
  "json_body [] = []"
| "json_body (c # cs) =
     (if byte c < 128 then json_escape c @ json_body cs
      else if DecodeRune (c # cs) = (RuneError, 1) then backslash # ''ufffd'' @ json_body cs
      else (if fst (DecodeRune (c # cs)) = 0x2028 then backslash # ''u2028''
            else if fst (DecodeRune (c # cs)) = 0x2029 then backslash # ''u2029''
            else take (snd (DecodeRune (c # cs))) (c # cs)) @ json_body (drop (snd (DecodeRune (c # cs))) (c # cs)))"
  by pat_completeness auto
termination
proof (relation "measure length", goal_cases)
  case (4 c cs)
  then show ?case using DecodeRune_size [of c cs] by simp
qed auto

declare json_body.simps(2) [simp del]

definition json_string :: "string \<Rightarrow> string" where
  "json_string s = dquote # json_body s @ [dquote]"

fun json_marshal :: "(u64 \<Rightarrow> string) \<Rightarrow> json \<Rightarrow> string"
  and json_marshal_list :: "(u64 \<Rightarrow> string) \<Rightarrow> json list \<Rightarrow> string list"
  and json_marshal_fields :: "(u64 \<Rightarrow> string) \<Rightarrow> (string \<times> json) list \<Rightarrow> (string \<times> string) list" where
  "json_marshal num JNull = ''null''"
| "json_marshal num (JBool b) = (if b then ''true'' else ''false'')"
| "json_marshal num (JNum x) = num x"
| "json_marshal num (JStr s) = json_string s"
| "json_marshal num (JArr xs) = ''['' @ str_Join (json_marshal_list num xs) '','' @ '']''"
| "json_marshal num (JObj fs) =
     ''{'' @ str_Join (map (\<lambda>(k, v). json_string k @ '':'' @ v) (sort_key fst (json_marshal_fields num fs))) '','' @ ''}''"
| "json_marshal_list num [] = []"
| "json_marshal_list num (x # xs) = json_marshal num x # json_marshal_list num xs"
| "json_marshal_fields num [] = []"
| "json_marshal_fields num ((k, v) # fs) = (k, json_marshal num v) # json_marshal_fields num fs"

section \<open>Reading strings\<close>

definition unhex :: "char \<Rightarrow> nat option" where
  "unhex c = (let n = byte c in
     if 48 \<le> n \<and> n \<le> 57 then Some (n - 48)
     else if 97 \<le> n \<and> n \<le> 102 then Some (n - 87)
     else if 65 \<le> n \<and> n \<le> 70 then Some (n - 55) else None)"

text \<open>\<^verbatim>\<open>getu4\<close>, on the text behind \<^verbatim>\<open>\\u\<close>.\<close>

definition getu4 :: "string \<Rightarrow> nat option" where
  "getu4 s =
     (case s of
        a # b # c # d # _ \<Rightarrow>
          (case (unhex a, unhex b, unhex c, unhex d) of
             (Some w, Some x, Some y, Some z) \<Rightarrow> Some (((w * 16 + x) * 16 + y) * 16 + z)
           | _ \<Rightarrow> None)
      | _ \<Rightarrow> None)"

definition unescape :: "char \<Rightarrow> char option" where
  "unescape e =
     (if e = dquote \<or> e = backslash \<or> e = CHR ''/'' then Some e
      else if e = CHR ''b'' then Some CHR 8 else if e = CHR ''f'' then Some CHR 12 else if e = CHR ''n'' then Some CHR 10
      else if e = CHR ''r'' then Some CHR 13 else if e = CHR ''t'' then Some CHR 9 else None)"

text \<open>\<^verbatim>\<open>utf16.DecodeRune\<close>: the rune of a surrogate pair.\<close>

definition utf16_pair :: "nat \<Rightarrow> nat \<Rightarrow> nat option" where
  "utf16_pair r1 r2 =
     (if 0xD800 \<le> r1 \<and> r1 < 0xDC00 \<and> 0xDC00 \<le> r2 \<and> r2 < 0xE000
      then Some ((r1 - 0xD800) * 1024 + (r2 - 0xDC00) + 0x10000) else None)"

definition low_half :: "nat \<Rightarrow> string \<Rightarrow> nat option" where
  "low_half r s =
     (case s of
        x # y # t \<Rightarrow> if x = backslash \<and> y = CHR ''u'' then Option.bind (getu4 t) (utf16_pair r) else None
      | _ \<Rightarrow> None)"

definition prepend :: "string \<Rightarrow> (string \<times> string) option \<Rightarrow> (string \<times> string) option" where
  "prepend s = map_option (apfst ((@) s))"

lemma prepend_simps [simp]: "prepend s None = None" "prepend s (Some (a, b)) = Some (s @ a, b)"
  by (simp_all add: prepend_def)

text \<open>
  The rest of a string literal up to its closing quote: control characters and unknown escapes
  are errors, a surrogate without its partner and a byte that is not UTF-8 become U+FFFD.
\<close>

function read_string :: "string \<Rightarrow> (string \<times> string) option" where
  "read_string [] = None"
| "read_string (c # t) =
     (if c = dquote then Some ([], t)
      else if c = backslash then
        (case t of
           [] \<Rightarrow> None
         | e # t1 \<Rightarrow>
             if e = CHR ''u'' then
               (case getu4 t1 of
                  None \<Rightarrow> None
                | Some r \<Rightarrow>
                    if is_surrogate r then
                      (case low_half r (drop 4 t1) of
                         Some d \<Rightarrow> prepend (EncodeRune d) (read_string (drop 10 t1))
                       | None \<Rightarrow> prepend (EncodeRune RuneError) (read_string (drop 4 t1)))
                    else prepend (EncodeRune r) (read_string (drop 4 t1)))
             else (case unescape e of None \<Rightarrow> None | Some d \<Rightarrow> prepend [d] (read_string t1)))
      else if byte c < 32 then None
      else if byte c < 128 then prepend [c] (read_string t)
      else prepend (EncodeRune (fst (DecodeRune (c # t)))) (read_string (drop (snd (DecodeRune (c # t))) (c # t))))"
  by pat_completeness auto
termination
proof (relation "measure length", goal_cases)
  case (7 c t)
  then show ?case using DecodeRune_size [of c t] by simp
qed auto

declare read_string.simps(2) [simp del]

section \<open>Reading numbers\<close>

definition read_int :: "string \<Rightarrow> (string \<times> string) option" where
  "read_int s =
     (case s of
        [] \<Rightarrow> None
      | c # t \<Rightarrow>
          if c = CHR ''0'' then Some ([c], t)
          else if is_digit c then Some (takeWhile is_digit s, dropWhile is_digit s)
          else None)"

definition read_digits :: "string \<Rightarrow> (string \<times> string) option" where
  "read_digits s = (if takeWhile is_digit s = [] then None else Some (takeWhile is_digit s, dropWhile is_digit s))"

definition read_frac :: "string \<Rightarrow> (string \<times> string) option" where
  "read_frac s =
     (case s of
        c # t \<Rightarrow> if c = CHR ''.'' then prepend [c] (read_digits t) else Some ([], s)
      | [] \<Rightarrow> Some ([], s))"

definition read_exp :: "string \<Rightarrow> (string \<times> string) option" where
  "read_exp s =
     (case s of
        c # t \<Rightarrow>
          if c = CHR ''e'' \<or> c = CHR ''E'' then
            (case t of
               x # u \<Rightarrow> if x = CHR ''+'' \<or> x = CHR ''-'' then prepend [c, x] (read_digits u) else prepend [c] (read_digits t)
             | [] \<Rightarrow> None)
          else Some ([], s)
      | [] \<Rightarrow> Some ([], s))"

definition read_unsigned :: "string \<Rightarrow> (string \<times> string) option" where
  "read_unsigned s =
     (case read_int s of
        None \<Rightarrow> None
      | Some (a, s1) \<Rightarrow>
          (case read_frac s1 of
             None \<Rightarrow> None
           | Some (b, s2) \<Rightarrow> prepend (a @ b) (read_exp s2)))"

definition read_number :: "string \<Rightarrow> (string \<times> string) option" where
  "read_number s =
     (case s of
        c # t \<Rightarrow> if c = CHR ''-'' then prepend [c] (read_unsigned t) else read_unsigned s
      | [] \<Rightarrow> None)"

section \<open>Reading values\<close>

datatype jtree =
    TNull
  | TBool bool
  | TNum string
  | TStr string
  | TArr "jtree list"
  | TObj "(string \<times> jtree) list"

definition json_space :: "char \<Rightarrow> bool" where
  "json_space c \<longleftrightarrow> c = CHR '' '' \<or> c = CHR 9 \<or> c = CHR 10 \<or> c = CHR 13"

definition skip_ws :: "string \<Rightarrow> string" where
  "skip_ws s = dropWhile json_space s"

text \<open>The items of an array or object behind its first bracket; the fuel is the number of items.\<close>

fun read_items :: "(string \<Rightarrow> ('a \<times> string) option) \<Rightarrow> char \<Rightarrow> nat \<Rightarrow> string \<Rightarrow> ('a list \<times> string) option" where
  "read_items p close 0 s = None"
| "read_items p close (Suc n) s =
     (case p s of
        None \<Rightarrow> None
      | Some (v, s1) \<Rightarrow>
          (case skip_ws s1 of
             [] \<Rightarrow> None
           | c # t \<Rightarrow>
               if c = close then Some ([v], t)
               else if c = CHR '','' then map_option (apfst ((#) v)) (read_items p close n t)
               else None))"

definition read_list :: "(string \<Rightarrow> ('a \<times> string) option) \<Rightarrow> char \<Rightarrow> string \<Rightarrow> ('a list \<times> string) option" where
  "read_list p close s =
     (case skip_ws s of
        [] \<Rightarrow> None
      | c # t \<Rightarrow> if c = close then Some ([], t) else read_items p close (length s) s)"

definition read_field :: "(string \<Rightarrow> ('a \<times> string) option) \<Rightarrow> string \<Rightarrow> ((string \<times> 'a) \<times> string) option" where
  "read_field p s =
     (case skip_ws s of
        [] \<Rightarrow> None
      | c # t \<Rightarrow>
          if c \<noteq> dquote then None
          else (case read_string t of
                  None \<Rightarrow> None
                | Some (k, t1) \<Rightarrow>
                    (case skip_ws t1 of
                       [] \<Rightarrow> None
                     | c1 # t2 \<Rightarrow> if c1 = CHR '':'' then map_option (apfst (Pair k)) (p t2) else None)))"

definition read_word :: "string \<Rightarrow> jtree \<Rightarrow> string \<Rightarrow> (jtree \<times> string) option" where
  "read_word w v s = map_option (Pair v) (CutPrefix s w)"

text \<open>A value; \<open>inner\<close> reads the values inside it, and is missing at the limit of nesting.\<close>

definition read_node :: "(string \<Rightarrow> (jtree \<times> string) option) option \<Rightarrow> string \<Rightarrow> (jtree \<times> string) option" where
  "read_node inner s =
     (case skip_ws s of
        [] \<Rightarrow> None
      | c # t \<Rightarrow>
          if c = CHR ''{'' then Option.bind inner (\<lambda>p. map_option (apfst TObj) (read_list (read_field p) CHR ''}'' t))
          else if c = CHR ''['' then Option.bind inner (\<lambda>p. map_option (apfst TArr) (read_list p CHR '']'' t))
          else if c = dquote then map_option (apfst TStr) (read_string t)
          else if c = CHR ''t'' then read_word ''true'' (TBool True) (c # t)
          else if c = CHR ''f'' then read_word ''false'' (TBool False) (c # t)
          else if c = CHR ''n'' then read_word ''null'' TNull (c # t)
          else map_option (apfst TNum) (read_number (c # t)))"

fun read_value :: "nat \<Rightarrow> string \<Rightarrow> (jtree \<times> string) option" where
  "read_value 0 s = read_node None s"
| "read_value (Suc d) s = read_node (Some (read_value d)) s"

definition maxNestingDepth :: nat where "maxNestingDepth = 10000"

definition parse_json :: "string \<Rightarrow> jtree option" where
  "parse_json s =
     (case read_value maxNestingDepth s of
        Some (v, rest) \<Rightarrow> if skip_ws rest = [] then Some v else None
      | None \<Rightarrow> None)"

section \<open>Strings read back\<close>

lemma unhex_digit: "n < 16 \<Longrightarrow> unhex (hex_digit n) = Some n"
proof -
  have "\<forall>n \<in> set [0..<16]. unhex (hex_digit n) = Some n" by code_simp
  then show "n < 16 \<Longrightarrow> unhex (hex_digit n) = Some n" by simp
qed

lemma quote_codes [simp]: "byte dquote = 34" "byte backslash = 92" "dquote \<noteq> backslash" "backslash \<noteq> dquote"
  by (simp_all add: dquote_def backslash_def)

lemma read_string_plain:
  assumes "c \<noteq> dquote" and "c \<noteq> backslash" and "32 \<le> byte c" and "byte c < 128"
  shows "read_string (c # t) = prepend [c] (read_string t)"
  using assms by (simp add: read_string.simps)

lemma read_string_unescape:
  "e \<noteq> CHR ''u'' \<Longrightarrow> unescape e = Some d \<Longrightarrow> read_string (backslash # e # t) = prepend [d] (read_string t)"
  by (simp add: read_string.simps)

lemma read_string_unicode:
  "getu4 h = Some r \<Longrightarrow> \<not> is_surrogate r \<Longrightarrow> read_string (backslash # CHR ''u'' # h) = prepend (EncodeRune r) (read_string (drop 4 h))"
  by (simp add: read_string.simps)

lemma read_string_rune:
  assumes "valid_rune r" and "0x80 \<le> r"
  shows "read_string (EncodeRune r @ t) = prepend (EncodeRune r) (read_string t)"
proof -
  obtain c u where c: "EncodeRune r = c # u"
    using EncodeRune_nonempty by (meson neq_Nil_conv)
  have "0x80 \<le> byte c"
    using encode_high [OF assms] c by simp
  then have "c \<noteq> dquote" "c \<noteq> backslash" "\<not> byte c < 128"
    by auto
  with DecodeRune_EncodeRune [OF assms(1), of t] c show ?thesis
    by (simp add: read_string.simps)
qed

lemma read_string_escape:
  assumes "byte c < 128"
  shows "read_string (json_escape c @ t) = prepend [c] (read_string t)"
proof -
  let ?a = "byte c div 16" and ?b = "byte c mod 16"
  have "getu4 (CHR ''0'' # CHR ''0'' # hex_digit ?a # hex_digit ?b # t) = Some (byte c)"
    using assms unhex_digit [of ?a] unhex_digit [of ?b] by (simp add: getu4_def less_mult_imp_div_less) (simp add: unhex_def)
  moreover have "\<not> is_surrogate (byte c)" "EncodeRune (byte c) = [c]"
    using assms by (simp_all add: is_surrogate_def encode_ascii)
  ultimately have esc: "read_string (backslash # CHR ''u'' # CHR ''0'' # CHR ''0'' # hex_digit ?a # hex_digit ?b # t) = prepend [c] (read_string t)"
    using read_string_unicode by fastforce
  have simple: "unescape CHR ''b'' = Some CHR 8" "unescape CHR ''f'' = Some CHR 12" "unescape CHR ''n'' = Some CHR 10"
    "unescape CHR ''r'' = Some CHR 13" "unescape CHR ''t'' = Some CHR 9" "unescape dquote = Some dquote" "unescape backslash = Some backslash"
    "dquote \<noteq> CHR ''u''" "backslash \<noteq> CHR ''u''"
    by (simp_all add: unescape_def dquote_def backslash_def)
  show ?thesis
    unfolding json_escape_def using esc assms simple by (auto simp: read_string_unescape read_string_plain)
qed

text \<open>How \<open>json_body\<close> writes one rune.\<close>

definition rune_text :: "nat \<Rightarrow> string" where
  "rune_text r =
     (if r < 0x80 then json_escape (char_of r)
      else if r = 0x2028 then backslash # ''u2028'' else if r = 0x2029 then backslash # ''u2029''
      else EncodeRune r)"

lemma json_body_rune:
  assumes "valid_rune r"
  shows "json_body (EncodeRune r @ t) = rune_text r @ json_body t"
proof (cases "r < 0x80")
  case True
  then show ?thesis by (simp add: encode_ascii rune_text_def json_body.simps)
next
  case False
  obtain c u where c: "EncodeRune r = c # u"
    using EncodeRune_nonempty by (meson neq_Nil_conv)
  have "\<not> byte c < 128"
    using encode_high [OF assms] False c by simp
  moreover have "DecodeRune (c # u @ t) = (r, Suc (length u))" "(r, Suc (length u)) \<noteq> (RuneError, 1)"
    using DecodeRune_EncodeRune [OF assms, of t] length_encode_RuneError c by auto
  ultimately show ?thesis
    using False by (auto simp: c rune_text_def json_body.simps)
qed

lemma read_string_rune_text:
  assumes "valid_rune r"
  shows "read_string (rune_text r @ t) = prepend (EncodeRune r) (read_string t)"
proof -
  have "getu4 (''2028'' @ t) = Some 0x2028" "getu4 (''2029'' @ t) = Some 0x2029"
    by (simp_all add: getu4_def unhex_def)
  moreover have "\<not> is_surrogate 0x2028" "\<not> is_surrogate 0x2029"
    by (simp_all add: is_surrogate_def)
  ultimately have "read_string (backslash # ''u2028'' @ t) = prepend (EncodeRune 0x2028) (read_string t)"
    "read_string (backslash # ''u2029'' @ t) = prepend (EncodeRune 0x2029) (read_string t)"
    using read_string_unicode by fastforce+
  then show ?thesis
    using assms read_string_escape [of "char_of r" t] read_string_rune [OF assms, of t]
    by (auto simp: rune_text_def encode_ascii)
qed

lemma prepend_append: "prepend a (prepend b x) = prepend (a @ b) x"
  by (cases x) auto

lemma read_string_json:
  assumes "utf8_Valid s"
  shows "read_string (json_body s @ dquote # t) = Some (s, t)"
  using assms
  by (induction rule: utf8_Valid_induct) (simp_all add: read_string.simps(2) json_body_rune read_string_rune_text)

end
