(* ===== verification/JsonParser.thy ===== *)
theory JsonParser
  imports Json
begin

text \<open>
  What the JSON parser accepts and returns: it reads back every tree that is written, its strings
  are valid UTF-8, every value takes input, and the fuel of its loop over items is enough.
\<close>

section \<open>Number texts\<close>

text \<open>What can follow a value: the end, a separator, a bracket or white space.\<close>

definition stops :: "string \<Rightarrow> bool" where
  "stops t \<longleftrightarrow> t = [] \<or> hd t \<in> set '',]}'' \<or> json_space (hd t)"

lemma stops_simps [simp]: "stops []" "stops (CHR '','' # t)" "stops (CHR '']'' # t)" "stops (CHR ''}'' # t)"
  by (simp_all add: stops_def)

definition number_char :: "char \<Rightarrow> bool" where
  "number_char c \<longleftrightarrow> c \<in> set ''0123456789+-.eE''"

lemma stops_no_number: "stops t \<Longrightarrow> t = [] \<or> \<not> number_char (hd t)"
  by (auto simp: stops_def number_char_def json_space_def)

lemma is_digit_number [simp]: "is_digit c \<Longrightarrow> number_char c"
  by (auto simp: is_digit_def number_char_def)

definition valid_number :: "string \<Rightarrow> bool" where
  "valid_number s \<longleftrightarrow> read_number s = Some (s, [])"

lemma while_append:
  assumes "dropWhile P s = [] \<Longrightarrow> t = [] \<or> \<not> P (hd t)"
  shows "takeWhile P (s @ t) = takeWhile P s \<and> dropWhile P (s @ t) = dropWhile P s @ t"
proof (cases "dropWhile P s = []")
  case True
  then have "\<forall>x \<in> set s. P x" by (simp add: dropWhile_eq_Nil_conv)
  moreover have "takeWhile P t = []" "dropWhile P t = t" using assms True by (cases t; simp)+
  ultimately show ?thesis by (simp add: takeWhile_append2 dropWhile_append2 takeWhile_eq_all_conv [THEN iffD2])
next
  case False
  then obtain x where "x \<in> set s" "\<not> P x" by (auto simp: dropWhile_eq_Nil_conv)
  then show ?thesis by (simp add: takeWhile_append1 dropWhile_append1)
qed

text \<open>A part of a number is read the same way in front of more text, unless that text continues it.\<close>

definition extends :: "(string \<Rightarrow> (string \<times> string) option) \<Rightarrow> bool" where
  "extends f \<longleftrightarrow> (\<forall>s a r t. f s = Some (a, r) \<longrightarrow> (r = [] \<longrightarrow> t = [] \<or> \<not> number_char (hd t)) \<longrightarrow> f (s @ t) = Some (a, r @ t))"

lemma extendsD: "extends f \<Longrightarrow> f s = Some (a, r) \<Longrightarrow> (r = [] \<Longrightarrow> t = [] \<or> \<not> number_char (hd t)) \<Longrightarrow> f (s @ t) = Some (a, r @ t)"
  by (simp add: extends_def)

lemma digits_append:
  assumes "dropWhile is_digit s = [] \<Longrightarrow> t = [] \<or> \<not> number_char (hd t)"
  shows "takeWhile is_digit (s @ t) = takeWhile is_digit s \<and> dropWhile is_digit (s @ t) = dropWhile is_digit s @ t"
  using assms by (intro while_append) auto

lemma extends_int: "extends read_int"
  unfolding extends_def
proof (intro allI impI)
  fix s a r t
  assume s: "read_int s = Some (a, r)" and t: "r = [] \<longrightarrow> t = [] \<or> \<not> number_char (hd t)"
  then obtain c u where c: "s = c # u" by (auto simp: read_int_def split: list.splits)
  show "read_int (s @ t) = Some (a, r @ t)"
    using s t digits_append [of s t] by (auto simp: read_int_def c split: if_splits)
qed

lemma extends_digits: "extends read_digits"
  unfolding extends_def read_digits_def using digits_append by (auto split: if_splits)

lemma prepend_eq_Some: "prepend x y = Some (a, r) \<longleftrightarrow> (\<exists>b. y = Some (b, r) \<and> a = x @ b)"
  by (cases y) auto

lemma number_punct [simp]: "number_char CHR ''0''" "number_char CHR ''.''" "number_char CHR ''e''" "number_char CHR ''E''" "number_char CHR ''+''" "number_char CHR ''-''"
  by (simp_all add: number_char_def)

lemma extends_frac: "extends read_frac"
  unfolding extends_def
proof (intro allI impI)
  fix s a r t
  assume s: "read_frac s = Some (a, r)" and t: "r = [] \<longrightarrow> t = [] \<or> \<not> number_char (hd t)"
  show "read_frac (s @ t) = Some (a, r @ t)"
  proof (cases s)
    case Nil
    with s t show ?thesis by (cases t) (auto simp: read_frac_def)
  next
    case (Cons c u)
    with s t extendsD [OF extends_digits, of u _ r t] show ?thesis
      by (auto simp: read_frac_def prepend_eq_Some split: if_splits)
  qed
qed

lemma extends_exp: "extends read_exp"
  unfolding extends_def
proof (intro allI impI)
  fix s a r t
  assume s: "read_exp s = Some (a, r)" and t: "r = [] \<longrightarrow> t = [] \<or> \<not> number_char (hd t)"
  note digits = extendsD [OF extends_digits, of _ _ r t]
  show "read_exp (s @ t) = Some (a, r @ t)"
  proof (cases s)
    case Nil
    with s t show ?thesis by (cases t) (auto simp: read_exp_def)
  next
    case (Cons c u)
    show ?thesis
    proof (cases u)
      case Nil
      with Cons s t show ?thesis by (auto simp: read_exp_def split: if_splits)
    next
      case u: (Cons x v)
      with Cons s t digits [of v] digits [of u] show ?thesis
        by (auto simp: read_exp_def prepend_eq_Some split: if_splits)
    qed
  qed
qed

lemma extends_unsigned: "extends read_unsigned"
  unfolding extends_def
proof (intro allI impI)
  fix s a r t
  assume "read_unsigned s = Some (a, r)" and t: "r = [] \<longrightarrow> t = [] \<or> \<not> number_char (hd t)"
  then obtain i s1 f s2 e where parts: "read_int s = Some (i, s1)" "read_frac s1 = Some (f, s2)" "read_exp s2 = Some (e, r)"
    and a: "a = (i @ f) @ e"
    by (auto simp: read_unsigned_def prepend_eq_Some split: option.splits)
  have "s2 = [] \<Longrightarrow> r = []" "s1 = [] \<Longrightarrow> s2 = []"
    using parts by (auto simp: read_frac_def read_exp_def)
  with t parts extendsD [OF extends_int parts(1), of t] extendsD [OF extends_frac parts(2), of t] extendsD [OF extends_exp parts(3), of t]
  show "read_unsigned (s @ t) = Some (a, r @ t)"
    by (simp add: read_unsigned_def a)
qed

lemma read_number_append:
  assumes "valid_number s" and "stops t"
  shows "read_number (s @ t) = Some (s, t)"
proof (cases s)
  case Nil
  with assms(1) show ?thesis by (simp add: valid_number_def read_number_def)
next
  case (Cons c u)
  with assms(1) stops_no_number [OF assms(2)] extendsD [OF extends_unsigned, of s s "[]" t] extendsD [OF extends_unsigned, of u u "[]" t] show ?thesis
    by (auto simp: valid_number_def read_number_def prepend_eq_Some split: if_splits)
qed

lemma valid_number_start:
  assumes "valid_number s"
  shows "s \<noteq> [] \<and> (hd s = CHR ''-'' \<or> is_digit (hd s))"
  using assms by (auto simp: valid_number_def read_number_def read_unsigned_def read_int_def is_digit_def split: list.splits if_splits option.splits)

lemma takeWhile_digits: "list_all number_char (takeWhile is_digit x)"
  by (auto simp: list_all_iff dest: set_takeWhileD)

lemma digits_chars: "read_digits x = Some (a, r) \<Longrightarrow> list_all number_char a"
  using takeWhile_digits by (auto simp: read_digits_def split: if_splits)

lemma int_chars: "read_int x = Some (a, r) \<Longrightarrow> list_all number_char a"
  using takeWhile_digits [of x] by (auto simp: read_int_def split: list.splits if_splits)

lemma frac_chars: "read_frac x = Some (a, r) \<Longrightarrow> list_all number_char a"
  by (auto simp: read_frac_def prepend_eq_Some intro: digits_chars split: list.splits if_splits)

lemma exp_chars: "read_exp x = Some (a, r) \<Longrightarrow> list_all number_char a"
  by (auto simp: read_exp_def prepend_eq_Some intro: digits_chars split: list.splits if_splits)

lemma unsigned_chars:
  assumes "read_unsigned x = Some (a, r)"
  shows "list_all number_char a"
proof -
  obtain i s1 f s2 e where "read_int x = Some (i, s1)" "read_frac s1 = Some (f, s2)" "read_exp s2 = Some (e, r)" "a = (i @ f) @ e"
    using assms by (auto simp: read_unsigned_def prepend_eq_Some split: option.splits)
  with int_chars [of x i s1] frac_chars [of s1 f s2] exp_chars [of s2 e r] show ?thesis by simp
qed

lemma valid_number_chars:
  assumes "valid_number s"
  shows "\<forall>c \<in> set s. number_char c"
proof (cases s)
  case (Cons c t)
  with assms unsigned_chars [of s s "[]"] unsigned_chars [of t t "[]"] have "list_all number_char s"
    by (auto simp: valid_number_def read_number_def prepend_eq_Some split: if_splits)
  then show ?thesis by (simp add: list_all_iff)
qed simp

section \<open>Texts of trees\<close>

fun tree_text :: "jtree \<Rightarrow> string" where
  "tree_text TNull = ''null''"
| "tree_text (TBool b) = (if b then ''true'' else ''false'')"
| "tree_text (TNum s) = s"
| "tree_text (TStr s) = json_string s"
| "tree_text (TArr xs) = ''['' @ str_Join (map tree_text xs) '','' @ '']''"
| "tree_text (TObj fs) = ''{'' @ str_Join (map (\<lambda>f. json_string (fst f) @ '':'' @ tree_text (snd f)) fs) '','' @ ''}''"

text \<open>
  The trees the parser can return at a limit of nesting: valid UTF-8 in strings and keys, and
  numbers of the class \<open>N\<close>.
\<close>

fun node_ok :: "(string \<Rightarrow> bool) \<Rightarrow> (jtree \<Rightarrow> bool) option \<Rightarrow> jtree \<Rightarrow> bool" where
  "node_ok N inner (TNum s) = N s"
| "node_ok N inner (TStr s) = utf8_Valid s"
| "node_ok N inner (TArr xs) = (case inner of None \<Rightarrow> False | Some p \<Rightarrow> list_all p xs)"
| "node_ok N inner (TObj fs) = (case inner of None \<Rightarrow> False | Some p \<Rightarrow> list_all (\<lambda>f. utf8_Valid (fst f) \<and> p (snd f)) fs)"
| "node_ok N inner _ = True"

fun tree_ok :: "(string \<Rightarrow> bool) \<Rightarrow> nat \<Rightarrow> jtree \<Rightarrow> bool" where
  "tree_ok N 0 v = node_ok N None v"
| "tree_ok N (Suc d) v = node_ok N (Some (tree_ok N d)) v"

section \<open>Readers\<close>

text \<open>
  A reader inverts a way of writing items: in front of anything that stops a value it reads back
  the item and leaves the rest. Lists of items and fields of objects are then read back as well.
\<close>

locale reader =
  fixes rd :: "string \<Rightarrow> ('a \<times> string) option"
    and wr :: "'a \<Rightarrow> string"
    and ok :: "'a \<Rightarrow> bool"
  assumes reads: "ok x \<Longrightarrow> stops t \<Longrightarrow> rd (wr x @ t) = Some (x, t)"
    and starts: "ok x \<Longrightarrow> wr x \<noteq> [] \<and> \<not> stops (wr x)"
begin

lemma skip_item: "ok x \<Longrightarrow> skip_ws (wr x @ t) = wr x @ t"
  using starts [of x] by (cases "wr x") (auto simp: skip_ws_def stops_def)

lemma items_read:
  assumes "list_all ok xs" and "xs \<noteq> []" and "length xs \<le> n" and "close \<in> set '']}''"
  shows "read_items rd close n (str_Join (map wr xs) '','' @ close # t) = Some (xs, t)"
  using assms(1-3)
proof (induction xs arbitrary: n)
  case (Cons x xs)
  then obtain k where n: "n = Suc k" by (cases n) auto
  have skip: "skip_ws (c # u) = c # u" if "c \<in> set '',]}''" for c u
    using that by (auto simp: skip_ws_def json_space_def)
  show ?case
  proof (cases xs)
    case Nil
    with Cons.prems assms(4) reads [of x "close # t"] skip [of close] show ?thesis
      by (auto simp: n)
  next
    case (Cons y ys)
    let ?rest = "str_Join (map wr xs) '','' @ close # t"
    have "str_Join (map wr (x # xs)) '','' @ close # t = wr x @ CHR '','' # ?rest"
      by (simp add: Cons)
    moreover have "rd (wr x @ CHR '','' # ?rest) = Some (x, CHR '','' # ?rest)"
      using Cons.prems(1) by (intro reads) simp_all
    moreover have "read_items rd close k ?rest = Some (xs, t)"
      using Cons.prems Cons n by (intro Cons.IH) auto
    ultimately show ?thesis
      using assms(4) skip [of "CHR '',''"] by (auto simp: n)
  qed
qed simp

lemma join_length: "list_all ok xs \<Longrightarrow> length xs \<le> length (str_Join (map wr xs) sep)"
proof (induction xs)
  case (Cons x xs)
  with starts [of x] obtain c u where "wr x = c # u" by (cases "wr x") auto
  with Cons show ?case by (auto simp: str_Join_Cons)
qed simp

lemma list_read:
  assumes "list_all ok xs" and "close \<in> set '']}''"
  shows "read_list rd close (str_Join (map wr xs) '','' @ close # t) = Some (xs, t)"
proof (cases xs)
  case Nil
  with assms(2) show ?thesis by (auto simp: read_list_def skip_ws_def json_space_def)
next
  case (Cons x ys)
  define s where "s = str_Join (map wr xs) '','' @ close # t"
  obtain u where u: "s = wr x @ u"
    by (auto simp: s_def Cons str_Join_Cons)
  have x: "ok x" using assms(1) Cons by simp
  have "length xs \<le> length s"
    using join_length [OF assms(1), of "'',''"] by (simp add: s_def)
  then have "read_items rd close (length s) s = Some (xs, t)"
    unfolding s_def using assms Cons by (intro items_read) auto
  moreover have "skip_ws s = s" "s \<noteq> []" "hd s \<noteq> close"
    using skip_item [OF x, of u] starts [OF x] assms(2) by (auto simp: u stops_def)
  ultimately show ?thesis
    unfolding s_def [symmetric] by (cases s) (auto simp: read_list_def)
qed

end

lemma skip_plain: "skip_ws (c # t) = c # t" if "\<not> json_space c"
  using that by (simp add: skip_ws_def)

lemma quote_plain [simp]: "\<not> json_space dquote" "\<not> stops (dquote # t)"
  by (simp_all add: json_space_def stops_def dquote_def)

lemma field_reader:
  assumes "reader rd wr ok"
  shows "reader (read_field rd) (\<lambda>f. json_string (fst f) @ '':'' @ wr (snd f)) (\<lambda>f. utf8_Valid (fst f) \<and> ok (snd f))"
proof
  fix f t
  assume f: "utf8_Valid (fst f) \<and> ok (snd f)" and t: "stops t"
  have "rd (wr (snd f) @ t) = Some (snd f, t)"
    using f t by (intro reader.reads [OF assms]) auto
  moreover have "skip_ws (CHR '':'' # u) = CHR '':'' # u" for u
    by (rule skip_plain) (simp add: json_space_def)
  ultimately show "read_field rd ((json_string (fst f) @ '':'' @ wr (snd f)) @ t) = Some (f, t)"
    using f read_string_json [of "fst f" "CHR '':'' # wr (snd f) @ t"]
    by (simp add: read_field_def json_string_def skip_plain)
qed (simp add: json_string_def)

section \<open>The parser reads back what is written\<close>

lemma read_word_text: "read_word w v (w @ t) = Some (v, t)"
  by (simp add: read_word_def)

lemma number_start_plain:
  assumes "valid_number s"
  shows "\<not> stops s \<and> skip_ws (s @ t) = s @ t \<and> hd s \<notin> set ''{[tfn'' \<and> hd s \<noteq> dquote"
proof -
  from valid_number_start [OF assms] have "s \<noteq> []" "hd s \<in> set ''-0123456789''"
    by (auto simp: is_digit_def)
  then show ?thesis
    by (cases s) (auto simp: stops_def skip_ws_def json_space_def dquote_def)
qed

lemma node_reader:
  assumes "case inner of None \<Rightarrow> fits = None | Some p \<Rightarrow> \<exists>q. fits = Some q \<and> reader p tree_text q"
  shows "reader (read_node inner) tree_text (node_ok valid_number fits)"
proof
  fix v t
  assume v: "node_ok valid_number fits v" and t: "stops t"
  show "read_node inner (tree_text v @ t) = Some (v, t)"
  proof (cases v)
    case TNull
    then show ?thesis using read_word_text [of "''null''" TNull t] by (simp add: read_node_def skip_plain json_space_def dquote_def)
  next
    case (TBool b)
    then show ?thesis using read_word_text [of "''true''" "TBool True" t] read_word_text [of "''false''" "TBool False" t]
      by (cases b) (simp_all add: read_node_def skip_plain json_space_def dquote_def)
  next
    case (TNum s)
    with v have s: "valid_number s" by simp
    obtain c u where "s = c # u" using valid_number_start [OF s] by (cases s) auto
    with number_start_plain [OF s, of t] read_number_append [OF s t] TNum show ?thesis
      by (simp add: read_node_def)
  next
    case (TStr s)
    with v read_string_json [of s t] show ?thesis
      by (simp add: read_node_def json_string_def skip_plain) (simp add: dquote_def)
  next
    case (TArr xs)
    with v assms obtain p q where p: "inner = Some p" "fits = Some q" "reader p tree_text q"
      by (cases inner; cases fits) auto
    with v TArr reader.list_read [OF p(3), of xs "CHR '']''" t] show ?thesis
      by (simp add: read_node_def skip_plain json_space_def)
  next
    case (TObj fs)
    with v assms obtain p q where p: "inner = Some p" "fits = Some q" "reader p tree_text q"
      by (cases inner; cases fits) auto
    with v TObj reader.list_read [OF field_reader [OF p(3)], of fs "CHR ''}''" t] show ?thesis
      by (simp add: read_node_def skip_plain json_space_def)
  qed
next
  fix v
  assume "node_ok valid_number fits v"
  then show "tree_text v \<noteq> [] \<and> \<not> stops (tree_text v)"
    using valid_number_start number_start_plain
    by (cases v) (auto simp: json_string_def stops_def json_space_def dquote_def)
qed

lemma tree_reader: "reader (read_value d) tree_text (tree_ok valid_number d)"
proof (induction d)
  case 0
  have "read_value 0 = read_node None" "tree_ok valid_number 0 = node_ok valid_number None"
    by (simp_all add: fun_eq_iff)
  then show ?case using node_reader [of None None] by simp
next
  case (Suc d)
  have "read_value (Suc d) = read_node (Some (read_value d))" "tree_ok valid_number (Suc d) = node_ok valid_number (Some (tree_ok valid_number d))"
    by (simp_all add: fun_eq_iff)
  then show ?case using node_reader [where inner = "Some (read_value d)" and fits = "Some (tree_ok valid_number d)"] Suc by simp
qed

interpretation tree: reader "read_value d" tree_text "tree_ok valid_number d" for d
  by (rule tree_reader)

interpretation json_codec: codec tree_text parse_json "tree_ok valid_number maxNestingDepth"
proof
  fix v
  assume "tree_ok valid_number maxNestingDepth v"
  from tree.reads [OF this, of "[]"] show "parse_json (tree_text v) = Some v"
    by (simp add: parse_json_def skip_ws_def)
qed

section \<open>What the parser returns\<close>

lemma utf8_Valid_ascii: "byte c < 128 \<Longrightarrow> utf8_Valid (c # t) = utf8_Valid t"
  using utf8_Valid_EncodeRune [of "byte c" t] by (simp add: encode_ascii)

lemma unescape_ascii: "unescape e = Some d \<Longrightarrow> byte d < 128"
  by (auto simp: unescape_def split: if_splits)

lemma read_string_valid: "read_string s = Some (a, r) \<Longrightarrow> utf8_Valid a"
proof (induction s arbitrary: a r rule: measure_induct_rule [of length])
  case (less s)
  show ?case
  proof (cases s)
    case (Cons c t)
    have valid: "utf8_Valid b" if "read_string y = Some (b, r)" and "length y < length s" for y b
      using less.IH that by blast
    have "length (drop (snd (DecodeRune s)) s) < length s"
      using DecodeRune_size [of c t] by (simp add: Cons)
    with less.prems Cons valid show ?thesis
      by (auto simp: read_string.simps(2) prepend_eq_Some utf8_Valid_ascii [OF unescape_ascii] utf8_Valid_ascii
          split: if_splits list.splits option.splits)
  qed (use less.prems in simp)
qed

text \<open>Every value a reader returns has the property.\<close>

definition yields :: "(string \<Rightarrow> ('a \<times> string) option) \<Rightarrow> ('a \<Rightarrow> bool) \<Rightarrow> bool" where
  "yields rd P \<longleftrightarrow> (\<forall>s v r. rd s = Some (v, r) \<longrightarrow> P v)"

lemma yieldsD: "yields rd P \<Longrightarrow> rd s = Some (v, r) \<Longrightarrow> P v"
  by (auto simp: yields_def)

lemma read_items_yields:
  assumes "yields rd P"
  shows "read_items rd close n s = Some (vs, r) \<Longrightarrow> list_all P vs"
proof (induction n arbitrary: s vs)
  case (Suc n)
  obtain v t where "rd s = Some (v, t)"
    using Suc.prems by (auto split: option.splits)
  moreover from this have "P v" by (rule yieldsD [OF assms])
  ultimately show ?case
    using Suc by (auto split: list.splits if_splits)
qed simp

lemma read_list_yields: "yields rd P \<Longrightarrow> read_list rd close s = Some (vs, r) \<Longrightarrow> list_all P vs"
  using read_items_yields [of rd P close "length s" s vs r] by (auto simp: read_list_def split: list.splits if_splits)

lemma read_field_yields: "yields rd P \<Longrightarrow> yields (read_field rd) (\<lambda>f. utf8_Valid (fst f) \<and> P (snd f))"
  unfolding yields_def [of "read_field rd"]
  by (auto simp: read_field_def dest: yieldsD read_string_valid split: list.splits if_splits option.splits)

lemma read_node_yields:
  assumes "case inner of None \<Rightarrow> fits = None | Some p \<Rightarrow> \<exists>q. fits = Some q \<and> yields p q"
  shows "yields (read_node inner) (node_ok (\<lambda>_. True) fits)"
  unfolding yields_def [of "read_node inner"] using assms
  by (auto simp: read_node_def read_word_def Option.bind_eq_Some_conv split: list.splits if_splits option.splits
      dest: read_string_valid read_list_yields read_list_yields [OF read_field_yields])

lemma read_value_yields: "yields (read_value d) (tree_ok (\<lambda>_. True) d)"
proof (induction d)
  case 0
  then show ?case using read_node_yields [of None None] by (simp add: yields_def)
next
  case (Suc d)
  then show ?case using read_node_yields [where inner = "Some (read_value d)" and fits = "Some (tree_ok (\<lambda>_. True) d)"]
    by (simp add: yields_def)
qed

lemma parse_json_ok: "parse_json s = Some v \<Longrightarrow> tree_ok (\<lambda>_. True) maxNestingDepth v"
  by (auto simp: parse_json_def dest: yieldsD [OF read_value_yields] split: option.splits if_splits)

text \<open>The fuel of \<open>read_items\<close> is enough: a reader that consumes input never runs out of it.\<close>

definition consumes :: "(string \<Rightarrow> ('a \<times> string) option) \<Rightarrow> bool" where
  "consumes rd \<longleftrightarrow> (\<forall>s v r. rd s = Some (v, r) \<longrightarrow> length r < length s)"

lemma consumesD: "consumes rd \<Longrightarrow> rd s = Some (v, r) \<Longrightarrow> length r < length s"
  by (auto simp: consumes_def)

lemma length_skip_ws: "length (skip_ws s) \<le> length s"
  by (simp add: skip_ws_def length_dropWhile_le)

lemma read_items_fuel:
  assumes "consumes rd"
  shows "length s \<le> n \<Longrightarrow> read_items rd close n s = read_items rd close (length s) s"
proof (induction n arbitrary: s rule: less_induct)
  case (less n)
  show ?case
  proof (cases "rd s")
    case None
    then show ?thesis by (cases n; cases "length s") simp_all
  next
    case (Some vr)
    obtain v r where vr: "vr = (v, r)" by fastforce
    have r: "length r < length s" using consumesD [OF assms] Some vr by simp
    then obtain k l where n: "n = Suc k" "length s = Suc l" using less.prems by (cases n; cases "length s") auto
    have "read_items rd close k t = read_items rd close l t" if "skip_ws r = c # t" for c t
    proof -
      have "length t < length s - 1" using that length_skip_ws [of r] r n by simp
      then have "length t \<le> l" "length t \<le> k" "l < n" "k < n" using less.prems n by simp_all
      then show ?thesis using less.IH [of l t] less.IH [of k t] by simp
    qed
    then show ?thesis
      unfolding n by (auto simp: Some vr split: list.split)
  qed
qed

lemma consumes_string: "read_string s = Some (a, r) \<Longrightarrow> length r < length s"
proof (induction s arbitrary: a r rule: measure_induct_rule [of length])
  case (less s)
  show ?case
  proof (cases s)
    case (Cons c t)
    have shorter: "length r < length y" if "read_string y = Some (b, r)" and "length y < length s" for y b
      using less.IH that by blast
    have "length (drop (snd (DecodeRune s)) s) < length s"
      using DecodeRune_size [of c t] by (simp add: Cons)
    with less.prems Cons show ?thesis
      by (auto simp: read_string.simps(2) prepend_eq_Some dest!: shorter [rotated, rotated 1]
          split: if_splits list.splits option.splits)
  qed (use less.prems in simp)
qed

lemma read_unsigned_consumes: "read_unsigned s = Some (a, r) \<Longrightarrow> length r < length s"
proof -
  have dw: "length (dropWhile P x) \<le> length x" for P :: "char \<Rightarrow> bool" and x by (rule length_dropWhile_le)
  have digits: "length r \<le> length x" if "read_digits x = Some (b, r)" for x b r
    using that dw by (auto simp: read_digits_def split: if_splits)
  have frac: "length r \<le> length x" if "read_frac x = Some (b, r)" for x b r
    using that by (auto simp: read_frac_def prepend_eq_Some split: list.splits if_splits dest: digits)
  have exp: "length r \<le> length x" if "read_exp x = Some (b, r)" for x b r
    using that by (auto simp: read_exp_def prepend_eq_Some split: list.splits if_splits dest: digits)
  have "length r < length x" if "read_int x = Some (b, r)" for x b r
    using that dw [of is_digit] by (auto simp: read_int_def le_imp_less_Suc split: list.splits if_splits)
  then show "read_unsigned s = Some (a, r) \<Longrightarrow> length r < length s"
    by (fastforce simp: read_unsigned_def prepend_eq_Some split: option.splits dest: frac exp)
qed

lemma read_number_consumes: "read_number s = Some (a, r) \<Longrightarrow> length r < length s"
  by (auto simp: read_number_def prepend_eq_Some split: list.splits if_splits dest: read_unsigned_consumes)

lemma read_list_consumes:
  assumes "consumes rd" and "read_list rd close s = Some (vs, r)"
  shows "length r < length s"
proof -
  have items: "length r < length s" if "read_items rd close n s = Some (vs, r)" for n s vs
    using that
  proof (induction n arbitrary: s vs)
    case (Suc n)
    obtain v t where v: "rd s = Some (v, t)"
      using Suc.prems by (auto split: option.splits)
    note consumesD [OF assms(1) v] length_skip_ws [of t]
    with Suc v show ?case
      by (fastforce split: list.splits if_splits)
  qed simp
  then show ?thesis
    using assms(2) length_skip_ws [of s] by (auto simp: read_list_def split: list.splits if_splits)
qed

lemma skip_ws_shorter: "skip_ws s = c # t \<Longrightarrow> length t < length s"
  using length_skip_ws [of s] by simp

lemma read_field_consumes: "consumes rd \<Longrightarrow> consumes (read_field rd)"
  unfolding consumes_def [of "read_field rd"]
  by (fastforce simp: read_field_def split: list.splits if_splits option.splits
      dest: consumesD consumes_string skip_ws_shorter)

lemma read_node_consumes:
  assumes "\<And>p. inner = Some p \<Longrightarrow> consumes p"
  shows "consumes (read_node inner)"
  unfolding consumes_def
proof (intro allI impI)
  fix s v r
  assume rd: "read_node inner s = Some (v, r)"
  then obtain c t where c: "skip_ws s = c # t" by (auto simp: read_node_def split: list.splits)
  have lists: "length x < length t" if "inner = Some p" "read_list p close t = Some (vs, x)" for p close vs x
    using read_list_consumes [OF assms] that by blast
  have objs: "length x < length t" if "inner = Some p" "read_list (read_field p) close t = Some (vs, x)" for p close vs x
    using read_list_consumes [OF read_field_consumes [OF assms]] that by blast
  have words: "length x < length u" if "read_word w y u = Some (z, x)" "w \<noteq> []" "u \<noteq> []" for w y z x u
    using that by (auto simp: read_word_def CutPrefix_def split: if_splits)
  from rd c have "length r < length (c # t)"
    by (auto simp: read_node_def Option.bind_eq_Some_conv split: if_splits
        dest: lists objs consumes_string read_number_consumes dest!: words)
  then show "length r < length s"
    using length_skip_ws [of s] c by simp
qed

lemma read_value_consumes: "consumes (read_value d)"
proof (induction d)
  case 0
  then show ?case using read_node_consumes [of None] by (simp add: consumes_def)
next
  case (Suc d)
  then show ?case using read_node_consumes [of "Some (read_value d)"] by (simp add: consumes_def)
qed

lemma read_list_fuel:
  "length s \<le> n \<Longrightarrow> read_items (read_value d) close n s = read_items (read_value d) close (length s) s"
  "length s \<le> n \<Longrightarrow> read_items (read_field (read_value d)) close n s = read_items (read_field (read_value d)) close (length s) s"
  by (rule read_items_fuel, rule read_value_consumes, assumption)
    (rule read_items_fuel, rule read_field_consumes, rule read_value_consumes, assumption)

end
