(* ===== verification/JsonValues.thy ===== *)
theory JsonValues
  imports JsonParser
begin

text \<open>
  The values behind JSON texts: the conversion of a tree into the values of \<^verbatim>\<open>interface{}\<close>, their
  well-formedness, equality up to the order of fields, and that \<^verbatim>\<open>Unmarshal\<close> inverts \<^verbatim>\<open>Marshal\<close>.
\<close>

section \<open>Values\<close>

text \<open>The result of \<^verbatim>\<open>Unmarshal\<close> into an \<^verbatim>\<open>interface{}\<close>: a later field replaces an earlier one of the same name, and
  a number out of the range of \<^verbatim>\<open>float64\<close> is an error.\<close>

definition obj_of :: "(string \<times> 'a) list \<Rightarrow> (string \<times> 'a) list \<Rightarrow> (string \<times> 'a) list" where
  "obj_of m kvs = fold (\<lambda>f. AList.update (fst f) (snd f)) kvs m"

fun to_json :: "(string \<Rightarrow> u64 option) \<Rightarrow> jtree \<Rightarrow> json option" where
  "to_json pf TNull = Some JNull"
| "to_json pf (TBool b) = Some (JBool b)"
| "to_json pf (TNum s) = map_option JNum (pf s)"
| "to_json pf (TStr s) = Some (JStr s)"
| "to_json pf (TArr xs) = map_option JArr (those (map (to_json pf) xs))"
| "to_json pf (TObj fs) = map_option (\<lambda>kvs. JObj (obj_of [] kvs)) (those (map (\<lambda>f. map_option (Pair (fst f)) (to_json pf (snd f))) fs))"

text \<open>A \<^verbatim>\<open>float64\<close> that is a number, by its bits: the exponent is not all ones.\<close>

definition finite64 :: "u64 \<Rightarrow> bool" where
  "finite64 x \<longleftrightarrow> unat x div 2 ^ 52 mod 2 ^ 11 \<noteq> 2047"

fun value_ok :: "(json \<Rightarrow> bool) option \<Rightarrow> json \<Rightarrow> bool" where
  "value_ok inner (JNum x) = finite64 x"
| "value_ok inner (JStr s) = utf8_Valid s"
| "value_ok inner (JArr xs) = (case inner of None \<Rightarrow> False | Some p \<Rightarrow> list_all p xs)"
| "value_ok inner (JObj fs) = (case inner of None \<Rightarrow> False | Some p \<Rightarrow>
     distinct (map fst fs) \<and> list_all (\<lambda>f. utf8_Valid (fst f) \<and> p (snd f)) fs)"
| "value_ok inner _ = True"

text \<open>Well-formed values of nesting at most \<open>d\<close>: finite numbers, valid strings, distinct keys.\<close>

fun json_ok :: "nat \<Rightarrow> json \<Rightarrow> bool" where
  "json_ok 0 v = value_ok None v"
| "json_ok (Suc d) v = value_ok (Some (json_ok d)) v"

text \<open>What is relied on of the conversions of numbers: parsing yields finite numbers, and reads back
  the text of every finite number.\<close>

definition float_parser :: "(string \<Rightarrow> u64 option) \<Rightarrow> bool" where
  "float_parser pf \<longleftrightarrow> (\<forall>s x. pf s = Some x \<longrightarrow> finite64 x)"

definition float_text :: "(string \<Rightarrow> u64 option) \<Rightarrow> (u64 \<Rightarrow> string) \<Rightarrow> bool" where
  "float_text pf num \<longleftrightarrow> (\<forall>x. finite64 x \<longrightarrow> valid_number (num x) \<and> pf (num x) = Some x)"

lemma those_eq_Some: "those xs = Some ys \<longleftrightarrow> xs = map Some ys"
  by (induction xs arbitrary: ys) (auto split: option.splits simp: Cons_eq_map_conv)

lemma those_map: "those (map f xs) = Some ys \<Longrightarrow> y \<in> set ys \<Longrightarrow> \<exists>x \<in> set xs. f x = Some y"
  unfolding those_eq_Some by (metis (no_types, lifting) image_iff list.set_map)

lemma obj_of_Nil [simp]: "obj_of m [] = m"
  by (simp add: obj_of_def)

lemma obj_of_Cons [simp]: "obj_of m (f # kvs) = obj_of (AList.update (fst f) (snd f) m) kvs"
  by (simp add: obj_of_def)

lemma obj_of_distinct: "distinct (map fst m) \<Longrightarrow> distinct (map fst (obj_of m kvs))"
  by (induction kvs arbitrary: m) (simp_all add: distinct_update)

lemma update_set: "set (AList.update k v m) \<subseteq> insert (k, v) (set m)"
  by (induction m) auto

lemma obj_of_set: "set (obj_of m kvs) \<subseteq> set m \<union> set kvs"
proof (induction kvs arbitrary: m)
  case (Cons f kvs)
  from Cons [of "AList.update (fst f) (snd f) m"] update_set [of "fst f" "snd f" m] show ?case by auto
qed simp

lemma obj_of_map_of: "map_of (obj_of m kvs) = map_of m ++ map_of (rev kvs)"
  by (induction kvs arbitrary: m) (auto simp: update_conv' map_add_def fun_eq_iff split: option.splits)

lemma update_fresh: "k \<notin> fst ` set m \<Longrightarrow> AList.update k v m = m @ [(k, v)]"
  by (induction m) auto

lemma obj_of_fresh: "distinct (map fst (m @ kvs)) \<Longrightarrow> obj_of m kvs = m @ kvs"
proof (induction kvs arbitrary: m)
  case (Cons f kvs)
  have "AList.update (fst f) (snd f) m = m @ [f]"
    using Cons.prems by (subst update_fresh) auto
  with Cons show ?case by simp
qed simp

lemma to_json_node_ok:
  assumes "float_parser pf" and "node_ok N fits v" and "to_json pf v = Some j"
    and "case fits of None \<Rightarrow> inner = None | Some q \<Rightarrow> \<exists>p. inner = Some p \<and> (\<forall>v j. q v \<longrightarrow> to_json pf v = Some j \<longrightarrow> p j)"
  shows "value_ok inner j"
proof (cases v)
  case (TNum s)
  with assms show ?thesis by (auto simp: float_parser_def)
next
  case (TArr xs)
  with assms(2,4) obtain q p where q: "fits = Some q" "inner = Some p" "\<forall>v j. q v \<longrightarrow> to_json pf v = Some j \<longrightarrow> p j" "list_all q xs"
    by (cases fits) auto
  with assms(3) TArr show ?thesis by (fastforce simp: list_all_iff dest: those_map)
next
  case (TObj fs)
  with assms(2,4) obtain q p where q: "fits = Some q" "inner = Some p" "\<forall>v j. q v \<longrightarrow> to_json pf v = Some j \<longrightarrow> p j"
    "list_all (\<lambda>f. utf8_Valid (fst f) \<and> q (snd f)) fs"
    by (cases fits) auto
  obtain kvs where kvs: "those (map (\<lambda>f. map_option (Pair (fst f)) (to_json pf (snd f))) fs) = Some kvs" "j = JObj (obj_of [] kvs)"
    using assms(3) TObj by auto
  have "utf8_Valid (fst f) \<and> p (snd f)" if "f \<in> set kvs" for f
    using those_map [OF kvs(1) that] q(3,4) by (auto simp: list_all_iff)
  with obj_of_set [of "[]" kvs] have "list_all (\<lambda>f. utf8_Valid (fst f) \<and> p (snd f)) (obj_of [] kvs)"
    by (auto simp: list_all_iff)
  with kvs(2) q(2) obj_of_distinct [of "[]" kvs] show ?thesis by simp
qed (use assms in auto)

lemma to_json_ok:
  assumes "float_parser pf"
  shows "tree_ok N d v \<Longrightarrow> to_json pf v = Some j \<Longrightarrow> json_ok d j"
proof (induction d arbitrary: v j)
  case 0
  then show ?case using to_json_node_ok [OF assms, of N None v j None] by simp
next
  case (Suc d)
  then show ?case using to_json_node_ok [OF assms, of N "Some (tree_ok N d)" v j "Some (json_ok d)"] by simp
qed

section \<open>Canonical form\<close>

text \<open>A Go map has no order; its model is a list of fields. Two values are the same value if their
  forms with sorted fields are equal.\<close>

fun canon_json :: "json \<Rightarrow> json" where
  "canon_json (JArr xs) = JArr (map canon_json xs)"
| "canon_json (JObj fs) = JObj (sort_key fst (map (\<lambda>f. (fst f, canon_json (snd f))) fs))"
| "canon_json v = v"

definition same_json :: "json \<Rightarrow> json \<Rightarrow> bool" where
  "same_json v w \<longleftrightarrow> canon_json v = canon_json w"

text \<open>The tree of a value, fields in order.\<close>

fun tree_of :: "(u64 \<Rightarrow> string) \<Rightarrow> json \<Rightarrow> jtree" where
  "tree_of num JNull = TNull"
| "tree_of num (JBool b) = TBool b"
| "tree_of num (JNum x) = TNum (num x)"
| "tree_of num (JStr s) = TStr s"
| "tree_of num (JArr xs) = TArr (map (tree_of num) xs)"
| "tree_of num (JObj fs) = TObj (map (\<lambda>f. (fst f, tree_of num (snd f))) fs)"

lemma map_insort_key: "(\<And>x. k' (f x) = k x) \<Longrightarrow> map f (insort_key k x xs) = insort_key k' (f x) (map f xs)"
  by (induction xs) simp_all

lemma map_sort_key: "(\<And>x. k' (f x) = k x) \<Longrightarrow> map f (sort_key k xs) = sort_key k' (map f xs)"
  by (induction xs) (simp_all add: map_insort_key [of k' f k])

lemma distinct_sort_key_fst: "distinct (map fst (sort_key fst fs)) \<longleftrightarrow> distinct (map fst fs)"
  by (simp add: map_sort_key [where k' = "\<lambda>x. x"])

lemma marshal_fields: "json_marshal_fields num fs = map (\<lambda>f. (fst f, json_marshal num (snd f))) fs"
  by (induction fs) auto

lemma marshal_list: "json_marshal_list num xs = map (json_marshal num) xs"
  by (induction xs) auto

lemma json_marshal_tree: "json_marshal num v = tree_text (tree_of num (canon_json v))"
proof (induction v rule: canon_json.induct)
  case (1 xs)
  then have "map (json_marshal num) xs = map (tree_text \<circ> (tree_of num \<circ> canon_json)) xs"
    by simp
  then show ?case by (simp only: json_marshal.simps marshal_list canon_json.simps tree_of.simps tree_text.simps map_map o_assoc)
next
  case (2 fs)
  let ?t = "\<lambda>f. json_string (fst f) @ '':'' @ tree_text (tree_of num (snd f))"
  have "map (\<lambda>(k, v). json_string k @ '':'' @ v) (sort_key fst (map (\<lambda>f. (fst f, json_marshal num (snd f))) fs)) =
      map ((\<lambda>(k, v). json_string k @ '':'' @ v) \<circ> (\<lambda>f. (fst f, json_marshal num (snd f)))) (sort_key fst fs)"
    by (simp flip: map_sort_key [where k = fst and k' = fst and f = "\<lambda>f. (fst f, json_marshal num (snd f))"])
  also have "\<dots> = map (?t \<circ> (\<lambda>f. (fst f, canon_json (snd f)))) (sort_key fst fs)"
    using 2 by (auto simp: set_sort)
  also have "\<dots> = map ?t (sort_key fst (map (\<lambda>f. (fst f, canon_json (snd f))) fs))"
    by (simp flip: map_sort_key [where k = fst and k' = fst and f = "\<lambda>f. (fst f, canon_json (snd f))"])
  finally show ?case
    by (simp add: marshal_fields o_def)
qed simp_all

section \<open>Reading back\<close>

lemma tree_of_node:
  assumes "float_text pf num" and "value_ok inner v"
    and "case inner of None \<Rightarrow> fits = None | Some p \<Rightarrow> \<exists>q. fits = Some q \<and> (\<forall>v. p v \<longrightarrow> q (tree_of num v) \<and> to_json pf (tree_of num v) = Some v)"
  shows "node_ok valid_number fits (tree_of num v) \<and> to_json pf (tree_of num v) = Some v"
proof (cases v)
  case (JNum x)
  with assms show ?thesis by (simp add: float_text_def)
next
  case (JArr xs)
  with assms(2,3) obtain p q where p: "inner = Some p" "fits = Some q" "list_all p xs"
    "\<forall>v. p v \<longrightarrow> q (tree_of num v) \<and> to_json pf (tree_of num v) = Some v"
    by (cases inner) auto
  then have "map (to_json pf) (map (tree_of num) xs) = map Some xs"
    by (auto simp: list_all_iff)
  then have "those (map (to_json pf) (map (tree_of num) xs)) = Some xs"
    by (simp only: those_eq_Some)
  with p JArr show ?thesis by (auto simp: list_all_iff)
next
  case (JObj fs)
  with assms(2,3) obtain p q where p: "inner = Some p" "fits = Some q" "list_all (\<lambda>f. utf8_Valid (fst f) \<and> p (snd f)) fs"
    "distinct (map fst fs)" "\<forall>v. p v \<longrightarrow> q (tree_of num v) \<and> to_json pf (tree_of num v) = Some v"
    by (cases inner) auto
  let ?g = "\<lambda>f. map_option (Pair (fst f)) (to_json pf (snd f))"
  have "map ?g (map (\<lambda>f. (fst f, tree_of num (snd f))) fs) = map Some fs"
    using p by (auto simp: list_all_iff)
  then have "those (map ?g (map (\<lambda>f. (fst f, tree_of num (snd f))) fs)) = Some fs"
    by (simp only: those_eq_Some)
  with p JObj obj_of_fresh [of "[]" fs] show ?thesis by (auto simp: list_all_iff)
qed (use assms in simp_all)

lemma tree_of_ok:
  assumes "float_text pf num"
  shows "json_ok d v \<Longrightarrow> tree_ok valid_number d (tree_of num v) \<and> to_json pf (tree_of num v) = Some v"
proof (induction d arbitrary: v)
  case 0
  then show ?case using tree_of_node [OF assms, of None v None] by simp
next
  case (Suc d)
  then show ?case using tree_of_node [OF assms, of "Some (json_ok d)" v "Some (tree_ok valid_number d)"] by simp
qed

lemma canon_value_ok:
  assumes "value_ok inner v" and "\<And>p w. inner = Some p \<Longrightarrow> p w \<Longrightarrow> p (canon_json w)"
  shows "value_ok inner (canon_json v)"
proof (cases v)
  case (JObj fs)
  with assms show ?thesis
    by (auto simp: list_all_iff set_sort distinct_sort_key_fst o_def split: option.splits)
qed (use assms in \<open>auto simp: list_all_iff split: option.splits\<close>)

lemma canon_json_ok: "json_ok d v \<Longrightarrow> json_ok d (canon_json v)"
proof (induction d arbitrary: v)
  case 0
  then show ?case using canon_value_ok [of None v] by simp
next
  case (Suc d)
  then show ?case using canon_value_ok [of "Some (json_ok d)" v] by auto
qed

text \<open>\<^verbatim>\<open>Unmarshal\<close> inverts \<^verbatim>\<open>Marshal\<close>, up to the order of fields.\<close>

lemma Unmarshal_Marshal:
  assumes "float_text pf num" and "json_ok maxNestingDepth v"
  shows "Option.bind (parse_json (json_marshal num v)) (to_json pf) = Some (canon_json v)"
  using tree_of_ok [OF assms(1) canon_json_ok [OF assms(2)]]
  by (simp add: json_marshal_tree json_codec.dec_enc)

text \<open>The text of a value determines it, whatever its depth.\<close>

lemma json_marshal_eq_iff:
  assumes "float_text pf num" and "json_ok d v" and "json_ok d w"
  shows "json_marshal num v = json_marshal num w \<longleftrightarrow> same_json v w"
proof
  assume "json_marshal num v = json_marshal num w"
  then have "read_value d (tree_text (tree_of num (canon_json v)) @ []) = read_value d (tree_text (tree_of num (canon_json w)) @ [])"
    by (simp add: json_marshal_tree)
  moreover note tree_of_ok [OF assms(1) canon_json_ok [OF assms(2)]] tree_of_ok [OF assms(1) canon_json_ok [OF assms(3)]]
  ultimately show "same_json v w"
    using tree.reads [of d _ "[]"] unfolding same_json_def by (metis fst_conv option.inject stops_simps(1))
qed (simp add: same_json_def json_marshal_tree)

text \<open>Objects are the same if they have the same keys with the same values.\<close>

lemma map_of_map_snd: "map_of (map (\<lambda>f. (fst f, g (snd f))) fs) k = map_option g (map_of fs k)"
  by (induction fs) auto

lemma canon_fields:
  assumes "distinct (map fst fs)"
  shows "map_of (sort_key fst (map (\<lambda>f. (fst f, canon_json (snd f))) fs)) k = map_option canon_json (map_of fs k)"
proof -
  have "map_of (sort_key fst (map (\<lambda>f. (fst f, canon_json (snd f))) fs)) = map_of (map (\<lambda>f. (fst f, canon_json (snd f))) fs)"
    using assms by (intro map_of_inject_set [THEN iffD2]) (simp_all add: distinct_sort_key_fst o_def)
  then show ?thesis
    by (simp add: map_of_map_snd)
qed

lemma sorted_fields_eq:
  assumes "sorted (map fst fs)" and "sorted (map fst gs)" and "distinct (map fst fs)" and "distinct (map fst gs)" and "map_of fs = map_of gs"
  shows "fs = (gs :: (string \<times> 'a) list)"
proof -
  have "set fs = set gs"
    using assms(3-5) by (simp add: map_of_inject_set)
  moreover from assms(3) have "inj_on fst (set fs)"
    by (simp add: distinct_map)
  ultimately show ?thesis
    using assms by (intro map_sorted_distinct_set_unique [of fst]) simp_all
qed

lemma same_json_obj:
  assumes "distinct (map fst fs)" and "distinct (map fst gs)"
  shows "same_json (JObj fs) (JObj gs) \<longleftrightarrow> (\<forall>k. map_option canon_json (map_of fs k) = map_option canon_json (map_of gs k))"
proof
  assume "same_json (JObj fs) (JObj gs)"
  then show "\<forall>k. map_option canon_json (map_of fs k) = map_option canon_json (map_of gs k)"
    by (simp add: same_json_def flip: canon_fields [OF assms(1)] canon_fields [OF assms(2)])
next
  assume "\<forall>k. map_option canon_json (map_of fs k) = map_option canon_json (map_of gs k)"
  then have "map_of (sort_key fst (map (\<lambda>f. (fst f, canon_json (snd f))) fs)) = map_of (sort_key fst (map (\<lambda>f. (fst f, canon_json (snd f))) gs))"
    by (simp add: fun_eq_iff canon_fields [OF assms(1)] canon_fields [OF assms(2)])
  then show "same_json (JObj fs) (JObj gs)"
    using assms by (auto simp: same_json_def distinct_sort_key_fst o_def intro!: sorted_fields_eq)
qed

text \<open>No text of a value contains a zero byte.\<close>

lemma hex_digit_no_nul: "n < 16 \<Longrightarrow> hex_digit n \<noteq> CHR 0x00"
proof -
  have "\<forall>n \<in> set [0..<16]. hex_digit n \<noteq> CHR 0x00" by code_simp
  then show "n < 16 \<Longrightarrow> hex_digit n \<noteq> CHR 0x00" by simp
qed

lemma json_escape_no_nul: "CHR 0x00 \<notin> set (json_escape c)"
proof -
  have "hex_digit (of_char c div 16) \<noteq> CHR 0x00" "hex_digit (of_char c mod 16) \<noteq> CHR 0x00"
    using nat_of_char_less_256 [of c] by (simp_all add: hex_digit_no_nul less_mult_imp_div_less)
  moreover have "c \<noteq> CHR 0x00" if "\<not> (of_char c :: nat) < 32"
    using that by (cases "c = CHR 0x00") simp_all
  ultimately show ?thesis
    unfolding json_escape_def by (simp add: backslash_def dquote_def eq_commute [of "CHR 0x00"])
qed

lemma rune_text_no_nul:
  assumes "valid_rune r"
  shows "CHR 0x00 \<notin> set (rune_text r)"
proof -
  have "CHR 0x00 \<notin> set (EncodeRune r)" if "\<not> r < 0x80"
    using encode_high [OF assms] that by fastforce
  then show ?thesis
    using json_escape_no_nul [of "char_of r"] by (simp add: rune_text_def backslash_def)
qed

lemma json_string_no_nul: "utf8_Valid s \<Longrightarrow> CHR 0x00 \<notin> set (json_string s)"
proof -
  assume "utf8_Valid s"
  then have "CHR 0x00 \<notin> set (json_body s)"
    by (induction rule: utf8_Valid_induct) (simp_all add: json_body_rune rune_text_no_nul)
  then show ?thesis by (simp add: json_string_def dquote_def)
qed

lemma str_Join_set: "set (str_Join xs sep) \<subseteq> \<Union> (set ` set xs) \<union> set sep"
  by (induction xs sep rule: str_Join.induct) auto

lemma valid_number_no_nul: "valid_number s \<Longrightarrow> CHR 0x00 \<notin> set s"
proof -
  have "\<not> number_char CHR 0x00" by (simp add: number_char_def)
  then show "valid_number s \<Longrightarrow> CHR 0x00 \<notin> set s" by (auto dest: valid_number_chars)
qed

lemma tree_text_no_nul: "tree_ok valid_number d v \<Longrightarrow> CHR 0x00 \<notin> set (tree_text v)"
proof (induction d arbitrary: v)
  case 0
  then show ?case
    by (cases v) (auto simp: json_string_no_nul dest: valid_number_no_nul)
next
  case (Suc d)
  show ?case
  proof (cases v)
    case (TArr xs)
    with Suc str_Join_set [of "map tree_text xs" "'',''"] show ?thesis
      by (fastforce simp: list_all_iff)
  next
    case (TObj fs)
    have "CHR 0x00 \<notin> set (json_string (fst f) @ '':'' @ tree_text (snd f))" if "f \<in> set fs" for f
      using that Suc TObj by (auto simp: list_all_iff json_string_no_nul)
    with TObj str_Join_set [of "map (\<lambda>f. json_string (fst f) @ '':'' @ tree_text (snd f)) fs" "'',''"] show ?thesis
      by fastforce
  qed (use Suc.prems in \<open>auto simp: json_string_no_nul dest: valid_number_no_nul\<close>)
qed

lemma json_marshal_no_nul: "float_text pf num \<Longrightarrow> json_ok d v \<Longrightarrow> CHR 0x00 \<notin> set (json_marshal num v)"
  using tree_of_ok canon_json_ok tree_text_no_nul by (metis json_marshal_tree)

section \<open>An instance of the conversions\<close>

text \<open>Decimal texts of the bits satisfy what is relied on; the real conversions do as well.\<close>

definition bits_text :: "u64 \<Rightarrow> string" where
  "bits_text x = itoa (unat x)"

definition parse_bits :: "string \<Rightarrow> u64 option" where
  "parse_bits s = (case parse_digits s 0 of Some n \<Rightarrow> if n < 2 ^ 64 \<and> finite64 (of_nat n) then Some (of_nat n) else None | None \<Rightarrow> None)"

lemma itoa_is_digit: "c \<in> set (itoa n) \<Longrightarrow> is_digit c"
proof -
  assume "c \<in> set (itoa n)"
  then obtain k where k: "k < 10" "c = digit_char k" using itoa_digits by blast
  have "\<forall>k \<in> set [0..<10]. is_digit (digit_char k)" by code_simp
  with k show "is_digit c" by simp
qed

lemma itoa_leading: "itoa n = CHR ''0'' # t \<Longrightarrow> t = []"
proof (induction n arbitrary: t rule: itoa.induct)
  case (1 n)
  show ?case
  proof (cases "n < 10")
    case True
    with 1 show ?thesis by (simp add: itoa.simps [of n])
  next
    case False
    then have n: "itoa n = itoa (n div 10) @ [digit_char (n mod 10)]" by (simp add: itoa.simps [of n])
    obtain u where u: "itoa (n div 10) = CHR ''0'' # u"
      using 1(2) n by (cases "itoa (n div 10)") auto
    with 1(1) [OF False] have "u = []" by blast
    with u parse_digits_itoa [of "n div 10"] have "n div 10 = 0" by (simp add: digit_val_def)
    with False show ?thesis by simp
  qed
qed

lemma itoa_valid_number: "valid_number (itoa n)"
proof -
  obtain c t where c: "itoa n = c # t" using itoa_nonempty by (meson neq_Nil_conv)
  have digits: "\<forall>x \<in> set (itoa n). is_digit x" using itoa_is_digit by blast
  then have "c \<noteq> CHR ''-''" "is_digit c" "takeWhile is_digit t = t" "dropWhile is_digit t = []"
    using c by (auto simp: is_digit_def takeWhile_eq_all_conv dropWhile_eq_Nil_conv)
  moreover have "c = CHR ''0'' \<Longrightarrow> t = []" using itoa_leading c by blast
  ultimately show ?thesis
    by (auto simp: c valid_number_def read_number_def read_unsigned_def read_int_def read_frac_def read_exp_def simp del: takeWhile_eq_all_conv dropWhile_eq_Nil_conv)
qed

lemma bits_float_text: "float_text parse_bits bits_text" and bits_float_parser: "float_parser parse_bits"
proof -
  have "unat x < 2 ^ 64" for x :: u64 using unsigned_less [of x] by simp
  then show "float_text parse_bits bits_text"
    by (simp add: float_text_def parse_bits_def bits_text_def itoa_valid_number parse_digits_itoa)
  show "float_parser parse_bits"
    by (auto simp: float_parser_def parse_bits_def split: option.splits if_splits)
qed

end
