(* ===== verification/Affinity.thy ===== *)
theory Affinity
  imports Providers JsonValues
begin

text \<open>
  \<^verbatim>\<open>proxy-gateway/affinity_params.go\<close>: the identity of a session, the hash of the set name and of
  the canonical serialization of the metadata. \<^verbatim>\<open>json.Marshal\<close> is modelled in the theory \<open>Json\<close>; the shortest
  decimal text of a \<^verbatim>\<open>float64\<close> is the parameter \<open>num\<close>. Strings are compared bytewise, as \<^verbatim>\<open>sort.Strings\<close> does.
\<close>

section \<open>Affinity parameters\<close>

record AffinityParams =
  apSet :: string
  apMeta :: meta

text \<open>\<^verbatim>\<open>orderedMap.MarshalJSON\<close>.\<close>

definition orderedMap_MarshalJSON :: "(u64 \<Rightarrow> string) \<Rightarrow> string list \<Rightarrow> meta \<Rightarrow> string" where
  "orderedMap_MarshalJSON num keys m =
     ''{'' @ str_Join (map (\<lambda>k. json_string k @ '':'' @ json_marshal num (case map_of m k of None \<Rightarrow> JNull | Some v \<Rightarrow> v)) keys) '','' @ ''}''"

definition canonicalMeta :: "(u64 \<Rightarrow> string) \<Rightarrow> meta \<Rightarrow> string" where
  "canonicalMeta num m = (if m = [] then ''{}'' else orderedMap_MarshalJSON num (sort (map fst m)) m)"

definition affinity_key :: "(u64 \<Rightarrow> string) \<Rightarrow> AffinityParams \<Rightarrow> string" where
  "affinity_key num a = apSet a @ [CHR 0x00] @ canonicalMeta num (apMeta a)"

definition AffinityParams_Seed :: "(u64 \<Rightarrow> string) \<Rightarrow> AffinityParams \<Rightarrow> u64" where
  "AffinityParams_Seed num a = TopLevelSeed (affinity_key num a)"

section \<open>The canonical text\<close>

text \<open>Sorting the keys by hand gives what \<^verbatim>\<open>json.Marshal\<close> makes of the map itself.\<close>

lemma canonicalMeta_marshal:
  assumes "distinct (map fst m)"
  shows "canonicalMeta num m = json_marshal num (JObj m)"
proof (cases "m = []")
  case False
  let ?g = "\<lambda>f. (fst f, json_marshal num (snd f))" and ?w = "\<lambda>(k, v). json_string k @ '':'' @ v"
  have lookup: "json_marshal num (case map_of m (fst f) of None \<Rightarrow> JNull | Some v \<Rightarrow> v) = json_marshal num (snd f)" if "f \<in> set m" for f
  proof -
    have "map_of m (fst f) = Some (snd f)" using that assms by (simp add: map_of_is_SomeI)
    then show ?thesis by simp
  qed
  have "sort (map fst m) = map fst (sort_key fst m)"
    by (simp add: map_sort_key [where k' = "\<lambda>x. x"])
  then have "map (\<lambda>k. json_string k @ '':'' @ json_marshal num (case map_of m k of None \<Rightarrow> JNull | Some v \<Rightarrow> v)) (sort (map fst m)) =
      map (?w \<circ> ?g) (sort_key fst m)"
    by (auto simp: set_sort lookup)
  also have "\<dots> = map ?w (sort_key fst (map ?g m))"
    by (simp flip: map_sort_key [where k = fst and k' = fst and f = ?g])
  finally show ?thesis
    using False by (simp add: canonicalMeta_def orderedMap_MarshalJSON_def marshal_fields)
qed (simp add: canonicalMeta_def)

text \<open>Metadata as the decoder of user names makes it, nested to a depth of at most \<open>d\<close>.\<close>

definition meta_ok :: "nat \<Rightarrow> meta \<Rightarrow> bool" where
  "meta_ok d m \<longleftrightarrow> json_ok d (JObj m)"

definition same_meta :: "meta \<Rightarrow> meta \<Rightarrow> bool" where
  "same_meta m m' \<longleftrightarrow> same_json (JObj m) (JObj m')"

lemma meta_ok_distinct: "meta_ok d m \<Longrightarrow> distinct (map fst m)"
  by (cases d) (simp_all add: meta_ok_def)

lemma same_meta_map_of: "distinct (map fst m) \<Longrightarrow> distinct (map fst m') \<Longrightarrow> map_of m = map_of m' \<Longrightarrow> same_meta m m'"
  by (simp add: same_meta_def same_json_obj)

lemma canonicalMeta_cong:
  assumes "distinct (map fst m)" and "distinct (map fst m')" and "same_meta m m'"
  shows "canonicalMeta num m = canonicalMeta num m'"
  using assms by (simp add: canonicalMeta_marshal same_meta_def same_json_def json_marshal_tree)

section \<open>The key determines the parameters\<close>

text \<open>
  C19: The string that is hashed into the session identity determines the affinity parameters and
  nothing else. For all metadata a user name can carry, nested arrays and objects included, two
  parameter sets have the same key exactly when their set names are equal and their metadata are
  the same value: the order of the fields does not matter at any level, and no two different
  parameter sets collide before hashing, not even through separators or quotes inside names and
  values.
\<close>
theorem affinity_key_iff:
  assumes "float_text pf num" and "meta_ok d (apMeta a)" and "meta_ok d (apMeta b)"
  shows "affinity_key num a = affinity_key num b \<longleftrightarrow> apSet a = apSet b \<and> same_meta (apMeta a) (apMeta b)"
proof -
  note distinct = meta_ok_distinct [OF assms(2)] meta_ok_distinct [OF assms(3)]
  have no_nul: "CHR 0x00 \<notin> set (canonicalMeta num m)" if "meta_ok d m" for m
    using json_marshal_no_nul [OF assms(1), of d "JObj m"] that
    unfolding canonicalMeta_marshal [OF meta_ok_distinct [OF that]] meta_ok_def by blast
  have "affinity_key num a = affinity_key num b \<longleftrightarrow> apSet a = apSet b \<and> canonicalMeta num (apMeta a) = canonicalMeta num (apMeta b)"
  proof
    assume eq: "affinity_key num a = affinity_key num b"
    have "length (apSet a) = length (apSet b)"
      using arg_cong [OF eq, of "\<lambda>s. LastIndexByte s (CHR 0x00)"] no_nul [OF assms(2)] no_nul [OF assms(3)]
      by (simp add: affinity_key_def)
    with eq show "apSet a = apSet b \<and> canonicalMeta num (apMeta a) = canonicalMeta num (apMeta b)"
      by (simp add: affinity_key_def)
  qed (simp add: affinity_key_def)
  moreover have "canonicalMeta num (apMeta a) = canonicalMeta num (apMeta b) \<longleftrightarrow> same_meta (apMeta a) (apMeta b)"
    unfolding canonicalMeta_marshal [OF distinct(1)] canonicalMeta_marshal [OF distinct(2)] same_meta_def
    using assms(2,3) by (intro json_marshal_eq_iff [OF assms(1)]) (simp_all only: meta_ok_def)
  ultimately show ?thesis by simp
qed

definition demo_affinity :: "meta \<Rightarrow> AffinityParams" where
  "demo_affinity m = \<lparr>apSet = ''res'', apMeta = m\<rparr>"

theorem affinity_key_iff_witness:
  "affinity_key bits_text (demo_affinity [(''a'', JStr ''1,\"b''), (''b'', JArr [JNum 7, JObj [(''x'', JNull), (''y'', JBool True)]])]) =
     affinity_key bits_text (demo_affinity [(''b'', JArr [JNum 7, JObj [(''y'', JBool True), (''x'', JNull)]]), (''a'', JStr ''1,\"b'')]) \<and>
   affinity_key bits_text (demo_affinity [(''a'', JStr ''1''), (''b'', JNum 7)]) \<noteq>
     affinity_key bits_text (demo_affinity [(''a'', JStr ''1''), (''b'', JStr ''7'')])"
proof -
  let ?m1 = "[(''a'', JStr ''1,\"b''), (''b'', JArr [JNum 7, JObj [(''x'', JNull), (''y'', JBool True)]])]"
  let ?m2 = "[(''b'', JArr [JNum 7, JObj [(''y'', JBool True), (''x'', JNull)]]), (''a'', JStr ''1,\"b'')]"
  let ?m3 = "[(''a'', JStr ''1''), (''b'', JNum 7)]" and ?m4 = "[(''a'', JStr ''1''), (''b'', JStr ''7'')]"
  have "meta_ok 3 ?m1" "meta_ok 3 ?m2" "meta_ok 3 ?m3" "meta_ok 3 ?m4" "same_meta ?m1 ?m2" "\<not> same_meta ?m3 ?m4"
    by code_simp+
  then show ?thesis
    using affinity_key_iff [OF bits_float_text, of 3 "demo_affinity ?m1" "demo_affinity ?m2"]
      affinity_key_iff [OF bits_float_text, of 3 "demo_affinity ?m3" "demo_affinity ?m4"]
    by (simp add: demo_affinity_def)
qed

end
