(* ===== verification/Base64.thy ===== *)
theory Base64
  imports GoStrings
begin

text \<open>
  \<^verbatim>\<open>encoding/base64\<close> of the Go standard library, as the repository uses it: \<^verbatim>\<open>StdEncoding\<close> and
  \<^verbatim>\<open>URLEncoding\<close>, padded. The decoder skips carriage returns and newlines, demands correct
  padding and accepts nothing after it. Sextets and bytes are natural numbers.
\<close>

definition std_alphabet :: string where
  "std_alphabet = ''ABCDEFGHIJKLMNOPQRSTUVWXYZabcdefghijklmnopqrstuvwxyz0123456789+/''"

definition url_alphabet :: string where
  "url_alphabet = ''ABCDEFGHIJKLMNOPQRSTUVWXYZabcdefghijklmnopqrstuvwxyz0123456789-_''"

definition padChar :: char where "padChar = CHR ''=''"

abbreviation ord :: "char \<Rightarrow> nat" where "ord \<equiv> of_char"
abbreviation chr :: "nat \<Rightarrow> char" where "chr \<equiv> char_of"

fun EncodeToString :: "string \<Rightarrow> string \<Rightarrow> string" where
  "EncodeToString alpha [] = []"
| "EncodeToString alpha [x] =
     [alpha ! (ord x div 4), alpha ! (ord x mod 4 * 16), padChar, padChar]"
| "EncodeToString alpha [x, y] =
     [alpha ! (ord x div 4), alpha ! (ord x mod 4 * 16 + ord y div 16), alpha ! (ord y mod 16 * 4), padChar]"
| "EncodeToString alpha (x # y # z # rest) =
     alpha ! (ord x div 4) # alpha ! (ord x mod 4 * 16 + ord y div 16) #
     alpha ! (ord y mod 16 * 4 + ord z div 64) # alpha ! (ord z mod 64) # EncodeToString alpha rest"

fun decode_quanta :: "string \<Rightarrow> string \<Rightarrow> string option" where
  "decode_quanta alpha [] = Some []"
| "decode_quanta alpha (p # q # r # s # rest) =
     (case (IndexByte alpha p, IndexByte alpha q) of
        (Some a, Some b) \<Rightarrow>
          (if r = padChar then (if s = padChar \<and> rest = [] then Some [chr (a * 4 + b div 16)] else None)
           else case IndexByte alpha r of
             None \<Rightarrow> None
           | Some c \<Rightarrow>
               (if s = padChar
                then (if rest = [] then Some [chr (a * 4 + b div 16), chr (b mod 16 * 16 + c div 4)] else None)
                else case IndexByte alpha s of
                  None \<Rightarrow> None
                | Some d \<Rightarrow>
                    map_option (\<lambda>t. chr (a * 4 + b div 16) # chr (b mod 16 * 16 + c div 4) # chr (c mod 4 * 64 + d) # t)
                      (decode_quanta alpha rest)))
      | _ \<Rightarrow> None)"
| "decode_quanta alpha _ = None"

definition DecodeString :: "string \<Rightarrow> string \<Rightarrow> string option" where
  "DecodeString alpha s = decode_quanta alpha (filter (\<lambda>c. c \<noteq> CHR 10 \<and> c \<noteq> CHR 13) s)"

section \<open>Round trip\<close>

text \<open>What the codec needs of an alphabet.\<close>

definition alphabet_ok :: "string \<Rightarrow> bool" where
  "alphabet_ok alpha \<longleftrightarrow> length alpha = 64 \<and> distinct alpha \<and> padChar \<notin> set alpha \<and> CHR 10 \<notin> set alpha \<and> CHR 13 \<notin> set alpha"

lemma alphabets_ok [simp]: "alphabet_ok std_alphabet" "alphabet_ok url_alphabet"
  by code_simp+

lemma IndexByte_nth: "distinct s \<Longrightarrow> i < length s \<Longrightarrow> IndexByte s (s ! i) = Some i"
proof (induction s arbitrary: i)
  case (Cons x xs)
  then show ?case by (cases i) auto
qed simp

text \<open>The sextets of three bytes, and the bytes back from the sextets.\<close>

lemma join_split: "b < k \<Longrightarrow> (a * k + b) div k = a" "b < k \<Longrightarrow> (a * k + b) mod k = b" for a b k :: nat
  by auto

lemma ord_parts: "ord c div 16 < 16" "ord c div 64 < 4" "ord c div 4 < 64"
  using nat_of_char_less_256 [of c] by (simp_all add: less_mult_imp_div_less)

lemma sextet_bounds:
  "ord x mod 4 * 16 < 64" "ord x mod 4 * 16 + ord y div 16 < 64" "ord y mod 16 * 4 < 64"
  "ord y mod 16 * 4 + ord z div 64 < 64" "ord z mod 64 < 64"
proof -
  have "ord x mod 4 < 4" "ord y mod 16 < 16" by simp_all
  then show "ord x mod 4 * 16 < 64" "ord x mod 4 * 16 + ord y div 16 < 64" "ord y mod 16 * 4 < 64"
    "ord y mod 16 * 4 + ord z div 64 < 64"
    using ord_parts(1) [of y] ord_parts(2) [of z] by linarith+
qed simp

lemma sextet_join:
  "ord x div 4 * 4 + ord x mod 4 * 16 div 16 = ord x"
  "ord x div 4 * 4 + (ord x mod 4 * 16 + ord y div 16) div 16 = ord x"
  "(ord x mod 4 * 16 + ord y div 16) mod 16 * 16 + (ord y mod 16 * 4) div 4 = ord y"
  "(ord x mod 4 * 16 + ord y div 16) mod 16 * 16 + (ord y mod 16 * 4 + ord z div 64) div 4 = ord y"
  "(ord y mod 16 * 4 + ord z div 64) mod 4 * 64 + ord z mod 64 = ord z"
  using join_split [OF ord_parts(1) [of y], of "ord x mod 4"] join_split [OF ord_parts(2) [of z], of "ord y mod 16"]
  by simp_all

lemmas sextets = ord_parts sextet_bounds sextet_join

lemma alphabet_index:
  assumes "alphabet_ok alpha" and "i < 64"
  shows "IndexByte alpha (alpha ! i) = Some i" "alpha ! i \<noteq> padChar" "alpha ! i \<noteq> CHR 10" "alpha ! i \<noteq> CHR 13"
proof -
  have "alpha ! i \<in> set alpha"
    using assms by (simp add: alphabet_ok_def)
  then show "IndexByte alpha (alpha ! i) = Some i" "alpha ! i \<noteq> padChar" "alpha ! i \<noteq> CHR 10" "alpha ! i \<noteq> CHR 13"
    using assms by (auto simp: alphabet_ok_def IndexByte_nth simp del: nth_mem)
qed

lemma EncodeToString_no_newline:
  "alphabet_ok alpha \<Longrightarrow> filter (\<lambda>c. c \<noteq> CHR 10 \<and> c \<noteq> CHR 13) (EncodeToString alpha s) = EncodeToString alpha s"
  by (induction alpha s rule: EncodeToString.induct) (simp_all add: alphabet_index sextets, simp_all add: padChar_def)

lemma decode_encode_quanta: "alphabet_ok alpha \<Longrightarrow> decode_quanta alpha (EncodeToString alpha s) = Some s"
  by (induction alpha s rule: EncodeToString.induct) (simp_all add: alphabet_index sextets)

lemma Decode_Encode: "alphabet_ok alpha \<Longrightarrow> DecodeString alpha (EncodeToString alpha s) = Some s"
  by (simp add: DecodeString_def EncodeToString_no_newline decode_encode_quanta)

interpretation base64_std: codec "EncodeToString std_alphabet" "DecodeString std_alphabet" "\<lambda>s. True"
  by unfold_locales (simp add: Decode_Encode)

end
