(* ===== verification/Username.thy ===== *)
theory Username
  imports Affinity Base64
begin

text \<open>
  The user names of the gateway, \<^verbatim>\<open>proxy-gateway/username.go\<close>: \<^verbatim>\<open>json.Unmarshal\<close> into the struct of
  \<^verbatim>\<open>ParseUsername\<close> on top of the parser of \<open>Json\<close>, and what a parsed user name is. The parameter \<open>pf\<close> is
  \<^verbatim>\<open>strconv.ParseFloat\<close> on number texts, the bits of the number or \<open>None\<close> out of range.
\<close>

section \<open>Decoding\<close>

record Username =
  uAffinity :: AffinityParams
  uMinutes :: int
  uRaw :: string

type_synonym float_parser = "string \<Rightarrow> u64 option"

text \<open>\<^verbatim>\<open>strconv.ParseInt(s, 10, 64)\<close> on a number of a JSON text.\<close>

definition ParseInt64 :: "string \<Rightarrow> int option" where
  "ParseInt64 s =
     (let (neg, ds) = (case s of c # t \<Rightarrow> if c = CHR ''-'' then (True, t) else (False, s) | [] \<Rightarrow> (False, s)) in
      if ds = [] then None
      else case parse_digits ds 0 of
        None \<Rightarrow> None
      | Some n \<Rightarrow> let x = (if neg then - int n else int n) in if in_int64 x then Some x else None)"

text \<open>
  \<^verbatim>\<open>foldName\<close>: field names are matched without regard to case. Among the runes that are not ASCII,
  U+017F and U+212A fold to \<^verbatim>\<open>S\<close> and \<^verbatim>\<open>K\<close>; no other folds to an ASCII letter.
\<close>

fun fold_name :: "string \<Rightarrow> string" where
  "fold_name [] = []"
| "fold_name (c # cs) =
     (if c = CHR 0xC5 \<and> take 1 cs = [CHR 0xBF] then CHR ''S'' # fold_name (drop 1 cs)
      else if c = CHR 0xE2 \<and> take 2 cs = [CHR 0x84, CHR 0xAA] then CHR ''K'' # fold_name (drop 2 cs)
      else upper_char c # fold_name cs)"

text \<open>
  One field of the object into the struct: a null leaves a string and an integer as they are and
  makes the map nil, a second object is merged into the map, a value of another type is an error,
  and an unknown field is skipped.
\<close>

definition convert_fields :: "float_parser \<Rightarrow> (string \<times> jtree) list \<Rightarrow> meta option" where
  "convert_fields pf fs = those (map (\<lambda>f. map_option (Pair (fst f)) (to_json pf (snd f))) fs)"

definition store_field :: "float_parser \<Rightarrow> string \<times> jtree \<Rightarrow> string \<times> int \<times> meta \<Rightarrow> (string \<times> int \<times> meta) option" where
  "store_field pf f j =
     (let (st, minutes, m) = j; name = fold_name (fst f) in
      if name = ''SET'' then
        (case snd f of TStr s \<Rightarrow> Some (s, minutes, m) | TNull \<Rightarrow> Some j | _ \<Rightarrow> None)
      else if name = ''MINUTES'' then
        (case snd f of TNum s \<Rightarrow> map_option (\<lambda>n. (st, n, m)) (ParseInt64 s) | TNull \<Rightarrow> Some j | _ \<Rightarrow> None)
      else if name = ''META'' then
        (case snd f of
           TObj fs \<Rightarrow> map_option (\<lambda>kvs. (st, minutes, obj_of m kvs)) (convert_fields pf fs)
         | TNull \<Rightarrow> Some (st, minutes, [])
         | _ \<Rightarrow> None)
      else Some j)"

fun store_fields :: "float_parser \<Rightarrow> (string \<times> jtree) list \<Rightarrow> string \<times> int \<times> meta \<Rightarrow> (string \<times> int \<times> meta) option" where
  "store_fields pf [] j = Some j"
| "store_fields pf (f # fs) j = Option.bind (store_field pf f j) (store_fields pf fs)"

text \<open>\<^verbatim>\<open>json.Unmarshal([]byte(raw), &j)\<close> with \<^verbatim>\<open>j\<close> zero; a nil map is empty.\<close>

definition Unmarshal_username :: "float_parser \<Rightarrow> string \<Rightarrow> (string \<times> int \<times> meta) option" where
  "Unmarshal_username pf raw =
     (case parse_json raw of
        Some (TObj fs) \<Rightarrow> store_fields pf fs ('''', 0, [])
      | Some TNull \<Rightarrow> Some ('''', 0, [])
      | _ \<Rightarrow> None)"

definition ParseUsername :: "float_parser \<Rightarrow> string \<Rightarrow> error + Username" where
  "ParseUsername pf raw =
     (case Unmarshal_username pf raw of
        None \<Rightarrow> Inl ErrInvalidJSON
      | Some (st, minutes, m) \<Rightarrow>
          if st = '''' then Inl ErrEmptySet
          else Inr \<lparr>uAffinity = \<lparr>apSet = st, apMeta = m\<rparr>, uMinutes = minutes, uRaw = raw\<rparr>)"

section \<open>What a parsed user name is\<close>

text \<open>The outer object takes one level of the limit on nesting.\<close>

definition username_ok :: "Username \<Rightarrow> bool" where
  "username_ok u \<longleftrightarrow> apSet (uAffinity u) \<noteq> [] \<and> utf8_Valid (apSet (uAffinity u)) \<and>
     in_int64 (uMinutes u) \<and> meta_ok (maxNestingDepth - 1) (apMeta (uAffinity u))"

definition fields_ok :: "nat \<Rightarrow> string \<times> int \<times> meta \<Rightarrow> bool" where
  "fields_ok d j \<longleftrightarrow> (case j of (st, minutes, m) \<Rightarrow> utf8_Valid st \<and> in_int64 minutes \<and> meta_ok (Suc d) m)"

lemma ParseInt64_range: "ParseInt64 s = Some x \<Longrightarrow> in_int64 x"
  by (auto simp: ParseInt64_def Let_def split: list.splits if_splits option.splits)

lemma obj_of_ok:
  assumes "meta_ok (Suc d) m" and "\<And>f. f \<in> set kvs \<Longrightarrow> utf8_Valid (fst f) \<and> json_ok d (snd f)"
  shows "meta_ok (Suc d) (obj_of m kvs)"
  using assms obj_of_set [of m kvs] obj_of_distinct [of m kvs] by (auto simp: meta_ok_def list_all_iff)

lemma convert_fields_ok:
  assumes "float_parser pf" and "convert_fields pf fs = Some kvs" and "list_all (\<lambda>f. utf8_Valid (fst f) \<and> tree_ok N d (snd f)) fs" and "f \<in> set kvs"
  shows "utf8_Valid (fst f) \<and> json_ok d (snd f)"
  using those_map [OF assms(2) [unfolded convert_fields_def] assms(4)] assms(3)
  by (auto simp: list_all_iff intro: to_json_ok [OF assms(1)])

lemma store_field_ok:
  assumes "float_parser pf" and "fields_ok d j" and "utf8_Valid (fst f) \<and> tree_ok N (Suc d) (snd f)" and "store_field pf f j = Some j'"
  shows "fields_ok d j'"
proof -
  obtain st minutes m where j: "j = (st, minutes, m)" by (metis prod_cases3)
  have meta: "meta_ok (Suc d) (obj_of m kvs)" if "snd f = TObj fs" "convert_fields pf fs = Some kvs" for fs kvs
    using assms(2,3) that convert_fields_ok [OF assms(1) that(2), of N d] by (intro obj_of_ok) (auto simp: j fields_ok_def)
  show ?thesis
    using assms(2-4) meta ParseInt64_range
    by (auto simp: store_field_def fields_ok_def j Let_def meta_ok_def [of _ "[]"] split: if_splits jtree.splits)
qed

lemma store_fields_ok:
  assumes "float_parser pf"
  shows "fields_ok d j \<Longrightarrow> list_all (\<lambda>f. utf8_Valid (fst f) \<and> tree_ok N (Suc d) (snd f)) fs \<Longrightarrow> store_fields pf fs j = Some j' \<Longrightarrow> fields_ok d j'"
  by (induction fs arbitrary: j) (auto simp: Option.bind_eq_Some_conv dest: store_field_ok [OF assms])

lemma Unmarshal_username_ok:
  assumes "float_parser pf" and "Unmarshal_username pf raw = Some j"
  shows "fields_ok (maxNestingDepth - 2) j"
proof -
  have zero: "fields_ok (maxNestingDepth - 2) ('''', 0, [])"
    by (simp add: fields_ok_def in_int64_def meta_ok_def)
  have d: "maxNestingDepth = Suc (Suc (maxNestingDepth - 2))"
    by (simp add: maxNestingDepth_def)
  obtain v where v: "parse_json raw = Some v"
    using assms(2) by (auto simp: Unmarshal_username_def split: option.splits)
  have ok: "tree_ok (\<lambda>_. True) (Suc (Suc (maxNestingDepth - 2))) v"
    using parse_json_ok [OF v] d by simp
  show ?thesis
  proof (cases v)
    case (TObj fs)
    with ok store_fields_ok [OF assms(1) zero, of "\<lambda>_. True" fs] assms(2) v show ?thesis
      by (simp add: Unmarshal_username_def)
  qed (use assms(2) v zero in \<open>simp_all add: Unmarshal_username_def\<close>)
qed

text \<open>
  C11: Parsed user names are well-formed, whatever bytes a client sends: the set name is a non-empty
  UTF-8 string, the minutes fit an \<^verbatim>\<open>int\<close>, and the metadata have distinct keys at every level, valid UTF-8
  in all strings, finite numbers, and at most 9999 levels; the raw text is kept.
\<close>
theorem ParseUsername_typed:
  assumes "float_parser pf" and "ParseUsername pf raw = Inr u"
  shows "username_ok u \<and> uRaw u = raw"
proof -
  obtain st minutes m where j: "Unmarshal_username pf raw = Some (st, minutes, m)" "st \<noteq> ''''"
    "u = \<lparr>uAffinity = \<lparr>apSet = st, apMeta = m\<rparr>, uMinutes = minutes, uRaw = raw\<rparr>"
    using assms(2) by (auto simp: ParseUsername_def split: option.splits if_splits)
  have "Suc (maxNestingDepth - 2) = maxNestingDepth - 1" by (simp add: maxNestingDepth_def)
  with Unmarshal_username_ok [OF assms(1) j(1)] j(2,3) show ?thesis
    by (simp add: username_ok_def fields_ok_def)
qed

lemma store_fields_distinct:
  "distinct (map fst (snd (snd j))) \<Longrightarrow> store_fields pf fs j = Some j' \<Longrightarrow> distinct (map fst (snd (snd j')))"
proof (induction fs arbitrary: j)
  case (Cons f fs)
  then obtain j1 where j1: "store_field pf f j = Some j1" "store_fields pf fs j1 = Some j'"
    by (auto simp: Option.bind_eq_Some_conv)
  with Cons.prems(1) have "distinct (map fst (snd (snd j1)))"
    by (cases j) (auto simp: store_field_def Let_def obj_of_distinct split: if_splits jtree.splits)
  with j1(2) Cons.IH show ?case by blast
qed simp

lemma ParseUsername_distinct:
  assumes "ParseUsername pf raw = Inr u"
  shows "distinct (map fst (apMeta (uAffinity u)))"
proof -
  obtain j where "Unmarshal_username pf raw = Some j" "apMeta (uAffinity u) = snd (snd j)"
    using assms by (auto simp: ParseUsername_def split: option.splits if_splits)
  then show ?thesis
    using store_fields_distinct [of "('''', 0, [])" pf _ j]
    by (auto simp: Unmarshal_username_def split: option.splits jtree.splits)
qed

lemma ParseUsername_raw: "ParseUsername pf raw = Inr u \<Longrightarrow> uRaw u = raw"
  by (auto simp: ParseUsername_def split: option.splits if_splits)

section \<open>User names that are written\<close>

definition int_text :: "int \<Rightarrow> string" where
  "int_text x = (if x < 0 then ''-'' @ itoa (nat (- x)) else itoa (nat x))"

text \<open>The JSON object of a user name, as clients build it: metadata, minutes, set.\<close>

definition username_text :: "(u64 \<Rightarrow> string) \<Rightarrow> Username \<Rightarrow> string" where
  "username_text num u = tree_text (TObj
     [(''meta'', tree_of num (JObj (apMeta (uAffinity u)))),
      (''minutes'', TNum (int_text (uMinutes u))),
      (''set'', TStr (apSet (uAffinity u)))])"

lemma itoa_no_minus: "itoa n \<noteq> CHR ''-'' # t"
  using itoa_is_digit [of "CHR ''-''" n] by (auto simp: is_digit_def)

lemma valid_number_minus:
  assumes "valid_number (itoa n)"
  shows "valid_number (''-'' @ itoa n)"
proof -
  obtain c t where "itoa n = c # t" using itoa_nonempty by (meson neq_Nil_conv)
  with assms itoa_no_minus [of n t] show ?thesis
    by (auto simp: valid_number_def read_number_def split: if_splits)
qed

lemma int_text_valid: "valid_number (int_text x)"
  using itoa_valid_number valid_number_minus by (simp add: int_text_def)

lemma ParseInt64_int_text:
  assumes "in_int64 x"
  shows "ParseInt64 (int_text x) = Some x"
proof (cases "x < 0")
  case True
  with assms show ?thesis
    by (simp add: ParseInt64_def int_text_def parse_digits_itoa)
next
  case False
  obtain c t where c: "itoa (nat x) = c # t" using itoa_nonempty by (meson neq_Nil_conv)
  have "c \<noteq> CHR ''-''" using itoa_no_minus [of "nat x" t] c by auto
  with False assms c parse_digits_itoa [of "nat x"] show ?thesis
    by (simp add: ParseInt64_def int_text_def)
qed

lemma field_names:
  "fold_name ''meta'' = ''META''" "fold_name ''minutes'' = ''MINUTES''" "fold_name ''set'' = ''SET''"
  "utf8_Valid ''meta''" "utf8_Valid ''minutes''" "utf8_Valid ''set''"
  by code_simp+

lemma Unmarshal_username_text:
  assumes "float_text pf num" and "username_ok u"
  shows "Unmarshal_username pf (username_text num u) = Some (apSet (uAffinity u), uMinutes u, apMeta (uAffinity u))"
proof -
  let ?m = "apMeta (uAffinity u)"
  let ?fs = "[(''meta'', tree_of num (JObj ?m)), (''minutes'', TNum (int_text (uMinutes u))), (''set'', TStr (apSet (uAffinity u)))]"
  let ?ms = "map (\<lambda>f. (fst f, tree_of num (snd f))) ?m"
  have d: "maxNestingDepth = Suc (maxNestingDepth - 1)" by (simp add: maxNestingDepth_def)
  have ok: "json_ok (maxNestingDepth - 1) (JObj ?m)"
    using assms(2) by (simp add: username_ok_def meta_ok_def)
  note tree = tree_of_ok [OF assms(1) ok]
  have scalars: "tree_ok valid_number e (TNum (int_text (uMinutes u)))" "tree_ok valid_number e (TStr (apSet (uAffinity u)))" for e
    using assms(2) int_text_valid by (cases e; simp add: username_ok_def)+
  have "tree_ok valid_number maxNestingDepth (TObj ?fs)"
    using tree scalars field_names by (subst d) (simp del: tree_of.simps)
  then have parse: "parse_json (username_text num u) = Some (TObj ?fs)"
    unfolding username_text_def by (rule json_codec.dec_enc)
  obtain kvs where "convert_fields pf ?ms = Some kvs" "obj_of [] kvs = ?m"
    using tree by (auto simp: convert_fields_def)
  then show ?thesis
    using assms(2) by (simp add: Unmarshal_username_def parse store_field_def field_names ParseInt64_int_text username_ok_def del: fold_name.simps)
qed

text \<open>
  C12: Writing a user name and parsing it gives it back. Every well-formed user name, with any set
  name, any duration of 64 bits and any metadata, nested or with special characters, is read from its
  JSON text unchanged, with the text as its label.
\<close>
theorem ParseUsername_roundtrip:
  assumes "float_text pf num" and "username_ok u"
  shows "ParseUsername pf (username_text num u) = Inr (u\<lparr>uRaw := username_text num u\<rparr>)"
  using Unmarshal_username_text [OF assms] assms(2) by (simp add: ParseUsername_def username_ok_def)

definition demo_user :: "int \<Rightarrow> meta \<Rightarrow> Username" where
  "demo_user minutes m = \<lparr>uAffinity = \<lparr>apSet = ''res'', apMeta = m\<rparr>, uMinutes = minutes, uRaw = ''''\<rparr>"

theorem ParseUsername_roundtrip_witness:
  "ParseUsername parse_bits (username_text bits_text (demo_user 5 [(''a'', JStr ''x\"''), (''b'', JArr [JNum 7])])) =
     Inr ((demo_user 5 [(''a'', JStr ''x\"''), (''b'', JArr [JNum 7])])\<lparr>
       uRaw := username_text bits_text (demo_user 5 [(''a'', JStr ''x\"''), (''b'', JArr [JNum 7])])\<rparr>)"
  by (rule ParseUsername_roundtrip [OF bits_float_text]) code_simp

theorem ParseUsername_typed_witness:
  "\<exists>u. ParseUsername parse_bits (username_text bits_text (demo_user 5 [(''a'', JNum 7)])) = Inr u \<and> username_ok u"
proof -
  have "case ParseUsername parse_bits (username_text bits_text (demo_user 5 [(''a'', JNum 7)])) of Inr u \<Rightarrow> True | Inl _ \<Rightarrow> False"
    by code_simp
  then obtain u where u: "ParseUsername parse_bits (username_text bits_text (demo_user 5 [(''a'', JNum 7)])) = Inr u"
    by (auto split: sum.splits)
  with ParseUsername_typed [OF bits_float_parser u] show ?thesis by blast
qed

section \<open>User names in base64\<close>

lemma EncodeToString_head: "EncodeToString alpha (x # s) \<noteq> [] \<and> hd (EncodeToString alpha (x # s)) = alpha ! (ord x div 4)"
  by (cases "(alpha, x # s)" rule: EncodeToString.cases) auto

text \<open>
  The user names the documentation describes and the client library builds, the base64 text
  of a JSON object, are refused: whatever the object, its base64 text is not JSON.
\<close>
lemma base64_username_rejected:
  "ParseUsername pf (EncodeToString std_alphabet (CHR ''{'' # s)) = Inl ErrInvalidJSON"
proof -
  have e: "std_alphabet ! (ord CHR ''{'' div 4) = CHR ''e''" by code_simp
  obtain t where t: "EncodeToString std_alphabet (CHR ''{'' # s) = CHR ''e'' # t"
    using EncodeToString_head [of std_alphabet "CHR ''{''" s] e by (cases "EncodeToString std_alphabet (CHR ''{'' # s)") auto
  have "read_node inner (CHR ''e'' # t) = None" for inner
    by (simp add: read_node_def skip_plain json_space_def dquote_def read_number_def read_unsigned_def read_int_def is_digit_def)
  then have "read_value d (CHR ''e'' # t) = None" for d
    by (cases d) simp_all
  then show ?thesis
    by (simp add: t ParseUsername_def Unmarshal_username_def parse_json_def)
qed

end
