(* ===== verification/Gateway.thy ===== *)
theory Gateway
  imports SessionManager Username
begin

text \<open>
  The program \<^verbatim>\<open>proxy-gateway\<close>: user names and middleware (\<^verbatim>\<open>username.go\<close>), configuration
  (\<^verbatim>\<open>config.go\<close>) and the assembly of the pipeline (\<^verbatim>\<open>pipeline.go\<close>): password check, parsing of the
  JSON user name, sticky sessions, and the router over the configured sources.

  Parameters: \<open>pf\<close> and \<open>num\<close>, the parsing and the text of numbers (theories \<open>Username\<close> and \<open>Affinity\<close>);
  \<open>fmt\<close>, the verb \<^verbatim>\<open>%v\<close> on dynamic values (theory \<open>Providers\<close>); \<open>readFile\<close> and \<open>getenv\<close>, the file system
  and the environment.
\<close>

section \<open>Middleware\<close>

text \<open>\<^verbatim>\<open>time.Duration(u.Minutes)*time.Minute\<close>, in 64 bits.\<close>

definition seed_ttl :: "Username \<Rightarrow> int" where
  "seed_ttl u = wrap64 (uMinutes u * nsMinute)"

text \<open>The context \<^verbatim>\<open>ParseJSONCreds\<close> hands on.\<close>

definition creds_ctx :: "(u64 \<Rightarrow> string) \<Rightarrow> Username \<Rightarrow> Context \<Rightarrow> Context" where
  "creds_ctx num u ctx =
     (let ctx1 = withSet ctx (apSet (uAffinity u));
          ctx2 = WithSeedTTL ctx1 (seed_ttl u);
          ctx3 = WithTopLevelSeed ctx2 (AffinityParams_Seed num (uAffinity u))
      in WithSessionLabel ctx3 (uRaw u))"

definition ParseJSONCreds :: "float_parser \<Rightarrow> (u64 \<Rightarrow> string) \<Rightarrow> 's handler \<Rightarrow> 's handler" where
  "ParseJSONCreds pf num next ctx req s =
     (if RawUsername req = '''' then (Ret (None, Some ErrEmptyUsername), s)
      else case ParseUsername pf (RawUsername req) of
        Inl err \<Rightarrow> (Ret (None, Some err), s)
      | Inr u \<Rightarrow> next (creds_ctx num u ctx) req s)"

definition PasswordAuth :: "string \<Rightarrow> 's handler \<Rightarrow> 's handler" where
  "PasswordAuth password next =
     (if password = '''' then next
      else (\<lambda>ctx req s. if RawPassword req \<noteq> password then (Ret (None, Some ErrInvalidCredentials), s)
                        else next ctx req s))"

section \<open>Configuration and sources\<close>

record ProxySetConfig =
  psName :: string
  psSourceType :: string
  psStaticFile :: "StaticFileConfig option"
  psBottingtools :: "BottingtoolsConfig option"
  psGeonode :: "GeonodeConfig option"

datatype source =
    SrcStatic StaticFileSource
  | SrcBottingtools BottingtoolsSource
  | SrcGeonode GeonodeSource

fun source_Resolve :: "(json \<Rightarrow> string) \<Rightarrow> source \<Rightarrow> Context \<Rightarrow> Request \<Rightarrow> world \<Rightarrow> resolution \<times> source \<times> world" where
  "source_Resolve fmt (SrcStatic s) ctx req w =
     (case StaticFileSource_Resolve ctx req (s, w) of (r, s', w') \<Rightarrow> (r, SrcStatic s', w'))"
| "source_Resolve fmt (SrcBottingtools s) ctx req w =
     (case BottingtoolsSource_Resolve fmt s ctx req w of (r, w') \<Rightarrow> (r, SrcBottingtools s, w'))"
| "source_Resolve fmt (SrcGeonode s) ctx req w =
     (case GeonodeSource_Resolve s ctx req w of (r, w') \<Rightarrow> (r, SrcGeonode s, w'))"

text \<open>One iteration of the loop of \<^verbatim>\<open>buildProxysetRouter\<close>.\<close>

definition buildSource :: "(string \<Rightarrow> string option) \<Rightarrow> (string \<Rightarrow> string) \<Rightarrow> string \<Rightarrow> ProxySetConfig \<Rightarrow> error + source" where
  "buildSource readFile getenv configDir raw =
     (let wrap = (\<lambda>r. case r of Inl e \<Rightarrow> Inl (ErrProxySet (psName raw) e) | Inr s \<Rightarrow> Inr s) in
      if psSourceType raw = ''static_file'' then
        (case psStaticFile raw of
           None \<Rightarrow> Inl (ErrMissingSection (psName raw) ''static_file'')
         | Some c \<Rightarrow> wrap (map_sum id SrcStatic
             (NewStaticFileSource readFile (if sfFormat c = '''' then c\<lparr>sfFormat := DefaultProxyFormat\<rparr> else c) configDir)))
      else if psSourceType raw = ''bottingtools'' then
        (case psBottingtools raw of
           None \<Rightarrow> Inl (ErrMissingSection (psName raw) ''bottingtools'')
         | Some c \<Rightarrow> wrap (map_sum id SrcBottingtools (NewBottingtoolsSource getenv c)))
      else if psSourceType raw = ''geonode'' then
        (case psGeonode raw of
           None \<Rightarrow> Inl (ErrMissingSection (psName raw) ''geonode'')
         | Some c \<Rightarrow>
             let c1 = (if gnProtocol c = '''' then c\<lparr>gnProtocol := GeonodeProtocolHTTP\<rparr> else c);
                 c2 = (if gsType (gnSession c1) = '''' then c1\<lparr>gnSession := (gnSession c1)\<lparr>gsType := GeonodeSessionRotating\<rparr>\<rparr> else c1)
             in wrap (map_sum id SrcGeonode (NewGeonodeSource getenv c2)))
      else Inl (ErrUnknownSource (psName raw) (psSourceType raw)))"

fun buildSources :: "(string \<Rightarrow> string option) \<Rightarrow> (string \<Rightarrow> string) \<Rightarrow> string \<Rightarrow> ProxySetConfig list \<Rightarrow>
    (string \<rightharpoonup> source) \<Rightarrow> error + (string \<rightharpoonup> source)" where
  "buildSources readFile getenv configDir [] sources = Inr sources"
| "buildSources readFile getenv configDir (raw # raws) sources =
     (case buildSource readFile getenv configDir raw of
        Inl e \<Rightarrow> Inl e
      | Inr s \<Rightarrow> buildSources readFile getenv configDir raws (sources(psName raw \<mapsto> s)))"

type_synonym routerState = "(string \<rightharpoonup> source) \<times> world"

definition router_Resolve :: "(json \<Rightarrow> string) \<Rightarrow> routerState handler" where
  "router_Resolve fmt ctx req sw =
     (let (sources, w) = sw; set = getSet ctx in
      case sources set of
        None \<Rightarrow> (Ret (None, Some (ErrUnknownSet set)), sw)
      | Some h \<Rightarrow> let (r, h', w') = source_Resolve fmt h ctx req w in (r, (sources(set \<mapsto> h'), w')))"

section \<open>The server\<close>

type_synonym serverState = "SessionManager \<times> routerState"

definition Pipeline :: "float_parser \<Rightarrow> (u64 \<Rightarrow> string) \<Rightarrow> (json \<Rightarrow> string) \<Rightarrow> string \<Rightarrow> serverState handler" where
  "Pipeline pf num fmt proxyPassword =
     PasswordAuth proxyPassword (ParseJSONCreds pf num (SessionManager_Resolve source_clock (router_Resolve fmt)))"

definition BuildServer :: "(string \<Rightarrow> string option) \<Rightarrow> (string \<Rightarrow> string) \<Rightarrow> ProxySetConfig list \<Rightarrow> string \<Rightarrow> world \<Rightarrow>
    error + serverState" where
  "BuildServer readFile getenv proxySets configDir w =
     (case buildSources readFile getenv configDir proxySets Map.empty of
        Inl e \<Rightarrow> Inl e
      | Inr sources \<Rightarrow> Inr (NewSessionManager, (sources, w)))"


section \<open>What the middleware hands on\<close>

lemma creds_ctx_values [simp]:
  "getSet (creds_ctx num u ctx) = apSet (uAffinity u)"
  "GetSeedTTL (creds_ctx num u ctx) = seed_ttl u"
  "GetTopLevelSeed (creds_ctx num u ctx) = AffinityParams_Seed num (uAffinity u)"
  "GetSessionLabel (creds_ctx num u ctx) = uRaw u"
  "GetMeta (creds_ctx num u ctx) = GetMeta ctx"
  "GetSessionSeed (creds_ctx num u ctx) = GetSessionSeed ctx"
  by (simp_all add: creds_ctx_def ctx_defs Let_def)

definition authorized :: "string \<Rightarrow> Request \<Rightarrow> bool" where
  "authorized password req \<longleftrightarrow> password = '''' \<or> RawPassword req = password"

lemma Pipeline_cases:
  "Pipeline pf num fmt password ctx req s =
     (if \<not> authorized password req then (Ret (None, Some ErrInvalidCredentials), s)
      else if RawUsername req = '''' then (Ret (None, Some ErrEmptyUsername), s)
      else case ParseUsername pf (RawUsername req) of
        Inl err \<Rightarrow> (Ret (None, Some err), s)
      | Inr u \<Rightarrow> SessionManager_Resolve source_clock (router_Resolve fmt) (creds_ctx num u ctx) req s)"
  by (simp add: Pipeline_def PasswordAuth_def ParseJSONCreds_def authorized_def)

text \<open>
  C28: The pipeline lets a request reach the sessions and the sources only with the configured
  password and a parseable user name that names a set; every other request is answered with an
  error and leaves sessions, pools, generators and clock untouched.
\<close>
theorem pipeline_gate:
  assumes "\<not> authorized password req \<or> RawUsername req = '''' \<or> Unmarshal_username pf (RawUsername req) = None \<or>
    (\<exists>minutes m. Unmarshal_username pf (RawUsername req) = Some ('''', minutes, m))"
  shows "\<exists>err. Pipeline pf num fmt password ctx req s = (Ret (None, Some err), s)"
  using assms by (auto simp: Pipeline_cases ParseUsername_def)

theorem pipeline_gate_witness:
  "\<exists>err. Pipeline parse_bits bits_text (\<lambda>j. []) ''secret'' background
     (emptyRequest\<lparr>RawUsername := ''u'', RawPassword := ''wrong''\<rparr>) (demo_manager, Map.empty, world0) =
     (Ret (None, Some err), (demo_manager, Map.empty, world0))"
  by (rule pipeline_gate) (simp add: authorized_def emptyRequest_def)

section \<open>Sessions across requests\<close>

lemma live_entry_stored: "live_entry clk m k w = (Some e, w1) \<Longrightarrow> sm_entries m k = Some e"
  using live_entry_cases [of clk m k w] by (auto split: if_splits)

lemma sm_store_entry:
  assumes "sm_store clk k ne (m, w) = (x, m', w')"
  shows "\<exists>e. sm_entries m' k = Some e \<and> se_proxy e = (case x of Some q \<Rightarrow> q | None \<Rightarrow> se_proxy ne)"
proof -
  obtain ex w1 where "live_entry clk m k w = (ex, w1)" by fastforce
  with assms show ?thesis
    by (cases ex) (auto simp: sm_store_def dest: live_entry_stored)
qed

lemma Resolve_success_entry:
  assumes res: "SessionManager_Resolve clk inner ctx req (m, w) = (Ret (Some r, None), (m', w'))"
    and p: "rProxy r = Some p" and "0 < GetSeedTTL ctx" and "GetTopLevelSeed ctx \<noteq> 0"
  shows "\<exists>e. sm_entries m' (GetTopLevelSeed ctx) = Some e \<and> se_proxy e = p"
proof -
  let ?tls = "GetTopLevelSeed ctx"
  obtain hit w1 where hit: "live_entry clk m ?tls w = (hit, w1)" by fastforce
  show ?thesis
  proof (cases hit)
    case (Some e)
    with res hit assms(3,4) p live_entry_stored [of clk m ?tls w e w1] show ?thesis
      by (auto simp: SessionManager_Resolve_def)
  next
    case None
    let ?ctx = "WithSessionSeed ctx (Some (NewSessionSeed ?tls 0))"
    obtain r2 w2 where inner: "inner ?ctx req w1 = (r2, w2)" by fastforce
    obtain now w3 where now: "clk w2 = (now, w3)" by fastforce
    obtain i m1 where al: "alloc_id m = (i, m1)" by fastforce
    note eqs = res hit None inner now al assms(3,4)
    from eqs obtain result err where r2: "r2 = Ret (result, err)"
      by (cases r2) (auto simp: SessionManager_Resolve_def)
    have "\<not> no_proxy result err"
      using eqs p by (auto simp: SessionManager_Resolve_def r2 split: if_splits)
    then obtain rr q where rr: "result = Some rr" "rProxy rr = Some q" "err = None"
      by (rule not_no_proxyE)
    obtain x m2 w4 where st: "sm_store clk ?tls (new_entry ?tls ?ctx q i (GetSeedTTL ctx) now) (m1, w3) = (x, m2, w4)"
      by (metis prod_cases3)
    from eqs rr st p r2 have "m' = m2" "p = (case x of Some q \<Rightarrow> q | None \<Rightarrow> q)"
      by (auto simp: SessionManager_Resolve_def split: option.splits)
    with sm_store_entry [OF st] show ?thesis
      by (cases x) (simp_all add: new_entry_def)
  qed
qed

lemma Resolve_cached:
  assumes "sm_entries m (GetTopLevelSeed ctx) = Some e" and "fst (clk w) < se_expiresAt e"
    and "0 < GetSeedTTL ctx" and "GetTopLevelSeed ctx \<noteq> 0"
  shows "SessionManager_Resolve clk inner ctx req (m, w) = (Ret (Some (Resolved (se_proxy e)), None), (m, snd (clk w)))"
  using assms by (simp add: SessionManager_Resolve_def live_entry_def Let_def case_prod_beta)

lemma affinity_seed_cong:
  assumes "apSet a = apSet b" and "same_meta (apMeta a) (apMeta b)"
    and "distinct (map fst (apMeta a))" and "distinct (map fst (apMeta b))"
  shows "AffinityParams_Seed num a = AffinityParams_Seed num b"
  using assms canonicalMeta_cong [of "apMeta a" "apMeta b" num] by (simp add: AffinityParams_Seed_def affinity_key_def)

text \<open>
  C4: Requests with the same affinity share a session. When a request with a positive duration
  has been answered with a proxy, a later request whose user name names the same set and the
  same metadata (in any order, with any positive duration and any spelling of the JSON) gets the
  same proxy as long as the stored session has not expired, and no source is asked.
\<close>
theorem same_affinity_same_proxy:
  assumes "Pipeline pf num fmt password ctx1 req1 (m, sw) = (Ret (Some r, None), (m1, sw1))" and "rProxy r = Some p"
    and "ParseUsername pf (RawUsername req1) = Inr u1" and "ParseUsername pf (RawUsername req2) = Inr u2"
    and "apSet (uAffinity u1) = apSet (uAffinity u2)" and "same_meta (apMeta (uAffinity u1)) (apMeta (uAffinity u2))"
    and "0 < seed_ttl u1" and "0 < seed_ttl u2" and "AffinityParams_Seed num (uAffinity u1) \<noteq> 0"
    and "authorized password req2" and "RawUsername req2 \<noteq> ''''"
  shows "\<exists>e. sm_entries m1 (AffinityParams_Seed num (uAffinity u1)) = Some e \<and> se_proxy e = p \<and>
    (fst (source_clock sw1) < se_expiresAt e \<longrightarrow>
      Pipeline pf num fmt password ctx2 req2 (m1, sw1) = (Ret (Some (Resolved p), None), (m1, snd (source_clock sw1))))"
proof -
  let ?seed = "AffinityParams_Seed num (uAffinity u1)"
  have seed2: "AffinityParams_Seed num (uAffinity u2) = ?seed"
    using affinity_seed_cong [OF assms(5,6) ParseUsername_distinct [OF assms(3)] ParseUsername_distinct [OF assms(4)]] by simp
  have "SessionManager_Resolve source_clock (router_Resolve fmt) (creds_ctx num u1 ctx1) req1 (m, sw) = (Ret (Some r, None), (m1, sw1))"
    using assms(1,3) by (auto simp: Pipeline_cases split: if_splits)
  from Resolve_success_entry [OF this assms(2)] assms(7,9)
  obtain e where e: "sm_entries m1 ?seed = Some e" "se_proxy e = p" by auto
  moreover have "Pipeline pf num fmt password ctx2 req2 (m1, sw1) = (Ret (Some (Resolved p), None), (m1, snd (source_clock sw1)))"
    if "fst (source_clock sw1) < se_expiresAt e"
    using assms(4,8-11) e that by (simp add: Pipeline_cases Resolve_cached seed2)
  ultimately show ?thesis by blast
qed

text \<open>Concrete user names.\<close>

definition demo_name :: "int \<Rightarrow> meta \<Rightarrow> string" where
  "demo_name minutes m = username_text bits_text (demo_user minutes m)"

abbreviation demo_parsed :: "int \<Rightarrow> meta \<Rightarrow> Username" where
  "demo_parsed minutes m \<equiv> (demo_user minutes m)\<lparr>uRaw := demo_name minutes m\<rparr>"

abbreviation demo_xy :: meta where "demo_xy \<equiv> [(''a'', JStr ''x''), (''b'', JStr ''y'')]"
abbreviation demo_yx :: meta where "demo_yx \<equiv> [(''b'', JStr ''y''), (''a'', JStr ''x'')]"

lemma demo_parse: "username_ok (demo_user minutes m) \<Longrightarrow> ParseUsername parse_bits (demo_name minutes m) = Inr (demo_parsed minutes m)"
  using Unmarshal_username_text [OF bits_float_text, of "demo_user minutes m"]
  by (simp add: demo_name_def ParseUsername_def) (simp add: username_ok_def)

lemma demo_ok: "username_ok (demo_user 5 demo_xy)" "username_ok (demo_user 60 demo_yx)" "username_ok (demo_user 153722868 [])"
  by code_simp+

lemmas demo_parses = demo_parse [OF demo_ok(1)] demo_parse [OF demo_ok(2)] demo_parse [OF demo_ok(3)]

lemma demo_name_nonempty [simp]: "demo_name minutes m \<noteq> []"
  by (simp add: demo_name_def username_text_def)

lemma demo_user_sel [simp]:
  "apSet (uAffinity (demo_user minutes m)) = ''res''" "apMeta (uAffinity (demo_user minutes m)) = m" "uMinutes (demo_user minutes m) = minutes"
  by (simp_all add: demo_user_def)

definition demo_request :: "string \<Rightarrow> Request" where
  "demo_request raw = emptyRequest\<lparr>RawUsername := raw\<rparr>"

definition demo_sources :: "string \<rightharpoonup> source" where
  "demo_sources = [''res'' \<mapsto> SrcStatic demo_source]"

lemma demo_static_resolves:
  "\<exists>s' w'. StaticFileSource_Resolve ctx req (demo_source, w) = (Ret (Some (Resolved (mkProxy ''h1'' 80 '''' '''')), None), (s', w'))"
proof -
  have "static_ready (demo_source, w)" "sf_items demo_source = [mkProxy ''h1'' 80 '''' '''']"
    by (simp_all add: static_ready_def sf_items_def demo_source_def NewCountingPool_def)
  with StaticFileSource_Resolve_some [of demo_source w ctx req] show ?thesis by auto
qed

lemma demo_first_request:
  assumes "ParseUsername parse_bits raw = Inr u" and "raw \<noteq> ''''" and "apSet (uAffinity u) = ''res''"
  shows "\<exists>s'. Pipeline parse_bits num fmt '''' ctx (demo_request raw) (NewSessionManager, demo_sources, world0) =
    (Ret (Some (Resolved (mkProxy ''h1'' 80 '''' '''')), None), s')"
proof -
  have router: "\<exists>s'. router_Resolve fmt ctx req (demo_sources, w) = (Ret (Some (Resolved (mkProxy ''h1'' 80 '''' '''')), None), s')"
    if "getSet ctx = ''res''" for ctx req w
    using demo_static_resolves [of ctx req w] that by (auto simp: router_Resolve_def demo_sources_def)
  have router1: "\<exists>s'. router_Resolve fmt (creds_ctx num u ctx) req (demo_sources, world0) = (Ret (Some (Resolved (mkProxy ''h1'' 80 '''' '''')), None), s')" for req
    using assms(3) by (intro router) simp
  have router2: "\<exists>s'. router_Resolve fmt (WithSessionSeed (creds_ctx num u ctx) sd) req (demo_sources, world0) = (Ret (Some (Resolved (mkProxy ''h1'' 80 '''' '''')), None), s')" for req sd
    using assms(3) by (intro router) simp
  have store: "\<exists>s'. sm_store clk k ne (snd (alloc_id NewSessionManager), w) = (None, s')" for clk k ne and w :: routerState
    by (simp add: sm_store_def live_entry_def alloc_id_def NewSessionManager_def)
  obtain s1 where s1: "router_Resolve fmt (WithSessionSeed (creds_ctx num u ctx) (Some (NewSessionSeed (AffinityParams_Seed num (uAffinity u)) 0)))
      (demo_request raw) (demo_sources, world0) = (Ret (Some (Resolved (mkProxy ''h1'' 80 '''' '''')), None), s1)"
    using router2 by blast
  obtain s2 where s2: "router_Resolve fmt (creds_ctx num u ctx) (demo_request raw) (demo_sources, world0) = (Ret (Some (Resolved (mkProxy ''h1'' 80 '''' '''')), None), s2)"
    using router1 by blast
  obtain i m1 where al: "alloc_id NewSessionManager = (i, m1)" by fastforce
  obtain now s3 where now: "source_clock s1 = (now, s3)" by (rule prod.exhaust)
  obtain s4 where st: "sm_store source_clock (AffinityParams_Seed num (uAffinity u))
      (new_entry (AffinityParams_Seed num (uAffinity u)) (WithSessionSeed (creds_ctx num u ctx) (Some (NewSessionSeed (AffinityParams_Seed num (uAffinity u)) 0)))
        (mkProxy ''h1'' 80 '''' '''') i (seed_ttl u) now) (m1, s3) = (None, s4)"
    using store al by (metis snd_conv)
  show ?thesis
  proof (cases "seed_ttl u \<le> 0 \<or> AffinityParams_Seed num (uAffinity u) = 0")
    case True
    with assms s2 show ?thesis
      by (simp add: Pipeline_cases authorized_def demo_request_def emptyRequest_def SessionManager_Resolve_def)
  next
    case False
    have miss: "live_entry source_clock NewSessionManager k w = (None, w)" for k and w :: routerState
      by (simp add: live_entry_def NewSessionManager_def)
    from False assms s1 al now st show ?thesis
      by (cases s4) (simp add: Pipeline_cases authorized_def demo_request_def emptyRequest_def SessionManager_Resolve_def miss)
  qed
qed

theorem same_affinity_same_proxy_witness:
  "\<exists>(e :: sessionEntry) m1 sw1. Pipeline parse_bits bits_text (\<lambda>j. []) '''' background (demo_request (demo_name 5 demo_xy))
      (NewSessionManager, demo_sources, world0) = (Ret (Some (Resolved (mkProxy ''h1'' 80 '''' '''')), None), (m1, sw1)) \<and>
    se_proxy e = mkProxy ''h1'' 80 '''' '''' \<and>
    (fst (source_clock sw1) < se_expiresAt e \<longrightarrow>
      Pipeline parse_bits bits_text (\<lambda>j. []) '''' background (demo_request (demo_name 60 demo_yx)) (m1, sw1) =
        (Ret (Some (Resolved (mkProxy ''h1'' 80 '''' '''')), None), (m1, snd (source_clock sw1))))"
proof -
  let ?u1 = "demo_parsed 5 demo_xy" and ?u2 = "demo_parsed 60 demo_yx"
  have parse: "ParseUsername parse_bits (RawUsername (demo_request (demo_name 5 demo_xy))) = Inr ?u1"
    "ParseUsername parse_bits (RawUsername (demo_request (demo_name 60 demo_yx))) = Inr ?u2"
    using demo_parses by (simp_all add: demo_request_def emptyRequest_def)
  from demo_first_request [OF demo_parses(1), of bits_text "\<lambda>j. []" background] obtain m1 sw1 where
    res: "Pipeline parse_bits bits_text (\<lambda>j. []) '''' background (demo_request (demo_name 5 demo_xy)) (NewSessionManager, demo_sources, world0) =
      (Ret (Some (Resolved (mkProxy ''h1'' 80 '''' '''')), None), (m1, sw1))" by auto
  have meta: "same_meta (apMeta (uAffinity ?u1)) (apMeta (uAffinity ?u2))"
    by (simp, code_simp)
  have ttl: "0 < seed_ttl ?u1" "0 < seed_ttl ?u2"
    by (simp_all add: seed_ttl_def ns_defs wrap64_id in_int64_def)
  have seed: "AffinityParams_Seed bits_text (uAffinity ?u1) \<noteq> 0"
    by code_simp
  have rest: "apSet (uAffinity ?u1) = apSet (uAffinity ?u2)"
    "authorized '''' (demo_request (demo_name 60 demo_yx))" "RawUsername (demo_request (demo_name 60 demo_yx)) \<noteq> ''''"
    by (simp_all add: authorized_def demo_request_def emptyRequest_def)
  note shared = same_affinity_same_proxy [OF res Resolved_sel(1) parse rest(1) meta ttl seed rest(2,3), of background]
  from shared obtain e :: sessionEntry where e: "se_proxy e = mkProxy ''h1'' 80 '''' ''''" "fst (source_clock sw1) < se_expiresAt e \<longrightarrow>
      Pipeline parse_bits bits_text (\<lambda>j. []) '''' background (demo_request (demo_name 60 demo_yx)) (m1, sw1) =
        (Ret (Some (Resolved (mkProxy ''h1'' 80 '''' '''')), None), (m1, snd (source_clock sw1)))"
    by blast
  show ?thesis
    by (rule exI [of _ e], rule exI [of _ m1], rule exI [of _ sw1]) (intro conjI res e)
qed

text \<open>
  C40: The duration is not checked and its conversion overflows. A user name with \<^verbatim>\<open>minutes\<close> from
  153722868 to 307445734 gives a negative duration, so the request is not a session at all: the
  source is asked without a session seed, nothing is stored, and the next request starts over.
\<close>
theorem minutes_overflow_no_session:
  assumes "ParseUsername pf (RawUsername req) = Inr u" and "authorized password req" and "RawUsername req \<noteq> ''''"
    and "153722868 \<le> uMinutes u" and "uMinutes u \<le> 307445734"
  shows "seed_ttl u < 0 \<and>
    Pipeline pf num fmt password ctx req (m, sw) =
      (case router_Resolve fmt (creds_ctx num u ctx) req sw of (r, sw') \<Rightarrow> (r, (m, sw'))) \<and>
    GetSessionSeed (creds_ctx num u ctx) = GetSessionSeed ctx"
proof -
  let ?x = "uMinutes u * nsMinute"
  have "wrap64 ?x = wrap64 (?x - 2 ^ 64)"
    by (simp only: wrap64_shift)
  also have "\<dots> = ?x - 2 ^ 64"
    using assms(4,5) by (intro wrap64_id) (simp add: in_int64_def ns_defs)
  finally have "seed_ttl u < 0"
    using assms(4,5) by (simp add: seed_ttl_def ns_defs)
  with assms(1-3) show ?thesis
    by (simp add: Pipeline_cases SessionManager_Resolve_def)
qed

theorem minutes_overflow_no_session_witness:
  "\<exists>u. ParseUsername parse_bits (demo_name 153722868 []) = Inr u \<and> seed_ttl u < 0"
  using minutes_overflow_no_session [of parse_bits "demo_request (demo_name 153722868 [])" "demo_parsed 153722868 []" "''''"] demo_parses(3)
  by (simp add: demo_request_def emptyRequest_def authorized_def)

section \<open>The router\<close>

text \<open>
  A request for a set that is not configured is answered with an error that names the set;
  no session is stored for it and no source is asked.
\<close>
lemma unknown_set_rejected:
  assumes "ParseUsername pf (RawUsername req) = Inr u" and "authorized password req" and "RawUsername req \<noteq> ''''"
    and "sources (apSet (uAffinity u)) = None" and "sm_entries m (AffinityParams_Seed num (uAffinity u)) = None"
  shows "Pipeline pf num fmt password ctx req (m, sources, w) =
    (Ret (None, Some (ErrUnknownSet (apSet (uAffinity u)))), (m, sources, w))"
  using assms by (simp add: Pipeline_cases SessionManager_Resolve_def router_Resolve_def live_entry_def Let_def)

lemma unknown_set_rejected_witness:
  "Pipeline parse_bits (\<lambda>x. []) (\<lambda>j. []) '''' background (demo_request (demo_name 5 demo_xy)) (NewSessionManager, Map.empty, world0) =
     (Ret (None, Some (ErrUnknownSet ''res'')), (NewSessionManager, Map.empty, world0))"
proof -
  have "ParseUsername parse_bits (RawUsername (demo_request (demo_name 5 demo_xy))) = Inr (demo_parsed 5 demo_xy)"
    using demo_parses(1) by (simp add: demo_request_def emptyRequest_def)
  from unknown_set_rejected [OF this] show ?thesis
    by (simp add: demo_request_def emptyRequest_def authorized_def NewSessionManager_def)
qed

text \<open>
  The metadata of the user name never reaches the sources. The context the router sees has
  the metadata the transport's context had (none), whatever the user name says, so the
  \<^verbatim>\<open>sesstime\<close> a Bottingtools source looks up there is always absent.
\<close>
lemma username_meta_not_forwarded:
  "GetMeta (creds_ctx num u ctx) = GetMeta ctx \<and> btSesstimeStr fmt (GetMeta (creds_ctx num u background)) = ''''"
proof -
  have "GetMeta background = []"
    by (simp add: GetMeta_def background_def ctx_value_def)
  then show ?thesis
    by (simp add: btSesstimeStr_def)
qed

end
