(* ===== verification/ConfigFile.thy ===== *)
theory ConfigFile
  imports Gateway
begin

text \<open>
  The configuration of the gateway, \<^verbatim>\<open>proxy-gateway/config.go\<close>: its types, the choice of the decoder by the
  file extension, and \<^verbatim>\<open>json.Unmarshal\<close> into the structs, down to the bytes of the file. The decoders of
  TOML and YAML are packages outside the repository and parameters, as are the texts of errors.

  A struct is filled in place: a field that does not occur keeps its value, null resets pointers and
  slices and leaves the rest, an object for a pointer that is set fills what it points to, and the
  elements of an array go into the elements the slice has. (What a slice held beyond its length after it
  shrank is taken as zero, which matters only when one array field occurs three times in an object.)
\<close>

section \<open>Types\<close>

record Config =
  cfBindAddr :: string
  cfSocks5Addr :: string
  cfAdminAddr :: string
  cfLogLevel :: string
  cfProxySets :: "ProxySetConfig list"

definition defaultConfig :: Config where
  "defaultConfig = \<lparr>cfBindAddr = ''127.0.0.1:8100'', cfSocks5Addr = '''', cfAdminAddr = '''', cfLogLevel = ''info'', cfProxySets = []\<rparr>"

section \<open>Raw values\<close>

text \<open>The decoder hands on the bytes of a value: the reader of values, returning the text it has read.\<close>

definition read_raw :: "string \<Rightarrow> (string \<times> string) option" where
  "read_raw s =
     (case read_value maxNestingDepth s of
        None \<Rightarrow> None
      | Some (v, rest) \<Rightarrow> Some (take (length (skip_ws s) - length rest) (skip_ws s), rest))"

definition raw_fields :: "string \<Rightarrow> (string \<times> string) list option" where
  "raw_fields raw =
     (case raw of
        c # t \<Rightarrow> if c = CHR ''{'' then map_option fst (read_list (read_field read_raw) CHR ''}'' t) else None
      | [] \<Rightarrow> None)"

definition raw_items :: "string \<Rightarrow> string list option" where
  "raw_items raw =
     (case raw of
        c # t \<Rightarrow> if c = CHR ''['' then map_option fst (read_list read_raw CHR '']'' t) else None
      | [] \<Rightarrow> None)"

section \<open>Decoders\<close>

text \<open>A decoder gets the bytes of a value and what is there; \<open>None\<close> is an error.\<close>

type_synonym 'a decoder = "string \<Rightarrow> 'a \<Rightarrow> 'a option"

definition dec_string :: "string decoder" where
  "dec_string raw old =
     (if raw = ''null'' then Some old
      else case raw of
             c # t \<Rightarrow> if c = dquote then map_option fst (read_string t) else None
           | [] \<Rightarrow> None)"

definition dec_uint32 :: "u32 decoder" where
  "dec_uint32 raw old =
     (if raw = ''null'' then Some old
      else if raw = [] then None
      else case parse_digits raw 0 of
             None \<Rightarrow> None
           | Some n \<Rightarrow> if n < 2 ^ 32 then Some (of_nat n) else None)"

text \<open>\<^verbatim>\<open>Country\<close> decodes itself, whatever the value is.\<close>

definition dec_country :: "Country decoder" where
  "dec_country raw old = Some (Country_UnmarshalJSON raw)"

fun dec_items :: "'a decoder \<Rightarrow> 'a \<Rightarrow> string list \<Rightarrow> 'a list \<Rightarrow> 'a list option" where
  "dec_items dec zero [] old = Some []"
| "dec_items dec zero (r # rs) old =
     (case dec r (case old of [] \<Rightarrow> zero | x # _ \<Rightarrow> x) of
        None \<Rightarrow> None
      | Some x \<Rightarrow> map_option ((#) x) (dec_items dec zero rs (drop 1 old)))"

definition dec_slice :: "'a decoder \<Rightarrow> 'a \<Rightarrow> 'a list decoder" where
  "dec_slice dec zero raw old =
     (if raw = ''null'' then Some [] else Option.bind (raw_items raw) (\<lambda>rs. dec_items dec zero rs old))"

definition dec_ptr :: "'a decoder \<Rightarrow> 'a \<Rightarrow> 'a option decoder" where
  "dec_ptr dec zero raw old =
     (if raw = ''null'' then Some None else map_option Some (dec raw (case old of None \<Rightarrow> zero | Some x \<Rightarrow> x)))"

fun store_raw :: "(string \<Rightarrow> 'a decoder) \<Rightarrow> (string \<times> string) list \<Rightarrow> 'a \<Rightarrow> 'a option" where
  "store_raw field [] r = Some r"
| "store_raw field (f # fs) r = Option.bind (field (fold_name (fst f)) (snd f) r) (store_raw field fs)"

definition dec_struct :: "(string \<Rightarrow> 'a decoder) \<Rightarrow> 'a decoder" where
  "dec_struct field raw old =
     (if raw = ''null'' then Some old else Option.bind (raw_fields raw) (\<lambda>fs. store_raw field fs old))"

section \<open>The structs\<close>

text \<open>One function per struct: the field of a folded name, by the tags; other names are skipped.\<close>

definition StaticFileConfig_field :: "string \<Rightarrow> StaticFileConfig decoder" where
  "StaticFileConfig_field k raw c =
     (if k = ''PROXIES_FILE'' then map_option (\<lambda>x. c\<lparr>sfProxiesFile := x\<rparr>) (dec_string raw (sfProxiesFile c))
      else if k = ''FORMAT'' then map_option (\<lambda>x. c\<lparr>sfFormat := x\<rparr>) (dec_string raw (sfFormat c))
      else Some c)"

definition GeonodeSessionConfig_field :: "string \<Rightarrow> GeonodeSessionConfig decoder" where
  "GeonodeSessionConfig_field k raw c =
     (if k = ''TYPE'' then map_option (\<lambda>x. c\<lparr>gsType := x\<rparr>) (dec_string raw (gsType c))
      else if k = ''SESS_TIME'' then map_option (\<lambda>x. c\<lparr>gsSessTime := x\<rparr>) (dec_uint32 raw (gsSessTime c))
      else Some c)"

definition GeonodeConfig_field :: "string \<Rightarrow> GeonodeConfig decoder" where
  "GeonodeConfig_field k raw c =
     (if k = ''USERNAME'' then map_option (\<lambda>x. c\<lparr>gnUsername := x\<rparr>) (dec_string raw (gnUsername c))
      else if k = ''PASSWORD_ENV'' then map_option (\<lambda>x. c\<lparr>gnPasswordEnv := x\<rparr>) (dec_string raw (gnPasswordEnv c))
      else if k = ''GATEWAY'' then map_option (\<lambda>x. c\<lparr>gnGateway := x\<rparr>) (dec_string raw (gnGateway c))
      else if k = ''PROTOCOL'' then map_option (\<lambda>x. c\<lparr>gnProtocol := x\<rparr>) (dec_string raw (gnProtocol c))
      else if k = ''COUNTRIES'' then map_option (\<lambda>x. c\<lparr>gnCountries := x\<rparr>) (dec_slice dec_country '''' raw (gnCountries c))
      else if k = ''SESSION'' then map_option (\<lambda>x. c\<lparr>gnSession := x\<rparr>) (dec_struct GeonodeSessionConfig_field raw (gnSession c))
      else Some c)"

text \<open>Of the product only the type has a name; the tags of the sections are \<^verbatim>\<open>json:"-"\<close>.\<close>

definition BtProductConfig_field :: "string \<Rightarrow> BtProductConfig decoder" where
  "BtProductConfig_field k raw c =
     (if k = ''TYPE'' then map_option (\<lambda>x. c\<lparr>bpType := x\<rparr>) (dec_string raw (bpType c)) else Some c)"

definition BottingtoolsConfig_field :: "string \<Rightarrow> BottingtoolsConfig decoder" where
  "BottingtoolsConfig_field k raw c =
     (if k = ''USERNAME'' then map_option (\<lambda>x. c\<lparr>btUsername := x\<rparr>) (dec_string raw (btUsername c))
      else if k = ''PASSWORD_ENV'' then map_option (\<lambda>x. c\<lparr>btPasswordEnv := x\<rparr>) (dec_string raw (btPasswordEnv c))
      else if k = ''HOST'' then map_option (\<lambda>x. c\<lparr>btHost := x\<rparr>) (dec_string raw (btHost c))
      else if k = ''PRODUCT'' then map_option (\<lambda>x. c\<lparr>btProduct := x\<rparr>) (dec_struct BtProductConfig_field raw (btProduct c))
      else Some c)"

text \<open>The zero values of what the pointers point to.\<close>

definition zero_static :: StaticFileConfig where
  "zero_static = \<lparr>sfProxiesFile = '''', sfFormat = ''''\<rparr>"

definition zero_geonode :: GeonodeConfig where
  "zero_geonode = \<lparr>gnUsername = '''', gnPasswordEnv = '''', gnGateway = '''', gnProtocol = '''', gnCountries = [],
     gnSession = \<lparr>gsType = '''', gsSessTime = 0\<rparr>\<rparr>"

definition zero_bottingtools :: BottingtoolsConfig where
  "zero_bottingtools = \<lparr>btUsername = '''', btPasswordEnv = '''', btHost = '''',
     btProduct = \<lparr>bpType = '''', bpResidential = None, bpISP = None, bpDatacenter = None\<rparr>\<rparr>"

definition zero_set :: ProxySetConfig where
  "zero_set = \<lparr>psName = '''', psSourceType = '''', psStaticFile = None, psBottingtools = None, psGeonode = None\<rparr>"

definition ProxySetConfig_field :: "string \<Rightarrow> ProxySetConfig decoder" where
  "ProxySetConfig_field k raw c =
     (if k = ''NAME'' then map_option (\<lambda>x. c\<lparr>psName := x\<rparr>) (dec_string raw (psName c))
      else if k = ''SOURCE_TYPE'' then map_option (\<lambda>x. c\<lparr>psSourceType := x\<rparr>) (dec_string raw (psSourceType c))
      else if k = ''STATIC_FILE'' then
        map_option (\<lambda>x. c\<lparr>psStaticFile := x\<rparr>) (dec_ptr (dec_struct StaticFileConfig_field) zero_static raw (psStaticFile c))
      else if k = ''BOTTINGTOOLS'' then
        map_option (\<lambda>x. c\<lparr>psBottingtools := x\<rparr>) (dec_ptr (dec_struct BottingtoolsConfig_field) zero_bottingtools raw (psBottingtools c))
      else if k = ''GEONODE'' then
        map_option (\<lambda>x. c\<lparr>psGeonode := x\<rparr>) (dec_ptr (dec_struct GeonodeConfig_field) zero_geonode raw (psGeonode c))
      else Some c)"

definition Config_field :: "string \<Rightarrow> Config decoder" where
  "Config_field k raw c =
     (if k = ''BIND_ADDR'' then map_option (\<lambda>x. c\<lparr>cfBindAddr := x\<rparr>) (dec_string raw (cfBindAddr c))
      else if k = ''SOCKS5_ADDR'' then map_option (\<lambda>x. c\<lparr>cfSocks5Addr := x\<rparr>) (dec_string raw (cfSocks5Addr c))
      else if k = ''ADMIN_ADDR'' then map_option (\<lambda>x. c\<lparr>cfAdminAddr := x\<rparr>) (dec_string raw (cfAdminAddr c))
      else if k = ''LOG_LEVEL'' then map_option (\<lambda>x. c\<lparr>cfLogLevel := x\<rparr>) (dec_string raw (cfLogLevel c))
      else if k = ''PROXY_SET'' then
        map_option (\<lambda>x. c\<lparr>cfProxySets := x\<rparr>) (dec_slice (dec_struct ProxySetConfig_field) zero_set raw (cfProxySets c))
      else Some c)"

text \<open>\<^verbatim>\<open>json.Unmarshal(data, cfg)\<close>: the whole text is checked first.\<close>

definition Unmarshal_Config :: "Config decoder" where
  "Unmarshal_Config data cfg =
     (if parse_json data = None then None
      else Option.bind (read_raw data) (\<lambda>(raw, rest). dec_struct Config_field raw cfg))"

section \<open>What a decoder keeps\<close>

fun ptr_ok :: "('a \<Rightarrow> bool) \<Rightarrow> 'a option \<Rightarrow> bool" where
  "ptr_ok P None = True"
| "ptr_ok P (Some x) = P x"

text \<open>An invariant of the values a decoder fills is one of the slices, pointers and structs it fills.\<close>

locale decoder_inv =
  fixes dec :: "'a decoder"
    and P :: "'a \<Rightarrow> bool"
  assumes keep: "dec raw x = Some y \<Longrightarrow> P x \<Longrightarrow> P y"
begin

lemma items_keep: "dec_items dec zero rs xs = Some ys \<Longrightarrow> P zero \<Longrightarrow> list_all P xs \<Longrightarrow> list_all P ys"
proof (induction rs arbitrary: xs ys)
  case (Cons r rs)
  then obtain y ys1 where y: "dec r (case xs of [] \<Rightarrow> zero | x # _ \<Rightarrow> x) = Some y" "dec_items dec zero rs (drop 1 xs) = Some ys1" "ys = y # ys1"
    by (auto split: option.splits)
  have "P y"
    using keep [OF y(1)] Cons.prems(2,3) by (cases xs) simp_all
  moreover have "list_all P ys1"
    using Cons.prems(2,3) by (intro Cons.IH [OF y(2)]) (auto simp: list_all_iff dest: in_set_dropD)
  ultimately show ?case by (simp add: y(3))
qed simp

lemma slice_keep: "dec_slice dec zero raw xs = Some ys \<Longrightarrow> P zero \<Longrightarrow> list_all P xs \<Longrightarrow> list_all P ys"
  by (auto simp: dec_slice_def bind_eq_Some_conv dest: items_keep split: if_splits)

lemma ptr_keep: "dec_ptr dec zero raw p = Some q \<Longrightarrow> P zero \<Longrightarrow> ptr_ok P p \<Longrightarrow> ptr_ok P q"
  by (auto simp: dec_ptr_def dest: keep split: if_splits option.splits)

end

lemma struct_decoder_inv:
  assumes "\<And>k. decoder_inv (field k) P"
  shows "decoder_inv (dec_struct field) P"
proof
  fix raw x y
  assume dec: "dec_struct field raw x = Some y" and x: "P x"
  have "P y" if "store_raw field fs x = Some y" "P x" for fs x
    using that
  proof (induction fs arbitrary: x)
    case (Cons f fs)
    then obtain x1 where "field (fold_name (fst f)) (snd f) x = Some x1" "store_raw field fs x1 = Some y"
      by (auto simp: bind_eq_Some_conv)
    with Cons decoder_inv.keep [OF assms] show ?case by blast
  qed simp
  with dec x show "P y"
    by (auto simp: dec_struct_def bind_eq_Some_conv split: if_splits)
qed

text \<open>No decoder fills the typed sections of a Bottingtools product.\<close>

definition product_nil :: "BtProductConfig \<Rightarrow> bool" where
  "product_nil p \<longleftrightarrow> bpResidential p = None \<and> bpISP p = None \<and> bpDatacenter p = None"

definition set_nil :: "ProxySetConfig \<Rightarrow> bool" where
  "set_nil c \<longleftrightarrow> ptr_ok (\<lambda>b. product_nil (btProduct b)) (psBottingtools c)"

interpretation nil_product: decoder_inv "dec_struct BtProductConfig_field" product_nil
  by (rule struct_decoder_inv, unfold_locales) (auto simp: BtProductConfig_field_def product_nil_def split: if_splits)

interpretation nil_bottingtools: decoder_inv "dec_struct BottingtoolsConfig_field" "\<lambda>b. product_nil (btProduct b)"
  by (rule struct_decoder_inv, unfold_locales) (auto simp: BottingtoolsConfig_field_def dest: nil_product.keep split: if_splits)

interpretation nil_set: decoder_inv "dec_struct ProxySetConfig_field" set_nil
proof (rule struct_decoder_inv, unfold_locales)
  fix k raw x y
  assume "ProxySetConfig_field k raw x = Some y" "set_nil x"
  moreover have "product_nil (btProduct zero_bottingtools)"
    by (simp add: zero_bottingtools_def product_nil_def)
  ultimately show "set_nil y"
    by (auto simp: ProxySetConfig_field_def set_nil_def dest: nil_bottingtools.ptr_keep split: if_splits)
qed

interpretation nil_config: decoder_inv "dec_struct Config_field" "\<lambda>c. list_all set_nil (cfProxySets c)"
proof (rule struct_decoder_inv, unfold_locales)
  fix k raw x y
  assume "Config_field k raw x = Some y" "list_all set_nil (cfProxySets x)"
  moreover have "set_nil zero_set"
    by (simp add: zero_set_def set_nil_def)
  ultimately show "list_all set_nil (cfProxySets y)"
    by (auto simp: Config_field_def dest: nil_set.slice_keep split: if_splits)
qed

lemma Unmarshal_Config_nil:
  assumes "Unmarshal_Config data defaultConfig = Some c"
  shows "list_all set_nil (cfProxySets c)"
  using assms
  by (auto simp: Unmarshal_Config_def bind_eq_Some_conv defaultConfig_def dest!: nil_config.keep split: if_splits)

section \<open>Raw values read back\<close>

lemma tree_ok_Suc: "tree_ok N d t \<Longrightarrow> tree_ok N (Suc d) t"
proof (induction d arbitrary: t)
  case 0
  then show ?case by (cases t) simp_all
next
  case (Suc d)
  show ?case
  proof (cases t)
    case (TArr xs)
    with Suc show ?thesis by (auto simp: list_all_iff simp del: tree_ok.simps(2)) (simp_all add: list_all_iff)
  next
    case (TObj fs)
    with Suc show ?thesis by (auto simp: list_all_iff simp del: tree_ok.simps(2)) (simp_all add: list_all_iff)
  qed (use Suc.prems in simp_all)
qed

lemma tree_ok_mono: "tree_ok N d t \<Longrightarrow> d \<le> e \<Longrightarrow> tree_ok N e t"
  by (induction e) (auto simp: le_Suc_eq intro: tree_ok_Suc simp del: tree_ok.simps)

definition raw_ok :: "string \<Rightarrow> bool" where
  "raw_ok s \<longleftrightarrow> (\<exists>t. tree_ok valid_number maxNestingDepth t \<and> s = tree_text t)"

interpretation raw: reader read_raw "\<lambda>s. s" raw_ok
proof
  fix s t
  assume "raw_ok s" "stops t"
  then obtain v where v: "tree_ok valid_number maxNestingDepth v" "s = tree_text v" by (auto simp: raw_ok_def)
  from tree.reads [OF v(1) \<open>stops t\<close>] tree.skip_item [OF v(1), of t] show "read_raw (s @ t) = Some (s, t)"
    by (simp add: read_raw_def v(2))
next
  fix s
  assume "raw_ok s"
  then show "s \<noteq> [] \<and> \<not> stops s"
    using tree.starts by (auto simp: raw_ok_def)
qed

lemma raw_fields_tree:
  assumes "tree_ok valid_number (Suc d) (TObj fs)" and "d \<le> maxNestingDepth"
  shows "raw_fields (tree_text (TObj fs)) = Some (map (apsnd tree_text) fs)"
proof -
  let ?fs = "map (apsnd tree_text) fs"
  have "list_all (\<lambda>f. utf8_Valid (fst f) \<and> raw_ok (snd f)) ?fs"
    using assms tree_ok_mono [OF _ assms(2)] by (fastforce simp: list_all_iff raw_ok_def)
  from reader.list_read [OF field_reader [OF raw.reader_axioms] this, of "CHR ''}''" "[]"] show ?thesis
    by (simp add: raw_fields_def o_def)
qed

lemma raw_items_tree:
  assumes "tree_ok valid_number (Suc d) (TArr ts)" and "d \<le> maxNestingDepth"
  shows "raw_items (tree_text (TArr ts)) = Some (map tree_text ts)"
proof -
  have "list_all raw_ok (map tree_text ts)"
    using assms tree_ok_mono [OF _ assms(2)] by (fastforce simp: list_all_iff raw_ok_def)
  from raw.list_read [OF this, of "CHR '']''" "[]"] show ?thesis
    by (simp add: raw_items_def)
qed

section \<open>A configuration as JSON\<close>

definition static_tree :: "StaticFileConfig \<Rightarrow> jtree" where
  "static_tree c = TObj [(''proxies_file'', TStr (sfProxiesFile c)), (''format'', TStr (sfFormat c))]"

definition geonode_tree :: "GeonodeConfig \<Rightarrow> jtree" where
  "geonode_tree c = TObj
     [(''username'', TStr (gnUsername c)), (''password_env'', TStr (gnPasswordEnv c)), (''gateway'', TStr (gnGateway c)),
      (''protocol'', TStr (gnProtocol c)), (''countries'', TArr (map TStr (gnCountries c))),
      (''session'', TObj [(''type'', TStr (gsType (gnSession c))), (''sess_time'', TNum (itoa (unat (gsSessTime (gnSession c)))))])]"

definition bottingtools_tree :: "BottingtoolsConfig \<Rightarrow> jtree" where
  "bottingtools_tree c = TObj
     [(''username'', TStr (btUsername c)), (''password_env'', TStr (btPasswordEnv c)), (''host'', TStr (btHost c)),
      (''product'', TObj [(''type'', TStr (bpType (btProduct c)))])]"

definition ptr_tree :: "('a \<Rightarrow> jtree) \<Rightarrow> 'a option \<Rightarrow> jtree" where
  "ptr_tree f p = (case p of None \<Rightarrow> TNull | Some x \<Rightarrow> f x)"

definition set_tree :: "ProxySetConfig \<Rightarrow> jtree" where
  "set_tree c = TObj
     [(''name'', TStr (psName c)), (''source_type'', TStr (psSourceType c)), (''static_file'', ptr_tree static_tree (psStaticFile c)),
      (''bottingtools'', ptr_tree bottingtools_tree (psBottingtools c)), (''geonode'', ptr_tree geonode_tree (psGeonode c))]"

definition config_tree :: "Config \<Rightarrow> jtree" where
  "config_tree c = TObj
     [(''bind_addr'', TStr (cfBindAddr c)), (''socks5_addr'', TStr (cfSocks5Addr c)), (''admin_addr'', TStr (cfAdminAddr c)),
      (''log_level'', TStr (cfLogLevel c)), (''proxy_set'', TArr (map set_tree (cfProxySets c)))]"

text \<open>Configurations that JSON can hold: UTF-8 texts, countries in capital letters, no typed sections.\<close>

definition country_ok :: "Country \<Rightarrow> bool" where
  "country_ok c \<longleftrightarrow> set c \<subseteq> set ''ABCDEFGHIJKLMNOPQRSTUVWXYZ''"

definition static_ok :: "StaticFileConfig \<Rightarrow> bool" where
  "static_ok c \<longleftrightarrow> utf8_Valid (sfProxiesFile c) \<and> utf8_Valid (sfFormat c)"

definition geonode_ok :: "GeonodeConfig \<Rightarrow> bool" where
  "geonode_ok c \<longleftrightarrow> utf8_Valid (gnUsername c) \<and> utf8_Valid (gnPasswordEnv c) \<and> utf8_Valid (gnGateway c) \<and> utf8_Valid (gnProtocol c) \<and>
     list_all country_ok (gnCountries c) \<and> utf8_Valid (gsType (gnSession c))"

definition bottingtools_ok :: "BottingtoolsConfig \<Rightarrow> bool" where
  "bottingtools_ok c \<longleftrightarrow> utf8_Valid (btUsername c) \<and> utf8_Valid (btPasswordEnv c) \<and> utf8_Valid (btHost c) \<and>
     utf8_Valid (bpType (btProduct c)) \<and> product_nil (btProduct c)"

definition set_ok :: "ProxySetConfig \<Rightarrow> bool" where
  "set_ok c \<longleftrightarrow> utf8_Valid (psName c) \<and> utf8_Valid (psSourceType c) \<and> ptr_ok static_ok (psStaticFile c) \<and>
     ptr_ok bottingtools_ok (psBottingtools c) \<and> ptr_ok geonode_ok (psGeonode c)"

definition config_ok :: "Config \<Rightarrow> bool" where
  "config_ok c \<longleftrightarrow> utf8_Valid (cfBindAddr c) \<and> utf8_Valid (cfSocks5Addr c) \<and> utf8_Valid (cfAdminAddr c) \<and> utf8_Valid (cfLogLevel c) \<and>
     list_all set_ok (cfProxySets c)"

lemmas tree_defs = static_tree_def geonode_tree_def bottingtools_tree_def set_tree_def config_tree_def
lemmas ok_defs = static_ok_def geonode_ok_def bottingtools_ok_def set_ok_def config_ok_def

lemma names_ok: "list_all utf8_Valid
  [''proxies_file'', ''format'', ''username'', ''password_env'', ''gateway'', ''protocol'', ''countries'', ''session'', ''type'', ''sess_time'',
   ''host'', ''product'', ''name'', ''source_type'', ''static_file'', ''bottingtools'', ''geonode'', ''bind_addr'', ''socks5_addr'', ''admin_addr'',
   ''log_level'', ''proxy_set'']"
  by code_simp

lemma capital_plain:
  assumes "x \<in> set ''ABCDEFGHIJKLMNOPQRSTUVWXYZ''"
  shows "json_escape x = [x] \<and> upper_char x = x \<and> x \<noteq> CHR 34 \<and> byte x < 128"
proof -
  have "\<forall>x \<in> set ''ABCDEFGHIJKLMNOPQRSTUVWXYZ''. json_escape x = [x] \<and> upper_char x = x \<and> x \<noteq> CHR 34 \<and> byte x < 128"
    by code_simp
  with assms show ?thesis by blast
qed

lemma country_text:
  assumes "country_ok c"
  shows "json_body c = c \<and> ToUpper c = c \<and> CHR 34 \<notin> set c \<and> utf8_Valid c"
  using assms
proof (induction c)
  case (Cons x c)
  then have x: "x \<in> set ''ABCDEFGHIJKLMNOPQRSTUVWXYZ''" and c: "country_ok c"
    by (simp_all add: country_ok_def)
  from capital_plain [OF x] Cons.IH [OF c] show ?case
    by (auto simp: json_body.simps ToUpper_def utf8_Valid_ascii)
qed (simp_all add: ToUpper_def utf8_Valid.simps)

text \<open>Each decoder on the text of its tree.\<close>

named_theorems config_simps

lemma dec_string_text [config_simps]: "utf8_Valid s \<Longrightarrow> dec_string (tree_text (TStr s)) old = Some s"
  using read_string_json [of s "[]"] by (simp add: dec_string_def json_string_def) (simp add: dquote_def)

lemma dec_uint32_text [config_simps]: "dec_uint32 (tree_text (TNum (itoa (unat n)))) old = Some n"
proof -
  have "CHR ''n'' \<notin> set (itoa (unat n))"
    using itoa_is_digit by (fastforce simp: is_digit_def)
  then have "itoa (unat n) \<noteq> ''null''" by auto
  moreover have "unat n < 2 ^ 32"
    using unsigned_less [of n] by simp
  ultimately show ?thesis
    by (simp add: dec_uint32_def parse_digits_itoa)
qed

lemma dec_country_text [config_simps]: "country_ok c \<Longrightarrow> dec_country (tree_text (TStr c)) old = Some c"
proof -
  assume c: "country_ok c"
  have "dropWhile (\<lambda>x. x = CHR 34) s = s" if "CHR 34 \<notin> set s" for s
    using that by (cases s) auto
  from this [of "rev c"] this [of c] country_text [OF c] show ?thesis
    by (cases c) (auto simp: dec_country_def Country_UnmarshalJSON_def json_string_def dquote_def dropWhile_append ToUpper_def Let_def)
qed

lemma dec_struct_text [config_simps]:
  assumes "tree_ok valid_number 6 (TObj fs)"
  shows "dec_struct field (tree_text (TObj fs)) old = store_raw field (map (apsnd tree_text) fs) old"
proof -
  have "tree_ok valid_number (Suc 5) (TObj fs)" "(5 :: nat) \<le> maxNestingDepth"
    using assms by (simp_all add: numeral_eq_Suc maxNestingDepth_def)
  from raw_fields_tree [OF this] show ?thesis
    by (simp add: dec_struct_def)
qed

lemma dec_ptr_text [config_simps]:
  assumes "\<And>x. p = Some x \<Longrightarrow> dec (tree_text (f x)) zero = Some x \<and> tree_text (f x) \<noteq> ''null''"
  shows "dec_ptr dec zero (tree_text (ptr_tree f p)) None = Some p"
  using assms by (cases p) (simp_all add: dec_ptr_def ptr_tree_def)

lemma dec_items_text:
  assumes "\<And>x. x \<in> set xs \<Longrightarrow> dec (tree_text (f x)) zero = Some x"
  shows "dec_items dec zero (map tree_text (map f xs)) [] = Some xs"
  using assms by (induction xs) simp_all

lemma dec_slice_text [config_simps]:
  assumes "tree_ok valid_number 6 (TArr (map f xs))" and "\<And>x. x \<in> set xs \<Longrightarrow> dec (tree_text (f x)) zero = Some x"
  shows "dec_slice dec zero (tree_text (TArr (map f xs))) [] = Some xs"
proof -
  have "tree_ok valid_number (Suc 5) (TArr (map f xs))" "(5 :: nat) \<le> maxNestingDepth"
    using assms by (simp_all add: numeral_eq_Suc maxNestingDepth_def)
  from raw_items_tree [OF this] have "raw_items (tree_text (TArr (map f xs))) = Some (map tree_text (map f xs))" .
  moreover have "tree_text (TArr (map f xs)) \<noteq> ''null''" by simp
  ultimately show ?thesis
    using dec_items_text [of xs dec f zero] assms(2) by (simp add: dec_slice_def del: map_map tree_text.simps)
qed

lemma fold_names [config_simps]:
  "fold_name ''proxies_file'' = ''PROXIES_FILE''" "fold_name ''format'' = ''FORMAT''" "fold_name ''username'' = ''USERNAME''"
  "fold_name ''password_env'' = ''PASSWORD_ENV''" "fold_name ''gateway'' = ''GATEWAY''" "fold_name ''protocol'' = ''PROTOCOL''"
  "fold_name ''countries'' = ''COUNTRIES''" "fold_name ''session'' = ''SESSION''" "fold_name ''type'' = ''TYPE''"
  "fold_name ''sess_time'' = ''SESS_TIME''" "fold_name ''host'' = ''HOST''" "fold_name ''product'' = ''PRODUCT''"
  "fold_name ''name'' = ''NAME''" "fold_name ''source_type'' = ''SOURCE_TYPE''" "fold_name ''static_file'' = ''STATIC_FILE''"
  "fold_name ''bottingtools'' = ''BOTTINGTOOLS''" "fold_name ''geonode'' = ''GEONODE''" "fold_name ''bind_addr'' = ''BIND_ADDR''"
  "fold_name ''socks5_addr'' = ''SOCKS5_ADDR''" "fold_name ''admin_addr'' = ''ADMIN_ADDR''" "fold_name ''log_level'' = ''LOG_LEVEL''"
  "fold_name ''proxy_set'' = ''PROXY_SET''"
  by code_simp+

text \<open>The trees fit the parser.\<close>

lemma static_tree_ok: "static_ok c \<Longrightarrow> tree_ok valid_number (Suc d) (static_tree c)"
  using names_ok by (cases d) (simp_all add: static_tree_def static_ok_def)

lemma bottingtools_tree_ok: "bottingtools_ok c \<Longrightarrow> tree_ok valid_number (Suc (Suc d)) (bottingtools_tree c)"
  using names_ok by (cases d) (simp_all add: bottingtools_tree_def bottingtools_ok_def)

lemma geonode_tree_ok: "geonode_ok c \<Longrightarrow> tree_ok valid_number (Suc (Suc d)) (geonode_tree c)"
  using names_ok by (cases d) (auto simp: geonode_tree_def geonode_ok_def itoa_valid_number list_all_iff country_text)

lemma set_tree_ok: "set_ok c \<Longrightarrow> tree_ok valid_number (Suc (Suc (Suc d))) (set_tree c)"
  using names_ok static_tree_ok [of _ "Suc d"] bottingtools_tree_ok [of _ d] geonode_tree_ok [of _ d]
  by (auto simp: set_tree_def set_ok_def ptr_tree_def split: option.split)

lemma config_tree_ok: "config_ok c \<Longrightarrow> tree_ok valid_number (Suc (Suc (Suc (Suc (Suc d))))) (config_tree c)"
  using names_ok set_tree_ok [of _ d] by (auto simp: config_tree_def config_ok_def list_all_iff)

declare fold_name.simps [simp del]

text \<open>The structs read back.\<close>

lemma trees_not_null:
  "tree_text (static_tree x) \<noteq> ''null''" "tree_text (bottingtools_tree y) \<noteq> ''null''" "tree_text (geonode_tree z) \<noteq> ''null''"
  by (simp_all add: static_tree_def bottingtools_tree_def geonode_tree_def)

lemma six: "(6 :: nat) = Suc (Suc (Suc (Suc (Suc (Suc 0)))))" by simp

lemma static_read: "static_ok c \<Longrightarrow> dec_struct StaticFileConfig_field (tree_text (static_tree c)) old = Some c"
  using static_tree_ok [of c 5]
  by (simp add: static_tree_def static_ok_def config_simps StaticFileConfig_field_def del: tree_text.simps tree_ok.simps)

lemma bottingtools_read:
  assumes "bottingtools_ok c"
  shows "dec_struct BottingtoolsConfig_field (tree_text (bottingtools_tree c)) zero_bottingtools = Some c"
proof -
  have "tree_ok valid_number 6 (TObj [(''type'', TStr (bpType (btProduct c)))])"
    using assms names_ok by (simp add: six bottingtools_ok_def)
  then show ?thesis
    using assms bottingtools_tree_ok [OF assms, of 4]
    by (cases c, cases "btProduct c")
      (simp add: bottingtools_tree_def bottingtools_ok_def product_nil_def zero_bottingtools_def config_simps BottingtoolsConfig_field_def
        BtProductConfig_field_def del: tree_text.simps tree_ok.simps)
qed

lemma geonode_read:
  assumes "geonode_ok c"
  shows "dec_struct GeonodeConfig_field (tree_text (geonode_tree c)) zero_geonode = Some c"
proof -
  let ?s = "TObj [(''type'', TStr (gsType (gnSession c))), (''sess_time'', TNum (itoa (unat (gsSessTime (gnSession c)))))]"
  have "tree_ok valid_number 6 ?s"
    using assms names_ok by (simp add: six geonode_ok_def itoa_valid_number)
  moreover have "tree_ok valid_number 6 (TArr (map TStr (gnCountries c)))"
    using assms by (auto simp: six geonode_ok_def list_all_iff country_text)
  then have "dec_slice dec_country '''' (tree_text (TArr (map TStr (gnCountries c)))) [] = Some (gnCountries c)"
    using assms by (intro dec_slice_text dec_country_text) (auto simp: geonode_ok_def list_all_iff)
  ultimately show ?thesis
    using assms geonode_tree_ok [OF assms, of 4]
    by (simp add: geonode_tree_def geonode_ok_def zero_geonode_def config_simps GeonodeConfig_field_def
        GeonodeSessionConfig_field_def del: tree_text.simps tree_ok.simps)
qed

lemma set_read:
  assumes "set_ok c"
  shows "dec_struct ProxySetConfig_field (tree_text (set_tree c)) zero_set = Some c"
proof -
  have "dec_ptr (dec_struct StaticFileConfig_field) zero_static (tree_text (ptr_tree static_tree (psStaticFile c))) None = Some (psStaticFile c)"
    using assms by (intro dec_ptr_text) (auto simp: set_ok_def static_read trees_not_null)
  moreover have "dec_ptr (dec_struct BottingtoolsConfig_field) zero_bottingtools (tree_text (ptr_tree bottingtools_tree (psBottingtools c))) None = Some (psBottingtools c)"
    using assms by (intro dec_ptr_text) (auto simp: set_ok_def bottingtools_read trees_not_null)
  moreover have "dec_ptr (dec_struct GeonodeConfig_field) zero_geonode (tree_text (ptr_tree geonode_tree (psGeonode c))) None = Some (psGeonode c)"
    using assms by (intro dec_ptr_text) (auto simp: set_ok_def geonode_read trees_not_null)
  ultimately show ?thesis
    using assms set_tree_ok [OF assms, of 3]
    by (simp add: set_tree_def set_ok_def zero_set_def config_simps ProxySetConfig_field_def del: tree_text.simps tree_ok.simps)
qed

lemma config_read:
  assumes "config_ok c"
  shows "Unmarshal_Config (tree_text (config_tree c)) defaultConfig = Some c"
proof -
  have ok: "tree_ok valid_number 6 (config_tree c)"
    using config_tree_ok [OF assms, of "Suc 0"] by (simp only: six)
  then have max: "tree_ok valid_number maxNestingDepth (config_tree c)"
    by (rule tree_ok_mono) (simp add: maxNestingDepth_def)
  have "tree_ok valid_number 6 (TArr (map set_tree (cfProxySets c)))"
    using assms set_tree_ok [of _ 2] by (auto simp: six config_ok_def list_all_iff numeral_2_eq_2 simp del: tree_ok.simps(1))
  then have sets: "dec_slice (dec_struct ProxySetConfig_field) zero_set (tree_text (TArr (map set_tree (cfProxySets c)))) [] = Some (cfProxySets c)"
    using assms by (intro dec_slice_text set_read) (auto simp: config_ok_def list_all_iff)
  have "dec_struct Config_field (tree_text (config_tree c)) defaultConfig = Some c"
    using assms ok sets
    by (simp add: config_tree_def config_ok_def defaultConfig_def config_simps Config_field_def del: tree_text.simps tree_ok.simps)
  moreover have "read_raw (tree_text (config_tree c)) = Some (tree_text (config_tree c), [])"
    using raw.reads [of "tree_text (config_tree c)" "[]"] max by (auto simp: raw_ok_def)
  ultimately show ?thesis
    using json_codec.dec_enc [OF max] by (simp add: Unmarshal_Config_def)
qed

section \<open>Loading a file\<close>

text \<open>\<^verbatim>\<open>filepath.Ext\<close>: from the last dot of the last path element on.\<close>

definition path_Ext :: "string \<Rightarrow> string" where
  "path_Ext path =
     (let base = rev (takeWhile (\<lambda>c. c \<noteq> CHR ''/'') (rev path))
      in case LastIndexByte base CHR ''.'' of None \<Rightarrow> '''' | Some i \<Rightarrow> drop i base)"

text \<open>The decoders of the packages, and the text of the error of \<^verbatim>\<open>json.Unmarshal\<close>.\<close>

record configDecoders =
  cd_yaml :: "string \<Rightarrow> Config \<Rightarrow> string + Config"
  cd_toml :: "string \<Rightarrow> Config \<Rightarrow> string + Config"
  cd_jsonErr :: "string \<Rightarrow> string"

definition json_Unmarshal :: "(string \<Rightarrow> string) \<Rightarrow> string \<Rightarrow> Config \<Rightarrow> string + Config" where
  "json_Unmarshal err data cfg = (case Unmarshal_Config data cfg of None \<Rightarrow> Inl (err data) | Some c \<Rightarrow> Inr c)"

definition LoadConfig :: "(string \<Rightarrow> string + string) \<Rightarrow> configDecoders \<Rightarrow> string \<Rightarrow> error + Config" where
  "LoadConfig readFile ds path =
     (case readFile path of
        Inl e \<Rightarrow> Inl (ErrOther (''reading config '' @ path @ '': '' @ e))
      | Inr data \<Rightarrow>
          let ext = ToLower (path_Ext path);
              unmarshal = (if ext = ''.yaml'' \<or> ext = ''.yml'' then cd_yaml ds
                           else if ext = ''.json'' then json_Unmarshal (cd_jsonErr ds) else cd_toml ds)
          in case unmarshal data defaultConfig of
               Inl e \<Rightarrow> Inl (ErrOther (''parsing config '' @ path @ '': '' @ e))
             | Inr cfg \<Rightarrow> Inr cfg)"


definition demo_config :: Config where
  "demo_config = \<lparr>cfBindAddr = '':8100'', cfSocks5Addr = '':1080'', cfAdminAddr = '''', cfLogLevel = ''info'',
     cfProxySets =
       [\<lparr>psName = ''res'', psSourceType = ''geonode'', psStaticFile = None, psBottingtools = None,
         psGeonode = Some \<lparr>gnUsername = ''acc'', gnPasswordEnv = ''PW'', gnGateway = ''us'', gnProtocol = ''http'',
           gnCountries = [''DE'', ''US''], gnSession = \<lparr>gsType = ''sticky'', gsSessTime = 10\<rparr>\<rparr>\<rparr>]\<rparr>"


text \<open>Whatever bytes the file has, a decoded configuration has no typed Bottingtools section.\<close>

lemma json_config_no_sections:
  assumes "LoadConfig readFile ds path = Inr c" and "ToLower (path_Ext path) = ''.json''"
  shows "list_all set_nil (cfProxySets c)"
  using assms
  by (auto simp: LoadConfig_def json_Unmarshal_def Let_def dest: Unmarshal_Config_nil split: sum.splits option.splits)

text \<open>Values that are no strings are taken as countries: a null is the country \<^verbatim>\<open>NULL\<close>.\<close>

lemma null_country: "dec_country ''null'' old = Some ''NULL'' \<and> dec_country ''7'' old = Some ''7''"
  by (simp add: dec_country_def Country_UnmarshalJSON_def) code_simp

end
