(* ===== verification/Header.thy ===== *)
theory Header
  imports Core GoStrings "HOL-Library.AList"
begin

text \<open>
  The parts of \<^verbatim>\<open>net/http\<close> the servers use: header maps with canonical keys, and response writers
  with \<^verbatim>\<open>WriteHeader\<close>, \<^verbatim>\<open>Write\<close> and \<^verbatim>\<open>http.Error\<close>.
\<close>

named_theorems http_simps \<open>execution of response writers\<close>

section \<open>Headers\<close>

definition token_char :: "char \<Rightarrow> bool" where
  "token_char c \<longleftrightarrow> c \<in> set ''!#$%&*+-.^_`|~0123456789abcdefghijklmnopqrstuvwxyzABCDEFGHIJKLMNOPQRSTUVWXYZ'' \<or> c = CHR 0x27"

fun canon_loop :: "bool \<Rightarrow> string \<Rightarrow> string" where
  "canon_loop up [] = []"
| "canon_loop up (c # cs) = (if up then upper_char c else lower_char c) # canon_loop (c = CHR ''-'') cs"

text \<open>\<^verbatim>\<open>http.CanonicalHeaderKey\<close>: a key with a character that is not allowed stays as it is.\<close>

definition CanonicalHeaderKey :: "string \<Rightarrow> string" where
  "CanonicalHeaderKey k = (if list_all token_char k then canon_loop True k else k)"

definition Header_values :: "header \<Rightarrow> string \<Rightarrow> string list" where
  "Header_values h k = (case map_of h k of Some vs \<Rightarrow> vs | None \<Rightarrow> [])"

definition Header_Get :: "header \<Rightarrow> string \<Rightarrow> string" where
  "Header_Get h k = (case Header_values h (CanonicalHeaderKey k) of v # _ \<Rightarrow> v | [] \<Rightarrow> '''')"

definition Header_Set :: "string \<Rightarrow> string \<Rightarrow> header \<Rightarrow> header" where
  "Header_Set k v h = AList.update (CanonicalHeaderKey k) [v] h"

definition Header_Add :: "string \<Rightarrow> string \<Rightarrow> header \<Rightarrow> header" where
  "Header_Add k v h = AList.update (CanonicalHeaderKey k) (Header_values h (CanonicalHeaderKey k) @ [v]) h"

definition Header_Del :: "string \<Rightarrow> header \<Rightarrow> header" where
  "Header_Del k h = AList.delete (CanonicalHeaderKey k) h"

text \<open>\<^verbatim>\<open>for k, vs := range src \<dots> dst.Add(k, v)\<close>.\<close>

definition add_all :: "header \<Rightarrow> header \<Rightarrow> header" where
  "add_all src dst = fold (\<lambda>(k, vs) h. fold (Header_Add k) vs h) src dst"

lemma Header_values_simps [simp]:
  "Header_values [] k = []" "Header_values ((k', vs) # h) k = (if k = k' then vs else Header_values h k)"
  by (simp_all add: Header_values_def)

lemma Header_values_Set [http_simps]:
  "Header_values (Header_Set k v h) k' = (if k' = CanonicalHeaderKey k then [v] else Header_values h k')"
  by (simp add: Header_values_def Header_Set_def update_conv')

lemma Header_values_Add [http_simps]:
  "Header_values (Header_Add k v h) k' =
     (if k' = CanonicalHeaderKey k then Header_values h k' @ [v] else Header_values h k')"
  by (simp add: Header_values_def Header_Add_def update_conv')

lemma Header_values_Del [http_simps]:
  "Header_values (Header_Del k h) k' = (if k' = CanonicalHeaderKey k then [] else Header_values h k')"
  by (simp add: Header_values_def Header_Del_def delete_conv')

lemma Header_values_Add_list:
  "Header_values (fold (Header_Add k) vs h) k' =
     (if k' = CanonicalHeaderKey k then Header_values h k' @ vs else Header_values h k')"
  by (induction vs arbitrary: h) (simp_all add: http_simps)

text \<open>Copying headers whose keys are distinct and canonical, as those of a parsed response are,
  appends the values of each key.\<close>

lemma Header_values_add_all:
  assumes "distinct (map fst src)" and "\<forall>k \<in> fst ` set src. CanonicalHeaderKey k = k"
  shows "Header_values (add_all src dst) k = Header_values dst k @ Header_values src k"
  using assms
proof (induction src arbitrary: dst)
  case (Cons p src)
  obtain k1 vs where p: "p = (k1, vs)" by fastforce
  have "Header_values src k1 = []"
    using Cons.prems(1) map_of_eq_None_iff [of src k1] by (simp add: p Header_values_def)
  with Cons show ?case
    by (simp add: add_all_def p Header_values_Add_list)
qed (simp add: add_all_def)

section \<open>Response writers\<close>

text \<open>
  \<open>w_hijack\<close> is \<open>None\<close> when the writer is no \<^verbatim>\<open>http.Hijacker\<close>, and else says whether \<^verbatim>\<open>Hijack\<close> succeeds;
  \<open>w_closed\<close> is the client connection after it was hijacked.
\<close>

record ResponseWriter =
  w_header :: header
  w_status :: "int option"
  w_body :: string
  w_hijack :: "bool option"
  w_closed :: bool

definition WriteHeader :: "int \<Rightarrow> ResponseWriter \<Rightarrow> ResponseWriter" where
  "WriteHeader code w = (case w_status w of None \<Rightarrow> w\<lparr>w_status := Some code\<rparr> | Some _ \<Rightarrow> w)"

definition rw_Write :: "string \<Rightarrow> ResponseWriter \<Rightarrow> ResponseWriter" where
  "rw_Write data w = (WriteHeader 200 w)\<lparr>w_body := w_body w @ data\<rparr>"

definition on_header :: "(header \<Rightarrow> header) \<Rightarrow> ResponseWriter \<Rightarrow> ResponseWriter" where
  "on_header f w = w\<lparr>w_header := f (w_header w)\<rparr>"

definition http_Error :: "ResponseWriter \<Rightarrow> string \<Rightarrow> int \<Rightarrow> ResponseWriter" where
  "http_Error w msg code =
     rw_Write (msg @ [CHR 0x0A]) (WriteHeader code
       (on_header (Header_Set ''X-Content-Type-Options'' ''nosniff'' \<circ>
          Header_Set ''Content-Type'' ''text/plain; charset=utf-8'' \<circ> Header_Del ''Content-Length'') w))"

lemma http_Error_status [http_simps]: "w_status w = None \<Longrightarrow> w_status (http_Error w msg code) = Some code"
  by (simp add: http_Error_def rw_Write_def WriteHeader_def on_header_def)

lemma http_Error_closed [http_simps]: "w_closed (http_Error w msg code) = w_closed w"
  by (simp add: http_Error_def rw_Write_def WriteHeader_def on_header_def split: option.split)

text \<open>The pieces of a body, written one after the other; empty reads write nothing.\<close>

definition write_body :: "string list \<Rightarrow> ResponseWriter \<Rightarrow> ResponseWriter" where
  "write_body = fold (\<lambda>chunk w. if chunk \<noteq> [] then rw_Write chunk w else w)"

lemma write_body_after_header:
  "w_status w = Some code \<Longrightarrow> write_body chunks w = w\<lparr>w_body := w_body w @ concat chunks\<rparr>"
proof (induction chunks arbitrary: w)
  case (Cons c chunks)
  then show ?case by (cases "c = []") (simp_all add: write_body_def rw_Write_def WriteHeader_def)
qed (simp add: write_body_def)

definition new_writer :: ResponseWriter where
  "new_writer = \<lparr>w_header = [], w_status = None, w_body = '''', w_hijack = Some True, w_closed = False\<rparr>"

end
