(* ===== verification/Api.thy ===== *)
theory Api
  imports ConfigFile Header Base64
begin

text \<open>
  The admin API of \<^verbatim>\<open>proxy-gateway\<close>: the handlers and the bearer authentication of \<^verbatim>\<open>api.go\<close>, the
  routes of \<^verbatim>\<open>server.go\<close>, and the start-up decisions of \<^verbatim>\<open>server.go\<close> and \<^verbatim>\<open>main.go\<close>. The matching of paths
  by the router \<^verbatim>\<open>chi\<close> is a parameter.
\<close>

section \<open>Time stamps\<close>

text \<open>\<^verbatim>\<open>t.UTC().Format("2006-01-02T15:04:05Z")\<close> for an instant in nanoseconds since the epoch, from the
  year 0 to the year 9999.\<close>

definition civil_date :: "int \<Rightarrow> int \<times> int \<times> int" where
  "civil_date days =
     (let z = days + 719468; era = z div 146097; doe = z mod 146097;
          yoe = (doe - doe div 1460 + doe div 36524 - doe div 146096) div 365;
          doy = doe - (365 * yoe + yoe div 4 - yoe div 100);
          mp = (5 * doy + 2) div 153;
          d = doy - (153 * mp + 2) div 5 + 1;
          m = (if mp < 10 then mp + 3 else mp - 9)
      in (yoe + era * 400 + (if m \<le> 2 then 1 else 0), m, d))"

definition pad :: "nat \<Rightarrow> int \<Rightarrow> string" where
  "pad width n = (let s = itoa (nat n) in replicate (width - length s) CHR ''0'' @ s)"

definition formatTime :: "int \<Rightarrow> string" where
  "formatTime t =
     (let secs = t div 1000000000; (y, m, d) = civil_date (secs div 86400); r = secs mod 86400
      in pad 4 y @ ''-'' @ pad 2 m @ ''-'' @ pad 2 d @ ''T'' @ pad 2 (r div 3600) @ '':'' @ pad 2 (r div 60 mod 60) @ '':'' @
         pad 2 (r mod 60) @ ''Z'')"

section \<open>Responses\<close>

record apiSessionInfo =
  as_SessionID :: u64
  as_Username :: string
  as_ProxySet :: string
  as_Upstream :: string
  as_CreatedAt :: string
  as_NextRotationAt :: string
  as_LastRotationAt :: string
  as_Metadata :: meta

datatype apiBody = ApiError string | ApiSession apiSessionInfo | ApiList "apiSessionInfo list"

definition toAPISessionInfo :: "float_parser \<Rightarrow> SessionInfo \<Rightarrow> apiSessionInfo" where
  "toAPISessionInfo pf info =
     (let u = ParseUsername pf (si_Label info) in
      \<lparr>as_SessionID = si_ID info,
       as_Username = EncodeToString std_alphabet (si_Label info),
       as_ProxySet = (case u of Inl _ \<Rightarrow> '''' | Inr x \<Rightarrow> apSet (uAffinity x)),
       as_Upstream = si_Upstream info,
       as_CreatedAt = formatTime (si_CreatedAt info),
       as_NextRotationAt = formatTime (si_ExpiresAt info),
       as_LastRotationAt = formatTime (si_LastRotationAt info),
       as_Metadata = (case u of Inl _ \<Rightarrow> [] | Inr x \<Rightarrow> apMeta (uAffinity x))\<rparr>)"

text \<open>\<^verbatim>\<open>json.Encoder.Encode\<close> of the response types: the fields in the order of the structs, under the names of
  their tags.\<close>

definition session_tree :: "(u64 \<Rightarrow> string) \<Rightarrow> apiSessionInfo \<Rightarrow> jtree" where
  "session_tree num i = TObj
     [(''session_id'', TNum (itoa (unat (as_SessionID i)))),
      (''username'', TStr (as_Username i)),
      (''proxy_set'', TStr (as_ProxySet i)),
      (''upstream'', TStr (as_Upstream i)),
      (''created_at'', TStr (as_CreatedAt i)),
      (''next_rotation_at'', TStr (as_NextRotationAt i)),
      (''last_rotation_at'', TStr (as_LastRotationAt i)),
      (''metadata'', tree_of num (canon_json (JObj (as_Metadata i))))]"

fun body_tree :: "(u64 \<Rightarrow> string) \<Rightarrow> apiBody \<Rightarrow> jtree" where
  "body_tree num (ApiError e) = TObj [(''error'', TStr e)]"
| "body_tree num (ApiSession i) = session_tree num i"
| "body_tree num (ApiList is) = TArr (map (session_tree num) is)"

definition writeJSON :: "(u64 \<Rightarrow> string) \<Rightarrow> ResponseWriter \<Rightarrow> int \<Rightarrow> apiBody \<Rightarrow> ResponseWriter" where
  "writeJSON num w code v =
     rw_Write (tree_text (body_tree num v) @ [CHR 0x0A]) (WriteHeader code (on_header (Header_Set ''Content-Type'' ''application/json'') w))"

section \<open>Handlers\<close>

text \<open>A handler gets the request, the \<^verbatim>\<open>username\<close> of its path, the writer and the state of the sessions;
  panics are the recoverer's.\<close>

type_synonym 'w apiHandler = "HTTPRequest \<Rightarrow> string \<Rightarrow> ResponseWriter \<times> SessionManager \<times> 'w \<Rightarrow> ResponseWriter outcome \<times> SessionManager \<times> 'w"

definition bearerAuth :: "(u64 \<Rightarrow> string) \<Rightarrow> string \<Rightarrow> 'w apiHandler \<Rightarrow> 'w apiHandler" where
  "bearerAuth num apiKey next r username ws =
     (case CutPrefix (Header_Get (hqHeader r) ''Authorization'') ''Bearer '' of
        Some token \<Rightarrow>
          if token \<noteq> apiKey
          then (Ret (writeJSON num (on_header (Header_Set ''WWW-Authenticate'' ''Bearer'') (fst ws)) 401 (ApiError ''Invalid or missing API key'')), snd ws)
          else next r username ws
      | None \<Rightarrow>
          (Ret (writeJSON num (on_header (Header_Set ''WWW-Authenticate'' ''Bearer'') (fst ws)) 401 (ApiError ''Invalid or missing API key'')), snd ws))"

definition decodeBase64Username :: "float_parser \<Rightarrow> string \<Rightarrow> error + Username" where
  "decodeBase64Username pf encoded =
     (case DecodeString std_alphabet encoded of
        Some raw \<Rightarrow> ParseUsername pf raw
      | None \<Rightarrow>
          (case DecodeString url_alphabet encoded of
             Some raw \<Rightarrow> ParseUsername pf raw
           | None \<Rightarrow> Inl ErrInvalidBase64))"

definition handleListSessions :: "float_parser \<Rightarrow> (u64 \<Rightarrow> string) \<Rightarrow> 'w clock \<Rightarrow> u64 list \<Rightarrow> 'w apiHandler" where
  "handleListSessions pf num clk order r username ws =
     (let (w, m, s) = ws; (entries, s') = ListEntries clk order m s
      in (Ret (writeJSON num w 200 (ApiList (map (toAPISessionInfo pf) entries))), m, s'))"

definition handleGetSession :: "float_parser \<Rightarrow> (u64 \<Rightarrow> string) \<Rightarrow> 'w clock \<Rightarrow> 'w apiHandler" where
  "handleGetSession pf num clk r username ws =
     (let (w, m, s) = ws in
      case decodeBase64Username pf username of
        Inl _ \<Rightarrow> (Ret (writeJSON num w 400 (ApiError ''invalid username'')), m, s)
      | Inr u \<Rightarrow>
          (case GetSession clk m (AffinityParams_Seed num (uAffinity u)) s of
             (None, s') \<Rightarrow> (Ret (writeJSON num w 404 (ApiError ''no active session'')), m, s')
           | (Some info, s') \<Rightarrow> (Ret (writeJSON num w 200 (ApiSession (toAPISessionInfo pf info))), m, s')))"

definition handleForceRotate :: "(error \<Rightarrow> string) \<Rightarrow> float_parser \<Rightarrow> (u64 \<Rightarrow> string) \<Rightarrow> 'w clock \<Rightarrow> 'w handler \<Rightarrow> 'w apiHandler" where
  "handleForceRotate errText pf num clk next r username ws =
     (let (w, m, s) = ws in
      case decodeBase64Username pf username of
        Inl _ \<Rightarrow> (Ret (writeJSON num w 400 (ApiError ''invalid username'')), m, s)
      | Inr u \<Rightarrow>
          (case ForceRotate clk next (AffinityParams_Seed num (uAffinity u)) (m, s) of
             (Panicked p, m', s') \<Rightarrow> (Panicked p, m', s')
           | (Ret (info, Some err), m', s') \<Rightarrow> (Ret (writeJSON num w 500 (ApiError (errText err))), m', s')
           | (Ret (None, None), m', s') \<Rightarrow> (Ret (writeJSON num w 404 (ApiError ''no active session'')), m', s')
           | (Ret (Some info, None), m', s') \<Rightarrow>
               (Ret (writeJSON num w 200 (ApiSession (toAPISessionInfo pf info))), m', s')))"

section \<open>Routes\<close>

text \<open>The routes of \<^verbatim>\<open>buildAdminServer\<close>, method and pattern first.\<close>

definition admin_routes :: "(error \<Rightarrow> string) \<Rightarrow> float_parser \<Rightarrow> (u64 \<Rightarrow> string) \<Rightarrow> 'w clock \<Rightarrow> u64 list \<Rightarrow> 'w handler \<Rightarrow> string \<Rightarrow>
    (string \<times> string \<times> 'w apiHandler) list" where
  "admin_routes errText pf num clk order next apiKey =
     [(''GET'', ''/api/sessions'', bearerAuth num apiKey (handleListSessions pf num clk order)),
      (''GET'', ''/api/sessions/{username}'', bearerAuth num apiKey (handleGetSession pf num clk)),
      (''POST'', ''/api/sessions/{username}/rotate'', bearerAuth num apiKey (handleForceRotate errText pf num clk next))]"

definition admin_patterns :: "(string \<times> string) list" where
  "admin_patterns = [(''GET'', ''/api/sessions''), (''GET'', ''/api/sessions/{username}''), (''POST'', ''/api/sessions/{username}/rotate'')]"

text \<open>
  \<^verbatim>\<open>chi\<close>: given the methods and patterns, the position of the route of a request and its path
  parameter, or the router's own answer for a request no route takes.
\<close>

type_synonym chi = "(string \<times> string) list \<Rightarrow> HTTPRequest \<Rightarrow> (nat \<times> string) + (ResponseWriter \<Rightarrow> ResponseWriter)"

definition adminServer :: "chi \<Rightarrow> (error \<Rightarrow> string) \<Rightarrow> float_parser \<Rightarrow> (u64 \<Rightarrow> string) \<Rightarrow> 'w clock \<Rightarrow> u64 list \<Rightarrow> 'w handler \<Rightarrow> string \<Rightarrow>
    HTTPRequest \<Rightarrow> ResponseWriter \<times> SessionManager \<times> 'w \<Rightarrow> ResponseWriter outcome \<times> SessionManager \<times> 'w" where
  "adminServer route errText pf num clk order next apiKey r ws =
     (let routes = admin_routes errText pf num clk order next apiKey in
      case route (map (\<lambda>(m, p, h). (m, p)) routes) r of
        Inr notFound \<Rightarrow> (Ret (notFound (fst ws)), snd ws)
      | Inl (i, username) \<Rightarrow>
          if i < length routes then snd (snd (routes ! i)) r username ws else (Ret (fst ws), snd ws))"

section \<open>Starting the program\<close>

datatype logLevel = LevelDebug | LevelInfo | LevelWarn | LevelError

definition initLogging :: "string \<Rightarrow> logLevel" where
  "initLogging level =
     (if level = ''debug'' then LevelDebug
      else if level = ''warn'' \<or> level = ''warning'' then LevelWarn
      else if level = ''error'' then LevelError
      else LevelInfo)"

text \<open>The listeners \<^verbatim>\<open>RunServer\<close> starts: the admin API, SOCKS5, and always the HTTP proxy.\<close>

definition RunServer_listeners :: "Config \<Rightarrow> string \<Rightarrow> string option \<times> string option \<times> string" where
  "RunServer_listeners cfg apiKey =
     (if apiKey \<noteq> '''' \<and> cfAdminAddr cfg \<noteq> '''' then Some (cfAdminAddr cfg) else None,
      if cfSocks5Addr cfg \<noteq> '''' then Some (cfSocks5Addr cfg) else None,
      cfBindAddr cfg)"

section \<open>Response bodies\<close>

text \<open>What the API writes parses to what it was written from, for texts that are valid UTF-8.\<close>

lemma response_parses:
  assumes "tree_ok valid_number maxNestingDepth (body_tree num b)"
  shows "parse_json (tree_text (body_tree num b) @ [CHR 0x0A]) = Some (body_tree num b)"
  using tree.reads [OF assms, of "[CHR 0x0A]"] by (simp add: parse_json_def stops_def json_space_def skip_ws_def)

section \<open>What a request does to the sessions\<close>

lemma bearerAuth_cases:
  assumes "bearerAuth num key h r u ws = (out, x)"
  shows "x = snd ws \<or> h r u ws = (out, x)"
  using assms by (auto simp: bearerAuth_def split: option.splits if_splits)

lemma adminServer_cases:
  assumes "adminServer route errText pf num clk order next key r (w, m, s) = (out, m', s')"
  obtains (same) "m' = m" "s' = s" | (listed) es where "m' = m" "ListEntries clk order m s = (es, s')"
    | (got) k e where "m' = m" "GetSession clk m k s = (e, s')"
    | (rotated) raw u x where "route admin_patterns r = Inl (2, raw)" "decodeBase64Username pf raw = Inr u"
        "ForceRotate clk next (AffinityParams_Seed num (uAffinity u)) (m, s) = (x, m', s')"
proof -
  let ?routes = "admin_routes errText pf num clk order next key"
  have pats: "map (\<lambda>(m, p, h). (m, p)) ?routes = admin_patterns"
    by (simp add: admin_routes_def admin_patterns_def)
  consider (none) "m' = m" "s' = s" | (route) i u where "route admin_patterns r = Inl (i, u)" "i < length ?routes"
      "snd (snd (?routes ! i)) r u (w, m, s) = (out, m', s')"
    using assms by (auto simp: adminServer_def pats Let_def split: sum.splits if_splits)
  then show thesis
  proof cases
    case (route i u)
    then consider "i = 0" | "i = 1" | "i = 2"
      by (simp add: admin_routes_def) linarith
    then show thesis
    proof cases
      case 1
      with route bearerAuth_cases [of num key "handleListSessions pf num clk order" r u "(w, m, s)" out "(m', s')"] same listed show thesis
        by (auto simp: admin_routes_def handleListSessions_def split: prod.splits)
    next
      case 2
      with route bearerAuth_cases [of num key "handleGetSession pf num clk" r u "(w, m, s)" out "(m', s')"] same got show thesis
        by (auto simp: admin_routes_def handleGetSession_def split: prod.splits sum.splits option.splits)
    next
      case 3
      with route bearerAuth_cases [of num key "handleForceRotate errText pf num clk next" r u "(w, m, s)" out "(m', s')"] same rotated show thesis
        by (auto simp: admin_routes_def handleForceRotate_def split: prod.splits sum.splits option.splits outcome.splits)
    qed
  qed (rule same)
qed

section \<open>The key guards the API\<close>

definition unauthorized :: "(u64 \<Rightarrow> string) \<Rightarrow> ResponseWriter \<Rightarrow> ResponseWriter" where
  "unauthorized num w =
     writeJSON num (on_header (Header_Set ''WWW-Authenticate'' ''Bearer'') w) 401 (ApiError ''Invalid or missing API key'')"

lemma CutPrefix_Some: "CutPrefix s p = Some t \<longleftrightarrow> s = p @ t"
  by (auto simp: CutPrefix_def HasPrefix_def) (metis append_take_drop_id)

lemma bearerAuth_denied:
  assumes "Header_Get (hqHeader r) ''Authorization'' \<noteq> ''Bearer '' @ apiKey"
  shows "bearerAuth num apiKey next r username ws = (Ret (unauthorized num (fst ws)), snd ws)"
proof (cases "CutPrefix (Header_Get (hqHeader r) ''Authorization'') ''Bearer ''")
  case (Some token)
  then have "token \<noteq> apiKey"
    using assms by (auto simp: CutPrefix_Some)
  with Some show ?thesis
    by (simp add: bearerAuth_def unauthorized_def)
qed (simp add: bearerAuth_def unauthorized_def)

text \<open>
  C9: Nothing of the admin API works without the key. However the router matches paths, a
  request whose \<^verbatim>\<open>Authorization\<close> header is not the configured key with the prefix \<^verbatim>\<open>Bearer\<close> gets an
  answer that does not depend on the sessions, changes neither sessions, sources nor clock, and
  is the 401 response whenever one of the routes matched.
\<close>
theorem admin_requires_key:
  assumes "Header_Get (hqHeader r) ''Authorization'' \<noteq> ''Bearer '' @ apiKey"
  shows "\<exists>w'. (\<forall>m s. adminServer route errText pf num clk order next apiKey r (w, m, s) = (Ret w', m, s)) \<and>
    (\<forall>i username. route [(''GET'', ''/api/sessions''), (''GET'', ''/api/sessions/{username}''), (''POST'', ''/api/sessions/{username}/rotate'')] r =
        Inl (i, username) \<and> i < 3 \<longrightarrow> w' = unauthorized num w)"
proof -
  let ?pats = "[(''GET'', ''/api/sessions''), (''GET'', ''/api/sessions/{username}''), (''POST'', ''/api/sessions/{username}/rotate'')]"
  let ?routes = "admin_routes errText pf num clk order next apiKey"
  have pats: "map (\<lambda>(m, p, h). (m, p)) ?routes = ?pats" "length ?routes = 3"
    by (simp_all add: admin_routes_def)
  have denied: "snd (snd (?routes ! i)) r username (w, m, s) = (Ret (unauthorized num w), m, s)" if "i < 3" for i username m s
    using that by (auto simp: admin_routes_def bearerAuth_denied [OF assms] less_Suc_eq numeral_3_eq_3)
  show ?thesis
  proof (cases "route ?pats r")
    case (Inl iu)
    then show ?thesis
      using denied pats by (cases iu; cases "fst iu < 3") (auto simp: adminServer_def Let_def)
  next
    case (Inr f)
    then show ?thesis
      using pats by (auto simp: adminServer_def Let_def)
  qed
qed

definition demo_api_request :: HTTPRequest where
  "demo_api_request = \<lparr>hqMethod = ''GET'', hqScheme = '''', hqURLHost = '''', hqPath = ''/api/sessions'', hqHost = ''localhost'',
     hqRequestURI = ''/api/sessions'', hqHeader = [(''Authorization'', [''Bearer guess''])], hqContentLength = 0\<rparr>"

theorem admin_requires_key_witness:
  "\<exists>w'. (\<forall>m s. adminServer (\<lambda>pats r. Inl (0, '''')) (\<lambda>e. '''') (\<lambda>s. None) bits_text (\<lambda>t. (0, t)) [] (\<lambda>ctx req t. (Ret (None, None), t)) ''s3cret''
       demo_api_request (new_writer, m, s :: nat) = (Ret w', m, s)) \<and> w' = unauthorized bits_text new_writer"
proof -
  have "Header_Get (hqHeader demo_api_request) ''Authorization'' \<noteq> ''Bearer '' @ ''s3cret''"
    by code_simp
  from admin_requires_key [OF this, of "\<lambda>pats r. Inl (0, '''')" "\<lambda>e. ''''" "\<lambda>s. None" bits_text "\<lambda>t. (0, t)" "[]"
      "\<lambda>ctx req t. (Ret (None, None), t)" new_writer]
  show ?thesis by auto
qed

section \<open>Listed sessions can be addressed\<close>

text \<open>A session is filed under the seed of the user name it is labelled with.\<close>

definition filed :: "float_parser \<Rightarrow> (u64 \<Rightarrow> string) \<Rightarrow> SessionManager \<Rightarrow> bool" where
  "filed pf num m \<longleftrightarrow> (\<forall>tls e. sm_entries m tls = Some e \<longrightarrow>
     (\<exists>u. ParseUsername pf (se_label e) = Inr u \<and> AffinityParams_Seed num (uAffinity u) = tls))"

lemma filed_update:
  assumes "filed pf num m" and "ParseUsername pf (se_label e) = Inr u" and "AffinityParams_Seed num (uAffinity u) = tls"
  shows "filed pf num (m\<lparr>sm_entries := (sm_entries m)(tls \<mapsto> e)\<rparr>)"
  using assms by (auto simp: filed_def)

lemma alloc_filed: "alloc_id m = (i, m1) \<Longrightarrow> filed pf num m1 = filed pf num m"
  by (auto simp: alloc_id_def filed_def)

lemma sm_store_filed:
  assumes "sm_store clk tls ne (m, w) = (x, m', w')" and "filed pf num m"
    and "ParseUsername pf (se_label ne) = Inr u" and "AffinityParams_Seed num (uAffinity u) = tls"
  shows "filed pf num m'"
  using assms filed_update [OF assms(2-4)]
  by (auto simp: sm_store_def Let_def split: prod.splits option.splits)

lemma Resolve_filed:
  assumes "SessionManager_Resolve clk next ctx req (m, w) = (r, m', w')" and "filed pf num m"
    and "ParseUsername pf (GetSessionLabel ctx) = Inr u" and "AffinityParams_Seed num (uAffinity u) = GetTopLevelSeed ctx"
  shows "filed pf num m'"
proof -
  have label: "se_label (new_entry tls (WithSessionSeed ctx sd) p i ttl now) = GetSessionLabel ctx" for tls sd p i ttl now
    by (simp add: new_entry_def)
  have stored: "filed pf num m''"
    if "alloc_id m = (i, m1)" "sm_store clk (GetTopLevelSeed ctx) (new_entry (GetTopLevelSeed ctx) (WithSessionSeed ctx sd) p i ttl now) (m1, w1) = (x, m'', w'')"
    for i m1 sd p ttl now w1 x m'' w''
    using sm_store_filed [OF that(2) _ _ assms(4)] alloc_filed [OF that(1)] assms(2,3) label by auto
  show ?thesis
    using assms(1,2)
    by (auto simp: SessionManager_Resolve_def Let_def dest: stored split: if_splits prod.splits option.splits outcome.splits)
qed

lemma Pipeline_filed:
  assumes "Pipeline pf num fmt password ctx req (m, sw) = (r, m', sw')" and "filed pf num m"
  shows "filed pf num m'"
proof (cases "authorized password req \<and> RawUsername req \<noteq> ''''")
  case True
  show ?thesis
  proof (cases "ParseUsername pf (RawUsername req)")
    case (Inl e)
    with assms True show ?thesis by (simp add: Pipeline_cases)
  next
    case (Inr u)
    with assms(1) True have "SessionManager_Resolve source_clock (router_Resolve fmt) (creds_ctx num u ctx) req (m, sw) = (r, m', sw')"
      by (simp add: Pipeline_cases)
    from Resolve_filed [OF this assms(2)] Inr ParseUsername_raw [OF Inr] show ?thesis by simp
  qed
qed (use assms in \<open>auto simp: Pipeline_cases split: if_splits\<close>)

lemma ForceRotate_filed:
  assumes "ForceRotate clk next tls (m, w) = (r, m', w')" and "filed pf num m"
  shows "filed pf num m'"
proof -
  have commit: "filed pf num m''" if "fr_commit tls p rot dur now m = (i, m'')" for p rot dur now i m''
    using that assms(2) by (auto simp: fr_commit_def filed_def Let_def split: option.splits if_splits)
  show ?thesis
    using assms by (auto simp: ForceRotate_def Let_def split: prod.splits option.splits outcome.splits if_splits dest: commit)
qed

lemma cleanup_filed: "filed pf num m \<Longrightarrow> filed pf num (cleanup now m)"
  by (auto simp: filed_def cleanup_def split: option.splits if_splits)

text \<open>The states of a running gateway: requests to the proxy and to the admin API, and clean-up, from the
  server \<^verbatim>\<open>BuildServer\<close> returns.\<close>

inductive gateway_reach :: "float_parser \<Rightarrow> (u64 \<Rightarrow> string) \<Rightarrow> (json \<Rightarrow> string) \<Rightarrow> string \<Rightarrow> serverState \<Rightarrow> bool"
  for pf num fmt password where
  built: "BuildServer readFile getenv proxySets configDir w = Inr s \<Longrightarrow> gateway_reach pf num fmt password s"
| request: "gateway_reach pf num fmt password s \<Longrightarrow> Pipeline pf num fmt password ctx req s = (r, s') \<Longrightarrow>
    gateway_reach pf num fmt password s'"
| admin: "gateway_reach pf num fmt password (m, sw) \<Longrightarrow>
    adminServer route errText pf num source_clock order (router_Resolve fmt) apiKey q (w, m, sw) = (r, m', sw') \<Longrightarrow>
    gateway_reach pf num fmt password (m', sw')"
| tick: "gateway_reach pf num fmt password s \<Longrightarrow> gateway_reach pf num fmt password (cleanup_tick source_clock s)"

lemma gateway_filed: "gateway_reach pf num fmt password s \<Longrightarrow> filed pf num (fst s)"
proof (induction rule: gateway_reach.induct)
  case (built readFile getenv proxySets configDir w s)
  then show ?case by (auto simp: BuildServer_def NewSessionManager_def filed_def split: sum.splits)
next
  case (request s ctx req r s')
  then show ?case by (metis Pipeline_filed prod.collapse)
next
  case (admin m sw route errText order apiKey q w r m' sw')
  from admin.hyps(2) admin.IH show ?case
    by (cases rule: adminServer_cases) (auto dest: ForceRotate_filed)
next
  case (tick s)
  then show ?case by (cases s) (simp add: cleanup_tick_def Let_def cleanup_filed split: prod.split)
qed

text \<open>
  C8: What the API lists, the API finds. In every state a running gateway reaches, take any session
  of the list: asking for the user name shown with it, while the session has not expired,
  answers 200 with the same session.
\<close>
theorem listed_sessions_addressable:
  assumes "gateway_reach pf num fmt password (m, sw)"
    and "info \<in> set (fst (ListEntries source_clock order m sw))"
    and "fst (source_clock sw') < si_ExpiresAt info"
  shows "handleGetSession pf num source_clock q (as_Username (toAPISessionInfo pf info)) (w, m, sw') =
    (Ret (writeJSON num w 200 (ApiSession (toAPISessionInfo pf info))), m, snd (source_clock sw'))"
proof -
  obtain tls e where e: "sm_entries m tls = Some e" "info = sessionInfoFrom tls e"
    using assms(2) by (auto simp: ListEntries_def Let_def case_prod_beta list_loop_set)
  obtain u where u: "ParseUsername pf (se_label e) = Inr u" "AffinityParams_Seed num (uAffinity u) = tls"
    using gateway_filed [OF assms(1)] e(1) by (auto simp: filed_def)
  have "as_Username (toAPISessionInfo pf info) = EncodeToString std_alphabet (se_label e)"
    by (simp add: toAPISessionInfo_def Let_def e(2) sessionInfoFrom_def)
  then have "decodeBase64Username pf (as_Username (toAPISessionInfo pf info)) = Inr u"
    by (simp add: decodeBase64Username_def Decode_Encode u(1))
  moreover have "GetSession source_clock m tls sw' = (Some info, snd (source_clock sw'))"
    using e assms(3) by (simp add: GetSession_def live_entry_def sessionInfoFrom_def case_prod_beta Let_def)
  ultimately show ?thesis
    by (simp add: handleGetSession_def u(2))
qed

lemma Resolve_first:
  assumes "sm_entries m (GetTopLevelSeed ctx) = None" and "GetTopLevelSeed ctx \<noteq> 0" and "0 < GetSeedTTL ctx"
    and "inner (WithSessionSeed ctx (Some (NewSessionSeed (GetTopLevelSeed ctx) 0))) req w = (Ret (Some rr, None), w2)"
    and "rProxy rr = Some p" and "clk w2 = (now, w3)"
  shows "\<exists>e m'. SessionManager_Resolve clk inner ctx req (m, w) = (Ret (Some rr, None), (m', w3)) \<and>
    sm_entries m' (GetTopLevelSeed ctx) = Some e \<and> se_expiresAt e = now + GetSeedTTL ctx"
  using assms
  by (simp add: SessionManager_Resolve_def live_entry_def sm_store_def alloc_id_def new_entry_def Let_def)

definition demo_set :: ProxySetConfig where
  "demo_set = \<lparr>psName = ''res'', psSourceType = ''static_file'',
     psStaticFile = Some \<lparr>sfProxiesFile = ''p.txt'', sfFormat = ''''\<rparr>, psBottingtools = None, psGeonode = None\<rparr>"

lemma demo_built: "BuildServer (\<lambda>p. Some ''h1:80'') (\<lambda>e. '''') [demo_set] '''' world0 = Inr (NewSessionManager, demo_sources, world0)"
proof -
  have "buildSource (\<lambda>p. Some ''h1:80'') (\<lambda>e. '''') '''' demo_set = Inr (SrcStatic demo_source)"
    by code_simp
  then show ?thesis
    by (simp add: BuildServer_def demo_sources_def) (simp add: demo_set_def)
qed

lemma demo_router_clock:
  assumes "getSet ctx = ''res''" and "router_Resolve fmt ctx req (demo_sources, w) = (r, (s', w'))"
  shows "w_clock w' = w_clock w"
  using assms StaticFile_w_clock [of ctx req demo_source w]
  by (auto simp: router_Resolve_def demo_sources_def Let_def split: prod.splits)

theorem listed_sessions_addressable_witness:
  "\<exists>m sw info order. gateway_reach parse_bits bits_text (\<lambda>j. []) '''' (m, sw) \<and>
     info \<in> set (fst (ListEntries source_clock order m sw)) \<and>
     handleGetSession parse_bits bits_text source_clock demo_api_request
       (as_Username (toAPISessionInfo parse_bits info)) (new_writer, m, sw) =
     (Ret (writeJSON bits_text new_writer 200 (ApiSession (toAPISessionInfo parse_bits info))), m, snd (source_clock sw))"
proof -
  let ?num = bits_text and ?fmt = "\<lambda>j :: json. ''''"
  let ?u = "demo_parsed 5 demo_xy" and ?raw = "demo_name 5 demo_xy"
  let ?ctx = "creds_ctx ?num ?u background" and ?seed = "AffinityParams_Seed ?num (uAffinity ?u)"
  have parse: "ParseUsername parse_bits ?raw = Inr ?u"
    by (rule demo_parses(1))
  have ttl: "seed_ttl ?u = 300000000000"
    by (simp add: seed_ttl_def ns_defs wrap64_id in_int64_def)
  have seed: "?seed \<noteq> 0"
    by code_simp
  obtain s' w' where inner: "router_Resolve ?fmt (WithSessionSeed ?ctx (Some (NewSessionSeed ?seed 0))) (demo_request ?raw) (demo_sources, world0) =
      (Ret (Some (Resolved (mkProxy ''h1'' 80 '''' '''')), None), (s', w'))"
    using demo_static_resolves [of "WithSessionSeed ?ctx (Some (NewSessionSeed ?seed 0))" "demo_request ?raw" world0]
    by (auto simp: router_Resolve_def demo_sources_def)
  obtain now w3 where now: "source_clock (s', w') = (now, w3)" by (metis prod.collapse)
  obtain e :: sessionEntry and m' where res: "SessionManager_Resolve source_clock (router_Resolve ?fmt) ?ctx (demo_request ?raw) (NewSessionManager, (demo_sources, world0)) =
      (Ret (Some (Resolved (mkProxy ''h1'' 80 '''' '''')), None), (m', w3))"
    and e: "sm_entries m' ?seed = Some e" "se_expiresAt e = now + 300000000000"
    using Resolve_first [of NewSessionManager ?ctx "router_Resolve ?fmt" "demo_request ?raw" "(demo_sources, world0)"
        "Resolved (mkProxy ''h1'' 80 '''' '''')" "(s', w')" "mkProxy ''h1'' 80 '''' ''''" source_clock now w3] inner now ttl seed
    by (auto simp: NewSessionManager_def)
  have run: "Pipeline parse_bits ?num ?fmt '''' background (demo_request ?raw) (NewSessionManager, demo_sources, world0) =
      (Ret (Some (Resolved (mkProxy ''h1'' 80 '''' '''')), None), (m', w3))"
    using parse res by (simp add: Pipeline_cases authorized_def demo_request_def emptyRequest_def)
  have reach: "gateway_reach parse_bits ?num ?fmt '''' (m', w3)"
    by (rule gateway_reach.request [OF gateway_reach.built [OF demo_built] run])
  have now3: "fst (source_clock w3) < now + 300000000000"
  proof -
    have "w_clock w' = w_clock world0"
      by (rule demo_router_clock [OF _ inner]) simp
    with now show ?thesis
      by (auto simp: source_clock_def time_Now_def world0_def)
  qed
  then have info: "sessionInfoFrom ?seed e \<in> set (fst (ListEntries source_clock [?seed] m' w3))"
    using e by (simp add: ListEntries_def case_prod_beta Let_def)
  have "fst (source_clock w3) < si_ExpiresAt (sessionInfoFrom ?seed e)"
    using now3 e by (simp add: sessionInfoFrom_def)
  from listed_sessions_addressable [OF reach info this] reach info show ?thesis
    by blast
qed

section \<open>The program\<close>

text \<open>\<^verbatim>\<open>filepath.Dir\<close>.\<close>

definition path_Dir :: "string \<Rightarrow> string" where
  "path_Dir path = path_Clean (case LastIndexByte path CHR ''/'' of None \<Rightarrow> '''' | Some i \<Rightarrow> take (i + 1) path)"

text \<open>\<^verbatim>\<open>main\<close>: it exits on a bad configuration, and otherwise runs the server with the log level, the
  listeners and the password that result.\<close>

datatype 's program = ExitFailure error | Running logLevel "string option \<times> string option \<times> string" string 's

definition program_main :: "(string \<Rightarrow> string + string) \<Rightarrow> configDecoders \<Rightarrow> (string \<Rightarrow> string) \<Rightarrow> string list \<Rightarrow> world \<Rightarrow> serverState program" where
  "program_main readFile ds getenv args w =
     (let configPath = (case args of _ # a # _ \<Rightarrow> a | _ \<Rightarrow> ''config.toml'') in
      case LoadConfig readFile ds configPath of
        Inl e \<Rightarrow> ExitFailure e
      | Inr cfg \<Rightarrow>
          let level = initLogging (if cfLogLevel cfg \<noteq> '''' then cfLogLevel cfg else getenv ''LOG_LEVEL'');
              dir = path_Dir configPath;
              configDir = (if dir = '''' then ''.'' else dir)
          in case BuildServer (\<lambda>p. case readFile p of Inl _ \<Rightarrow> None | Inr d \<Rightarrow> Some d) getenv (cfProxySets cfg) configDir w of
               Inl e \<Rightarrow> ExitFailure e
             | Inr s \<Rightarrow> Running level (RunServer_listeners cfg (getenv ''API_KEY'')) (getenv ''PROXY_PASSWORD'') s)"

lemma program_reachable:
  assumes "program_main readFile ds getenv args w = Running level ls password s"
  shows "gateway_reach pf num fmt password s"
  using assms
  by (auto simp: program_main_def Let_def split: sum.splits list.splits intro: gateway_reach.built)

lemma admin_needs_key_and_address:
  assumes "program_main readFile ds getenv args w = Running level (Some a, ls) password s"
  shows "getenv ''API_KEY'' \<noteq> '''' \<and> a \<noteq> ''''"
  using assms
  by (auto simp: program_main_def RunServer_listeners_def Let_def split: sum.splits list.splits if_splits)

end
