(* ===== verification/Net.thy ===== *)
theory Net
  imports Base64 Core
begin

text \<open>
  The network vocabulary of the transports: client connections as byte streams, addresses as
  \<^verbatim>\<open>net.IP.String\<close> prints them and \<^verbatim>\<open>netip.ParseAddr\<close> reads them, \<^verbatim>\<open>net.SplitHostPort\<close>, and the helpers
  \<^verbatim>\<open>hostPort\<close> (\<^verbatim>\<open>proxy-kit/net_helpers.go\<close>) and \<^verbatim>\<open>targetHost\<close> (\<^verbatim>\<open>proxy-kit/mitm.go\<close>).
\<close>

named_theorems io_simps \<open>execution of connection operations\<close>

section \<open>Connections\<close>

text \<open>
  A connection as one side sees it: the bytes the peer sends before the stream ends, the text of
  the error that reads report from then on (\<^verbatim>\<open>EOF\<close>, or an expired deadline), the bytes written so
  far, how many further writes succeed, the text of the error of the writes after them, and
  whether this side has closed.
\<close>

record conn =
  c_in :: "byte list"
  c_end :: string
  c_out :: "byte list"
  c_writes :: nat
  c_werr :: string
  c_closed :: bool

type_synonym 'a io = "conn \<Rightarrow> (error + 'a) \<times> conn"

definition io_return :: "'a \<Rightarrow> 'a io" where
  [io_simps]: "io_return x = (\<lambda>c. (Inr x, c))"

definition io_fail :: "string \<Rightarrow> 'a io" where
  [io_simps]: "io_fail msg = (\<lambda>c. (Inl (ErrOther msg), c))"

definition io_bind :: "'a io \<Rightarrow> ('a \<Rightarrow> 'b io) \<Rightarrow> 'b io" where
  "io_bind m f = (\<lambda>c. case m c of (Inl e, c') \<Rightarrow> (Inl e, c') | (Inr x, c') \<Rightarrow> f x c')"

lemma io_bind_Inr [io_simps]: "m c = (Inr x, c') \<Longrightarrow> io_bind m f c = f x c'"
  by (simp add: io_bind_def)

lemma io_bind_Inl [io_simps]: "m c = (Inl e, c') \<Longrightarrow> io_bind m f c = (Inl e, c')"
  by (simp add: io_bind_def)

text \<open>
  \<^verbatim>\<open>io.ReadFull\<close> into a buffer of \<open>n\<close> bytes, its error wrapped with \<open>msg\<close>: a short stream is
  consumed, and an \<^verbatim>\<open>EOF\<close> after the first byte is reported as unexpected.
\<close>

definition short_read :: "conn \<Rightarrow> string" where
  "short_read c = (if c_end c = ''EOF'' \<and> c_in c \<noteq> [] then ''unexpected EOF'' else c_end c)"

definition ReadFull :: "string \<Rightarrow> nat \<Rightarrow> byte list io" where
  "ReadFull msg n = (\<lambda>c. if n \<le> length (c_in c) then (Inr (take n (c_in c)), c\<lparr>c_in := drop n (c_in c)\<rparr>)
     else (Inl (ErrOther (msg @ '': '' @ short_read c)), c\<lparr>c_in := []\<rparr>))"

definition conn_Write :: "string \<Rightarrow> byte list \<Rightarrow> unit io" where
  "conn_Write msg bs = (\<lambda>c. if c_writes c = 0 then (Inl (ErrOther (msg @ '': '' @ c_werr c)), c)
     else (Inr (), c\<lparr>c_out := c_out c @ bs, c_writes := c_writes c - 1\<rparr>))"

definition conn_Close :: "conn \<Rightarrow> conn" where
  "conn_Close c = c\<lparr>c_closed := True\<rparr>"

lemma ReadFull_append [io_simps]:
  "c_in c = bs @ rest \<Longrightarrow> length bs = n \<Longrightarrow> ReadFull msg n c = (Inr bs, c\<lparr>c_in := rest\<rparr>)"
  by (simp add: ReadFull_def)

lemma ReadFull_short [io_simps]:
  "length (c_in c) < n \<Longrightarrow> ReadFull msg n c = (Inl (ErrOther (msg @ '': '' @ short_read c)), c\<lparr>c_in := []\<rparr>)"
  by (simp add: ReadFull_def)

lemma conn_Write_ok [io_simps]:
  "0 < c_writes c \<Longrightarrow> conn_Write msg bs c = (Inr (), c\<lparr>c_out := c_out c @ bs, c_writes := c_writes c - 1\<rparr>)"
  by (simp add: conn_Write_def)

definition string_of :: "byte list \<Rightarrow> string" where
  "string_of bs = map (\<lambda>b. char_of (unat b)) bs"

lemma unat_of_char: "unat (of_char c :: byte) = of_char c"
proof -
  have "unat (of_nat (of_char c) :: byte) = of_char c"
    unfolding unat_of_nat using nat_of_char_less_256 [of c] by simp
  then show ?thesis by (simp only: of_nat_of_char)
qed

lemma string_of_bytes_of [simp]: "string_of (bytes_of s) = s"
  by (simp add: string_of_def bytes_of_def unat_of_char map_idI)

section \<open>Printing addresses\<close>

text \<open>\<^verbatim>\<open>net.IP.String\<close> on 4 bytes.\<close>

definition dotted :: "byte list \<Rightarrow> string" where
  "dotted bs = str_Join (map (\<lambda>b. itoa (unat b)) bs) ''.''"

fun hextets :: "byte list \<Rightarrow> nat list" where
  "hextets (a # b # rest) = (unat a * 256 + unat b) # hextets rest"
| "hextets _ = []"

fun hex_nat :: "nat \<Rightarrow> string" where
  "hex_nat n = (if n < 16 then [''0123456789abcdef'' ! n] else hex_nat (n div 16) @ [''0123456789abcdef'' ! (n mod 16)])"

declare hex_nat.simps [simp del]

definition zero_run :: "nat list \<Rightarrow> nat" where
  "zero_run hs = length (takeWhile (\<lambda>h. h = 0) hs)"

text \<open>The first longest run of at least two zero fields: its start and end, \<open>(255, 255)\<close> if there is none.\<close>

definition zero_range :: "nat list \<Rightarrow> nat \<times> nat" where
  "zero_range hs = foldl (\<lambda>(zs, ze) i. let l = zero_run (drop i hs)
     in if 2 \<le> l \<and> ze - zs < l then (i, i + l) else (zs, ze)) (255, 255) [0..<length hs]"

definition join_hex :: "nat list \<Rightarrow> string" where
  "join_hex hs = str_Join (map hex_nat hs) '':''"

definition ip6_text :: "nat list \<Rightarrow> string" where
  "ip6_text hs = (case zero_range hs of (zs, ze) \<Rightarrow>
     if zs = 255 then join_hex hs else join_hex (take zs hs) @ ''::'' @ join_hex (drop ze hs))"

text \<open>\<^verbatim>\<open>net.IP.String\<close> on 4 or 16 bytes; IPv4-mapped addresses print as IPv4.\<close>

definition IP_String :: "byte list \<Rightarrow> string" where
  "IP_String bs =
     (if length bs = 4 then dotted bs
      else if take 12 bs = replicate 10 0 @ [255, 255] then dotted (drop 12 bs)
      else ip6_text (hextets bs))"

section \<open>Reading addresses\<close>

definition is_hex :: "char \<Rightarrow> bool" where
  "is_hex c \<longleftrightarrow> c \<in> set ''0123456789abcdefABCDEF''"

text \<open>One decimal field of a dotted quad: one to three digits, no leading zero, at most 255.\<close>

definition octet_ok :: "string \<Rightarrow> bool" where
  "octet_ok f \<longleftrightarrow> f \<noteq> [] \<and> length f \<le> 3 \<and> list_all is_digit f \<and> (hd f = CHR ''0'' \<longrightarrow> length f = 1) \<and>
     (case parse_digits f 0 of Some n \<Rightarrow> n \<le> 255 | None \<Rightarrow> False)"

fun fields_on :: "char \<Rightarrow> string \<Rightarrow> string list" where
  "fields_on c [] = [[]]"
| "fields_on c (x # xs) =
     (if x = c then [] # fields_on c xs
      else (case fields_on c xs of [] \<Rightarrow> [[x]] | y # ys \<Rightarrow> (x # y) # ys))"

definition ipv4_fields_ok :: "string \<Rightarrow> bool" where
  "ipv4_fields_ok s \<longleftrightarrow> length (fields_on CHR ''.'' s) = 4 \<and> list_all octet_ok (fields_on CHR ''.'' s)"

text \<open>
  The field loop of the IPv6 parser: \<open>i\<close> is the number of bytes filled, \<open>ell\<close> whether an
  ellipsis has been seen; the result is the final pair, or \<open>None\<close> for an error. Each round fills
  two bytes, so there are at most eight.
\<close>

function v6_loop :: "nat \<Rightarrow> bool \<Rightarrow> string \<Rightarrow> (nat \<times> bool) option" where
  "v6_loop i ell s =
     (if 16 \<le> i then (if s = [] then Some (i, ell) else None)
      else let d = takeWhile is_hex s; rest = dropWhile is_hex s in
        if d = [] \<or> 4 < length d then None
        else if rest \<noteq> [] \<and> hd rest = CHR ''.'' then
          (if (\<not> ell \<and> i \<noteq> 12) \<or> 16 < i + 4 \<or> \<not> ipv4_fields_ok s then None else Some (i + 4, ell))
        else if rest = [] then Some (i + 2, ell)
        else if hd rest \<noteq> CHR '':'' \<or> length rest = 1 then None
        else let t = tl rest in
          if hd t = CHR '':'' then
            (if ell then None
             else if tl t = [] then Some (i + 2, True) else v6_loop (i + 2) True (tl t))
          else v6_loop (i + 2) ell t)"
  by pat_completeness auto
termination
  by (relation "measure (\<lambda>(i, ell, s). 16 - i)") auto

definition parseIPv6_ok :: "string \<Rightarrow> bool" where
  "parseIPv6_ok in0 =
     (let zoned = IndexByte in0 CHR ''%'';
          s0 = (case zoned of None \<Rightarrow> in0 | Some k \<Rightarrow> take k in0);
          zone_ok = (case zoned of None \<Rightarrow> True | Some k \<Rightarrow> drop (Suc k) in0 \<noteq> []);
          ell = HasPrefix s0 ''::'';
          s = (if ell then drop 2 s0 else s0)
      in zone_ok \<and>
         (if ell \<and> s = [] then True
          else case v6_loop 0 ell s of None \<Rightarrow> False | Some (i, e) \<Rightarrow> (if i < 16 then e else \<not> e)))"

text \<open>\<^verbatim>\<open>netip.ParseAddr(host)\<close> succeeds with an IPv6 address: the first of \<^verbatim>\<open>. : %\<close> decides.\<close>

definition ParseAddr_Is6 :: "string \<Rightarrow> bool" where
  "ParseAddr_Is6 s = (case filter (\<lambda>c. c = CHR ''.'' \<or> c = CHR '':'' \<or> c = CHR ''%'') s of
     CHR '':'' # _ \<Rightarrow> parseIPv6_ok s | _ \<Rightarrow> False)"

definition hostPort :: "string \<Rightarrow> u16 \<Rightarrow> string" where
  "hostPort host port =
     (if ParseAddr_Is6 host then ''['' @ host @ '']:'' @ itoa (unat port) else host @ '':'' @ itoa (unat port))"

section \<open>Splitting targets\<close>

text \<open>\<^verbatim>\<open>net.SplitHostPort\<close>: the host and port, or \<open>None\<close> on an error.\<close>

definition SplitHostPort :: "string \<Rightarrow> (string \<times> string) option" where
  "SplitHostPort hp =
     (case LastIndexByte hp CHR '':'' of
        None \<Rightarrow> None
      | Some i \<Rightarrow>
          if hp \<noteq> [] \<and> hd hp = CHR ''['' then
            (case IndexByte hp CHR '']'' of
               None \<Rightarrow> None
             | Some e \<Rightarrow>
                 if e + 1 = length hp then None
                 else if e + 1 = i then
                   (let host = drop 1 (take e hp); rest1 = drop 1 hp; rest2 = drop (e + 1) hp
                    in if CHR ''['' \<in> set rest1 \<or> CHR '']'' \<in> set rest2 then None
                       else Some (host, drop (i + 1) hp))
                 else None)
          else let host = take i hp in
            if CHR '':'' \<in> set host then None
            else if CHR ''['' \<in> set hp \<or> CHR '']'' \<in> set hp then None
            else Some (host, drop (i + 1) hp))"

definition targetHost :: "string \<Rightarrow> string" where
  "targetHost target = (case SplitHostPort target of None \<Rightarrow> target | Some (h, _) \<Rightarrow> h)"

section \<open>The characters of printed addresses\<close>

lemma set_str_Join: "set (str_Join xs sep) \<subseteq> (\<Union>x \<in> set xs. set x) \<union> set sep"
  by (induction xs sep rule: str_Join.induct) auto

lemma str_Join_sep: "Suc 0 < length xs \<Longrightarrow> set sep \<subseteq> set (str_Join xs sep)"
  by (induction xs sep rule: str_Join.induct) auto

lemma digit_char_hex: "d < 10 \<Longrightarrow> digit_char d \<in> set ''0123456789''"
proof -
  have "list_all (\<lambda>d. digit_char d \<in> set ''0123456789'') [0..<10]"
    by code_simp
  then show "d < 10 \<Longrightarrow> ?thesis" by (simp only: list_all_iff set_upt atLeastLessThan_iff) simp
qed

lemma itoa_chars: "set (itoa n) \<subseteq> set ''0123456789''"
  using itoa_digits digit_char_hex by blast

lemma dotted_chars: "set (dotted bs) \<subseteq> set ''0123456789.''"
proof -
  have "set (dotted bs) \<subseteq> (\<Union>x \<in> set (map (\<lambda>b. itoa (unat b)) bs). set x) \<union> set ''.''"
    unfolding dotted_def by (rule set_str_Join)
  also have "\<dots> \<subseteq> set ''0123456789.''"
    using itoa_chars by fastforce
  finally show ?thesis .
qed

lemma hex_nat_chars: "set (hex_nat n) \<subseteq> set ''0123456789abcdef''"
proof (induction n rule: hex_nat.induct)
  case (1 n)
  have digit: "''0123456789abcdef'' ! i \<in> set ''0123456789abcdef''" if "i < 16" for i
    using that by (intro nth_mem) simp
  show ?case
  proof (cases "n < 16")
    case True
    then show ?thesis
      using digit by (subst hex_nat.simps) simp
  next
    case False
    then show ?thesis
      using 1 digit [of "n mod 16"] by (subst hex_nat.simps) simp
  qed
qed

lemma join_hex_chars: "set (join_hex hs) \<subseteq> set ''0123456789abcdef:''"
proof -
  have "set (join_hex hs) \<subseteq> (\<Union>x \<in> set (map hex_nat hs). set x) \<union> set '':''"
    unfolding join_hex_def by (rule set_str_Join)
  also have "\<dots> \<subseteq> set ''0123456789abcdef:''"
    using hex_nat_chars by fastforce
  finally show ?thesis .
qed

lemma length_hextets: "length (hextets bs) = length bs div 2"
  by (induction bs rule: hextets.induct) auto

lemma ip6_text_chars: "set (ip6_text hs) \<subseteq> set ''0123456789abcdef:''"
proof (cases "zero_range hs")
  case (Pair zs ze)
  show ?thesis
    using join_hex_chars [of hs] join_hex_chars [of "take zs hs"] join_hex_chars [of "drop ze hs"]
    unfolding ip6_text_def Pair by (simp only: prod.case set_append split: if_split) simp
qed

lemma ip6_text_colon: "Suc 0 < length hs \<Longrightarrow> CHR '':'' \<in> set (ip6_text hs)"
  using str_Join_sep [of "map hex_nat hs" "'':''"] by (cases "zero_range hs") (simp add: ip6_text_def join_hex_def)

text \<open>The host of a target: split off before the last colon unless that is ambiguous.\<close>

lemma targetHost_plain:
  assumes "CHR '':'' \<notin> set h" "CHR ''['' \<notin> set h" "CHR '']'' \<notin> set h"
  shows "targetHost (h @ '':'' @ itoa n) = h"
proof -
  have "CHR ''['' \<notin> set (itoa n)" "CHR '']'' \<notin> set (itoa n)"
    by (rule itoa_no_char, simp)+
  moreover have "hd (h @ CHR '':'' # itoa n) \<noteq> CHR ''[''"
    using assms(2) by (cases h) auto
  ultimately show ?thesis
    using assms by (simp add: targetHost_def SplitHostPort_def)
qed

lemma targetHost_colons:
  assumes "CHR '':'' \<in> set h" "CHR ''['' \<notin> set h"
  shows "targetHost (h @ '':'' @ itoa n) = h @ '':'' @ itoa n"
proof -
  have "hd (h @ CHR '':'' # itoa n) \<noteq> CHR ''[''"
    using assms by (cases h) auto
  with assms show ?thesis
    by (simp add: targetHost_def SplitHostPort_def)
qed

end
