(* ===== verification/Relay.thy ===== *)
theory Relay
  imports Net RateLimit
begin

text \<open>
  The two-way copy of \<^verbatim>\<open>proxy-kit/relay.go\<close>. \<^verbatim>\<open>relay\<close> runs one \<^verbatim>\<open>io.Copy\<close> per direction in its own
  goroutine; each alternates between reading a chunk, which a \<^verbatim>\<open>countingReader\<close> reports to the
  connection tracker, and writing it. A relay is a state machine whose events are the reads and
  writes of the two goroutines in the order they take effect: the theorems quantify over every
  such order. When a tracker calls \<^verbatim>\<open>cancel\<close>, both deadlines lie in the past: from then on reads and
  writes on both connections fail at once.
\<close>

section \<open>Trackers on a state\<close>

text \<open>The \<^verbatim>\<open>ConnTracker\<close> interface on the state \<open>'s\<close> of a server: what \<^verbatim>\<open>RecordTraffic\<close> (with the number of
  calls of \<^verbatim>\<open>cancel\<close>) and \<^verbatim>\<open>Close\<close> do there.\<close>

record 's tracker_ops =
  ops_RecordTraffic :: "ConnTracker \<Rightarrow> bool \<Rightarrow> int \<Rightarrow> 's \<Rightarrow> nat outcome \<times> 's"
  ops_Close :: "ConnTracker \<Rightarrow> int \<Rightarrow> int \<Rightarrow> 's \<Rightarrow> 's"

text \<open>The trackers of a server whose state has the store of the rate limiters.\<close>

definition rl_ops :: "'w clock \<Rightarrow> ('h \<times> store \<times> 'w) tracker_ops" where
  "rl_ops clk = \<lparr>
     ops_RecordTraffic = (\<lambda>t upstream delta (h, sw). let (r, sw') = CT_RecordTraffic clk t upstream delta sw in (r, (h, sw'))),
     ops_Close = (\<lambda>t sent received (h, st, w). (h, CT_Close t st, w))\<rparr>"

section \<open>Copying\<close>

datatype direction = Up | Down

text \<open>\<^verbatim>\<open>io.Copy\<close> between two operations: about to read, holding a chunk it has read, or returned.\<close>

datatype phase = Reading | Holding "byte list" | Finished

text \<open>\<open>cp_read\<close> is everything read so far, \<open>cp_delivered\<close> what the destination has taken.\<close>

record copy =
  cp_phase :: phase
  cp_read :: "byte list"
  cp_delivered :: "byte list"

record relay_state =
  rs_up :: copy
  rs_down :: copy
  rs_cancelled :: bool

definition copy_init :: copy where
  "copy_init = \<lparr>cp_phase = Reading, cp_read = [], cp_delivered = []\<rparr>"

definition relay_init :: relay_state where
  "relay_init = \<lparr>rs_up = copy_init, rs_down = copy_init, rs_cancelled = False\<rparr>"

fun copy_of :: "direction \<Rightarrow> relay_state \<Rightarrow> copy" where
  "copy_of Up rs = rs_up rs"
| "copy_of Down rs = rs_down rs"

fun put_copy :: "direction \<Rightarrow> copy \<Rightarrow> relay_state \<Rightarrow> relay_state" where
  "put_copy Up cp rs = rs\<lparr>rs_up := cp\<rparr>"
| "put_copy Down cp rs = rs\<lparr>rs_down := cp\<rparr>"

definition cp_hold :: "byte list \<Rightarrow> copy \<Rightarrow> copy" where
  "cp_hold bs cp = cp\<lparr>cp_phase := Holding bs, cp_read := cp_read cp @ bs\<rparr>"

text \<open>
  A write of a chunk of which the destination takes \<open>k\<close> bytes: a short write ends the copy with
  an error; a write after the cancellation takes nothing.
\<close>

definition cp_write :: "bool \<Rightarrow> nat \<Rightarrow> copy \<Rightarrow> copy" where
  "cp_write cancelled k cp =
     (case cp_phase cp of
        Holding bs \<Rightarrow>
          let n = (if cancelled then 0 else min k (length bs))
          in cp\<lparr>cp_phase := (if n = length bs then Reading else Finished), cp_delivered := cp_delivered cp @ take n bs\<rparr>
      | _ \<Rightarrow> cp)"

text \<open>A read that ends the copy: end of stream, an error, or the expired deadline.\<close>

definition cp_end :: "copy \<Rightarrow> copy" where
  "cp_end cp = (if cp_phase cp = Reading then cp\<lparr>cp_phase := Finished\<rparr> else cp)"

text \<open>The events. One that its goroutine cannot perform at this point has no effect.\<close>

datatype relay_event = Read direction "byte list" | Write direction nat | End direction

text \<open>\<^verbatim>\<open>countingReader.Read\<close> once \<^verbatim>\<open>n > 0\<close> bytes are there; without a tracker the plain connection is read.\<close>

definition counting_Read :: "'s tracker_ops \<Rightarrow> ConnTracker option \<Rightarrow> direction \<Rightarrow> nat \<Rightarrow> 's \<Rightarrow> bool outcome \<times> 's" where
  "counting_Read ops handle d n s =
     (case handle of
        None \<Rightarrow> (Ret False, s)
      | Some t \<Rightarrow> let (r, s') = ops_RecordTraffic ops t (d = Up) (int n) s
                  in (bind_outcome r (\<lambda>cancels. Ret (0 < cancels)), s'))"

fun relay_step :: "'s tracker_ops \<Rightarrow> ConnTracker option \<Rightarrow> relay_event \<Rightarrow> relay_state \<times> 's \<Rightarrow> (relay_state \<times> 's) outcome" where
  "relay_step ops handle (Read d bs) (rs, s) =
     (if cp_phase (copy_of d rs) \<noteq> Reading \<or> rs_cancelled rs \<or> bs = [] then Ret (rs, s)
      else case counting_Read ops handle d (length bs) s of
        (Panicked p, s') \<Rightarrow> Panicked p
      | (Ret cancel, s') \<Rightarrow> Ret (put_copy d (cp_hold bs (copy_of d rs)) (rs\<lparr>rs_cancelled := cancel\<rparr>), s'))"
| "relay_step ops handle (Write d k) (rs, s) = Ret (put_copy d (cp_write (rs_cancelled rs) k (copy_of d rs)) rs, s)"
| "relay_step ops handle (End d) (rs, s) = Ret (put_copy d (cp_end (copy_of d rs)) rs, s)"

fun relay_run :: "'s tracker_ops \<Rightarrow> ConnTracker option \<Rightarrow> relay_event list \<Rightarrow> relay_state \<times> 's \<Rightarrow> (relay_state \<times> 's) outcome" where
  "relay_run ops handle [] x = Ret x"
| "relay_run ops handle (e # es) x = bind_outcome (relay_step ops handle e x) (relay_run ops handle es)"

definition relay_done :: "relay_state \<Rightarrow> bool" where
  "relay_done rs \<longleftrightarrow> cp_phase (rs_up rs) = Finished \<and> cp_phase (rs_down rs) = Finished"

definition copied :: "copy \<Rightarrow> int" where
  "copied cp = int (length (cp_delivered cp))"

text \<open>
  \<^verbatim>\<open>relay\<close> on a sequence of events: the byte counts it returns, \<open>None\<close> while one of the copies is
  still running. A panic in a goroutine ends the process.
\<close>

definition relay :: "'s tracker_ops \<Rightarrow> ConnTracker option \<Rightarrow> relay_event list \<Rightarrow> 's \<Rightarrow> ((int \<times> int) option \<times> 's) outcome" where
  "relay ops handle es s =
     bind_outcome (relay_run ops handle es (relay_init, s)) (\<lambda>(rs, s').
       Ret (if relay_done rs then Some (copied (rs_up rs), copied (rs_down rs)) else None, s'))"

section \<open>What a relay delivers\<close>

lemma copy_of_put [simp]: "copy_of d (put_copy d' cp rs) = (if d = d' then cp else copy_of d rs)"
  by (cases d; cases d') auto

lemma rs_cancelled_put [simp]: "rs_cancelled (put_copy d cp rs) = rs_cancelled rs"
  by (cases d) auto

lemma copy_of_cancelled [simp]: "copy_of d (rs\<lparr>rs_cancelled := b\<rparr>) = copy_of d rs"
  by (cases d) auto

lemma relay_done_iff: "relay_done rs \<longleftrightarrow> (\<forall>d. cp_phase (copy_of d rs) = Finished)"
  unfolding relay_done_def by (metis copy_of.simps direction.exhaust)

text \<open>
  Per direction: what was read is what was delivered and the chunk at hand; only a copy that has
  ended can have lost bytes, the tail of its last chunk, and only to a failed write or to the
  cancellation.
\<close>

definition lossless :: "copy \<Rightarrow> bool" where
  "lossless cp \<longleftrightarrow> cp_read cp = cp_delivered cp @ (case cp_phase cp of Holding bs \<Rightarrow> bs | _ \<Rightarrow> [])"

definition copy_ok :: "copy \<Rightarrow> bool" where
  "copy_ok cp \<longleftrightarrow> lossless cp \<or> cp_phase cp = Finished \<and> (\<exists>lost. cp_read cp = cp_delivered cp @ lost)"

lemma cp_hold_ok: "copy_ok cp \<Longrightarrow> cp_phase cp = Reading \<Longrightarrow> copy_ok (cp_hold bs cp) \<and> lossless (cp_hold bs cp)"
  by (auto simp: copy_ok_def lossless_def cp_hold_def)

lemma cp_write_ok: "copy_ok cp \<Longrightarrow> copy_ok (cp_write b k cp)"
  by (cases "cp_phase cp") (auto simp: copy_ok_def lossless_def cp_write_def Let_def intro: append_take_drop_id [symmetric])

lemma cp_end_ok: "copy_ok cp \<Longrightarrow> copy_ok (cp_end cp)"
  by (auto simp: copy_ok_def lossless_def cp_end_def)

lemma relay_step_ok:
  assumes "relay_step ops handle e (rs, s) = Ret (rs', s')" and "\<forall>d. copy_ok (copy_of d rs)"
  shows "\<forall>d. copy_ok (copy_of d rs')"
  using assms by (cases e) (auto simp: cp_hold_ok cp_write_ok cp_end_ok split: if_splits outcome.splits prod.splits)

lemma relay_run_append:
  "relay_run ops handle (es @ fs) x = bind_outcome (relay_run ops handle es x) (relay_run ops handle fs)"
proof (induction es arbitrary: x)
  case (Cons e es)
  then show ?case by (cases "relay_step ops handle e x") simp_all
qed simp

text \<open>A property of relays that every step keeps holds along every run.\<close>

lemma relay_run_induct:
  assumes "relay_run ops handle es (rs, s) = Ret (rs', s')" and "P rs s"
    and "\<And>e rs s rs' s'. e \<in> set es \<Longrightarrow> P rs s \<Longrightarrow> relay_step ops handle e (rs, s) = Ret (rs', s') \<Longrightarrow> P rs' s'"
  shows "P rs' s'"
  using assms
proof (induction es arbitrary: rs s)
  case (Cons e es)
  then obtain rs1 s1 where "relay_step ops handle e (rs, s) = Ret (rs1, s1)"
    "relay_run ops handle es (rs1, s1) = Ret (rs', s')"
    by (auto simp: bind_outcome_Ret_iff)
  with Cons.IH [of rs1 s1] Cons.prems(2,3) show ?case by (metis list.set_intros)
qed simp

lemma copy_init_ok: "copy_ok (copy_of d relay_init) \<and> lossless (copy_of d relay_init)"
  by (cases d) (simp_all add: relay_init_def copy_init_def copy_ok_def lossless_def)

lemma copied_lossless:
  assumes "\<forall>d. lossless (copy_of d rs)" and "relay_done rs"
  shows "copied (rs_up rs) = int (length (cp_read (rs_up rs)))" "copied (rs_down rs) = int (length (cp_read (rs_down rs)))"
  using assms(1) [rule_format, of Up] assms(1) [rule_format, of Down] assms(2)
  by (simp_all add: relay_done_def lossless_def copied_def)

text \<open>Every write takes the whole chunk it is given.\<close>

definition full_writes :: "relay_event list \<Rightarrow> bool" where
  "full_writes es \<longleftrightarrow> (\<forall>d k d' bs. Write d k \<in> set es \<longrightarrow> Read d' bs \<in> set es \<longrightarrow> length bs \<le> k)"

definition chunk_of :: "relay_event list \<Rightarrow> copy \<Rightarrow> bool" where
  "chunk_of es cp \<longleftrightarrow> (\<forall>bs. cp_phase cp = Holding bs \<longrightarrow> bs \<noteq> [] \<and> (\<exists>d. Read d bs \<in> set es))"

lemma chunk_of_init: "chunk_of es (copy_of d relay_init)"
  by (cases d) (simp_all add: relay_init_def copy_init_def chunk_of_def)

lemma relay_step_chunk:
  assumes "relay_step ops handle e (rs, s) = Ret (rs', s')" and "e \<in> set es" and "\<forall>d. chunk_of es (copy_of d rs)"
  shows "\<forall>d. chunk_of es (copy_of d rs')"
proof (cases e)
  case (Read d bs)
  then have "chunk_of es (cp_hold bs (copy_of d rs))" if "bs \<noteq> []"
    using that assms(2) by (auto simp: chunk_of_def cp_hold_def)
  with assms Read show ?thesis
    by (auto split: if_splits outcome.splits prod.splits)
next
  case (Write d k)
  have "chunk_of es (cp_write b k (copy_of d rs))" for b
    using assms(3) by (cases "cp_phase (copy_of d rs)") (auto simp: chunk_of_def cp_write_def Let_def)
  with assms Write show ?thesis by auto
next
  case (End d)
  have "chunk_of es (cp_end (copy_of d rs))"
    using assms(3) by (auto simp: chunk_of_def cp_end_def)
  with assms End show ?thesis by auto
qed

lemma relay_step_uncancelled:
  assumes "relay_step ops handle e (rs, s) = Ret (rs', s')" and "\<not> rs_cancelled rs'"
  shows "\<not> rs_cancelled rs"
  using assms by (cases e) (auto split: if_splits outcome.splits prod.splits)

lemma cp_write_lossless:
  "lossless cp \<Longrightarrow> (\<forall>bs. cp_phase cp = Holding bs \<longrightarrow> length bs \<le> k) \<Longrightarrow> lossless (cp_write False k cp)"
  by (cases "cp_phase cp") (auto simp: lossless_def cp_write_def Let_def)

lemma relay_step_lossless:
  assumes "relay_step ops handle e (rs, s) = Ret (rs', s')" and "e \<in> set es" and "full_writes es"
    and "\<forall>d. chunk_of es (copy_of d rs)" and "\<not> rs_cancelled rs" and "\<forall>d. lossless (copy_of d rs)"
  shows "\<forall>d. lossless (copy_of d rs')"
proof (cases e)
  case (Read d bs)
  have "cp_phase (copy_of d rs) = Reading \<Longrightarrow> lossless (cp_hold bs (copy_of d rs))"
    using assms(6) by (auto simp: lossless_def cp_hold_def)
  with assms Read show ?thesis by (auto split: if_splits outcome.splits prod.splits)
next
  case (Write d k)
  then have "\<forall>bs. cp_phase (copy_of d rs) = Holding bs \<longrightarrow> length bs \<le> k"
    using assms(2-4) unfolding full_writes_def chunk_of_def by blast
  with cp_write_lossless [of "copy_of d rs" k] assms Write show ?thesis by auto
next
  case (End d)
  have "lossless (cp_end (copy_of d rs))"
    using assms(6) by (auto simp: lossless_def cp_end_def)
  with assms End show ?thesis by auto
qed

text \<open>
  C20: A relay delivers what it reads. In every order of the reads and writes of the two copying
  goroutines and with every tracker, each side receives a prefix of what the other side sent:
  nothing is reordered, repeated or made up. Unless a write fails or a tracker cancels the
  connection, nothing is lost either: everything read has been delivered, up to the chunk in
  hand, and when the relay has returned the counts it reports are the bytes read.
\<close>
theorem relay_delivers:
  assumes "relay_run ops handle es (relay_init, s) = Ret (rs, s')"
  shows "(\<exists>rest. cp_read (copy_of d rs) = cp_delivered (copy_of d rs) @ rest) \<and>
    (full_writes es \<and> \<not> rs_cancelled rs \<longrightarrow> lossless (copy_of d rs) \<and>
      (relay_done rs \<longrightarrow> relay ops handle es s = Ret (Some (int (length (cp_read (rs_up rs))), int (length (cp_read (rs_down rs)))), s')))"
proof -
  have "\<forall>d. copy_ok (copy_of d rs)"
    using assms by (rule relay_run_induct) (simp add: copy_init_ok, erule relay_step_ok)
  then have "\<exists>rest. cp_read (copy_of d rs) = cp_delivered (copy_of d rs) @ rest"
    by (auto simp: copy_ok_def lossless_def)
  moreover have "\<forall>d. lossless (copy_of d rs)" if full: "full_writes es" "\<not> rs_cancelled rs"
  proof -
    let ?P = "\<lambda>rs. (\<forall>d. chunk_of es (copy_of d rs)) \<and> (rs_cancelled rs \<or> (\<forall>d. lossless (copy_of d rs)))"
    have "?P rs"
    proof (rule relay_run_induct [OF assms, where P = "\<lambda>rs s. ?P rs"])
      show "?P relay_init"
        using copy_init_ok chunk_of_init by blast
    next
      fix e rs s rs' s'
      assume e: "e \<in> set es" and P: "?P rs" and step: "relay_step ops handle e (rs, s) = Ret (rs', s')"
      show "?P rs'"
        using relay_step_chunk [OF step e] relay_step_lossless [OF step e full(1)] relay_step_uncancelled [OF step] P
        by blast
    qed
    with full(2) show ?thesis by blast
  qed
  moreover from this have "relay ops handle es s =
      Ret (Some (int (length (cp_read (rs_up rs))), int (length (cp_read (rs_down rs)))), s')"
    if "full_writes es" "\<not> rs_cancelled rs" "relay_done rs"
    using that assms unfolding relay_def by (simp add: copied_lossless)
  ultimately show ?thesis by blast
qed

section \<open>Cancellation\<close>

text \<open>After the cancellation no step touches a tracker or delivers a byte; each copy ends with the
  first operation it can perform.\<close>

fun ends_copy :: "direction \<Rightarrow> phase \<Rightarrow> relay_event \<Rightarrow> bool" where
  "ends_copy d Reading e = (e = End d)"
| "ends_copy d (Holding bs) e = (\<exists>k. e = Write d k)"
| "ends_copy d Finished e = True"

lemma cancelled_step:
  assumes "rs_cancelled rs" and "\<forall>d bs. cp_phase (copy_of d rs) = Holding bs \<longrightarrow> bs \<noteq> []"
  shows "\<exists>rs'. relay_step ops handle e (rs, s) = Ret (rs', s) \<and> rs_cancelled rs' \<and>
    (\<forall>d. cp_delivered (copy_of d rs') = cp_delivered (copy_of d rs) \<and>
      cp_phase (copy_of d rs') = (if ends_copy d (cp_phase (copy_of d rs)) e then Finished else cp_phase (copy_of d rs)))"
proof (cases e)
  case (Read d bs)
  then show ?thesis
    using assms(1) by (intro exI [of _ rs]) (auto elim: ends_copy.elims)
next
  case (Write d k)
  have "cp_delivered (cp_write True k (copy_of d rs)) = cp_delivered (copy_of d rs) \<and>
      cp_phase (cp_write True k (copy_of d rs)) =
        (if ends_copy d (cp_phase (copy_of d rs)) e then Finished else cp_phase (copy_of d rs))"
    using assms(2) Write by (cases "cp_phase (copy_of d rs)") (auto simp: cp_write_def Let_def)
  then show ?thesis
    using assms(1) Write by (cases "cp_phase (copy_of d rs)") (auto elim: ends_copy.elims)
next
  case (End d)
  then show ?thesis
    using assms(1) by (cases "cp_phase (copy_of d rs)") (auto simp: cp_end_def elim: ends_copy.elims)
qed

text \<open>Every goroutine gets to perform its next read and its next write.\<close>

definition fair :: "relay_event list \<Rightarrow> bool" where
  "fair es \<longleftrightarrow> (\<forall>d. (\<exists>k. Write d k \<in> set es) \<and> End d \<in> set es)"

lemma cancelled_run:
  assumes "rs_cancelled rs" and "\<forall>d bs. cp_phase (copy_of d rs) = Holding bs \<longrightarrow> bs \<noteq> []"
  shows "\<exists>rs'. relay_run ops handle es (rs, s) = Ret (rs', s) \<and> rs_cancelled rs' \<and>
    (\<forall>d. cp_delivered (copy_of d rs') = cp_delivered (copy_of d rs) \<and>
      (cp_phase (copy_of d rs) = Finished \<or> (\<exists>e \<in> set es. ends_copy d (cp_phase (copy_of d rs)) e) \<longrightarrow>
        cp_phase (copy_of d rs') = Finished))"
  using assms
proof (induction es arbitrary: rs)
  case (Cons e es)
  from cancelled_step [OF Cons.prems, of ops handle e s] obtain rs1 where
    step: "relay_step ops handle e (rs, s) = Ret (rs1, s)" "rs_cancelled rs1" and
    eff: "\<And>d. cp_delivered (copy_of d rs1) = cp_delivered (copy_of d rs)"
      "\<And>d. cp_phase (copy_of d rs1) = (if ends_copy d (cp_phase (copy_of d rs)) e then Finished else cp_phase (copy_of d rs))"
    by blast
  have "\<forall>d bs. cp_phase (copy_of d rs1) = Holding bs \<longrightarrow> bs \<noteq> []"
    using eff(2) Cons.prems(2) by (metis phase.distinct(5))
  from Cons.IH [OF step(2) this] step eff show ?case
    by (auto split: if_splits; blast)
qed auto

lemma fair_ends: "fair es \<Longrightarrow> \<exists>e \<in> set es. ends_copy d ph e"
  by (cases ph) (auto simp: fair_def; metis list.set_intros(1) neq_Nil_conv)+

text \<open>
  C21: A cancelled relay comes to its end. Once a tracker has cancelled the connection, no order
  of the remaining operations records or delivers another byte, and as soon as each of the two
  goroutines has had its turn the relay returns, with the byte counts of the moment of the
  cancellation.
\<close>
theorem relay_returns_after_cancel:
  assumes "relay_run ops handle es (relay_init, s) = Ret (rs, s')" and "rs_cancelled rs" and "fair fs"
  shows "relay ops handle (es @ fs) s = Ret (Some (copied (rs_up rs), copied (rs_down rs)), s')"
proof -
  have "\<forall>d. chunk_of es (copy_of d rs)"
    using assms(1) by (rule relay_run_induct) (simp add: chunk_of_init, erule relay_step_chunk)
  then have ne: "\<forall>d bs. cp_phase (copy_of d rs) = Holding bs \<longrightarrow> bs \<noteq> []"
    by (simp add: chunk_of_def)
  obtain rs' where run: "relay_run ops handle fs (rs, s') = Ret (rs', s')"
    and del: "\<And>d. cp_delivered (copy_of d rs') = cp_delivered (copy_of d rs)"
    and fin: "\<And>d. cp_phase (copy_of d rs') = Finished"
    using cancelled_run [OF assms(2) ne, of ops handle fs s'] fair_ends [OF assms(3)] by blast
  have "copied (rs_up rs') = copied (rs_up rs)" "copied (rs_down rs') = copied (rs_down rs)"
    using del [of Up] del [of Down] by (simp_all add: copied_def)
  with run fin assms(1) show ?thesis
    by (simp add: relay_def relay_run_append relay_done_iff)
qed

text \<open>A relay of a key with an upload limit of 100 bytes, at a standing clock.\<close>

definition demo_rule :: RateLimitRule where
  "demo_rule = \<lparr>rlType = LimitUploadBytes, rlTimeframe = Hourly, rlWindow = 1, rlMax = 100\<rparr>"

definition demo_user :: userState where
  "demo_user = \<lparr>us_concurrent = 1, us_counters = [Some (newRollingCounter 3600000000000 1000)]\<rparr>"

definition demo_clock :: "nat clock" where
  "demo_clock = (\<lambda>w. (1000, w))"

definition demo_events :: "relay_event list" where
  "demo_events = [Read Up (replicate 80 7), Read Down (replicate 9 8), Write Up 80, Write Down 9, Read Up (replicate 30 7)]"

definition demo_fair :: "relay_event list" where
  "demo_fair = [End Down, Write Up 30, End Up, Write Down 0]"

lemma demo_fair: "fair demo_fair"
proof -
  have "(\<exists>k. Write d k \<in> set demo_fair) \<and> End d \<in> set demo_fair" for d
    by (cases d) (auto simp: demo_fair_def)
  then show ?thesis by (simp add: fair_def)
qed

abbreviation demo_run :: "(relay_state \<times> unit \<times> store \<times> nat) outcome" where
  "demo_run \<equiv> relay_run (rl_ops demo_clock) (Some (RlConnTracker [demo_rule] 0)) demo_events (relay_init, (), [demo_user], 0)"

lemma demo_run_cancelled:
  "case demo_run of Ret (rs, s) \<Rightarrow> rs_cancelled rs \<and> copied (rs_up rs) = 80 \<and> copied (rs_down rs) = 9 | Panicked p \<Rightarrow> False"
  by code_simp

theorem relay_returns_after_cancel_witness:
  "\<exists>s'. relay (rl_ops demo_clock) (Some (RlConnTracker [demo_rule] 0)) (demo_events @ demo_fair) ((), [demo_user], 0) =
     Ret (Some (80, 9), s')"
proof -
  obtain rs s' where run: "demo_run = Ret (rs, s')" and "rs_cancelled rs" "copied (rs_up rs) = 80" "copied (rs_down rs) = 9"
    using demo_run_cancelled by (auto split: outcome.splits)
  with relay_returns_after_cancel [OF run _ demo_fair] show ?thesis by (intro exI [of _ s']) simp
qed

definition demo_clean :: "relay_event list" where
  "demo_clean = [Read Up (replicate 40 7), Write Up 4096, Read Down (replicate 9 8), End Up, Write Down 4096, End Down]"

theorem relay_delivers_witness:
  "\<exists>s'. relay (rl_ops demo_clock) (Some (RlConnTracker [demo_rule] 0)) demo_clean ((), [demo_user], 0) = Ret (Some (40, 9), s')"
proof -
  let ?run = "relay_run (rl_ops demo_clock) (Some (RlConnTracker [demo_rule] 0)) demo_clean (relay_init, (), [demo_user], 0)"
  have "case ?run of Ret (rs, s) \<Rightarrow> \<not> rs_cancelled rs \<and> relay_done rs \<and>
      length (cp_read (rs_up rs)) = 40 \<and> length (cp_read (rs_down rs)) = 9 | Panicked p \<Rightarrow> False"
    by code_simp
  then obtain rs s' where run: "?run = Ret (rs, s')" and "\<not> rs_cancelled rs" "relay_done rs"
      "length (cp_read (rs_up rs)) = 40" "length (cp_read (rs_down rs)) = 9"
    by (auto split: outcome.splits)
  moreover have "full_writes demo_clean"
    by (simp add: full_writes_def demo_clean_def)
  ultimately show ?thesis
    using relay_delivers [OF run, of Up] by (intro exI [of _ s']) simp
qed

section \<open>Byte limits across the relays of a key\<close>

text \<open>The relays of all connections of one key, whose trackers share its counters; each event
  names the relay it belongs to.\<close>

fun relays_run :: "'s tracker_ops \<Rightarrow> ConnTracker \<Rightarrow> (nat \<times> relay_event) list \<Rightarrow> relay_state list \<times> 's \<Rightarrow> (relay_state list \<times> 's) outcome" where
  "relays_run ops t [] x = Ret x"
| "relays_run ops t ((i, e) # es) (rss, s) =
     (if i < length rss
      then bind_outcome (relay_step ops (Some t) e (rss ! i, s)) (\<lambda>(rs, s'). relays_run ops t es (rss[i := rs], s'))
      else relays_run ops t es (rss, s))"

definition counts :: "RateLimitRule \<Rightarrow> direction \<Rightarrow> bool" where
  "counts rl d = traffic_applies (d = Up) (rlType rl)"

text \<open>The bytes of a relay that fall under the rule: those delivered, and those yet to be.\<close>

definition limited_bytes :: "RateLimitRule \<Rightarrow> relay_state \<Rightarrow> int" where
  "limited_bytes rl rs = (\<Sum>d \<in> {Up, Down}. if counts rl d then copied (copy_of d rs) else 0)"

definition pending :: "relay_state \<Rightarrow> direction \<Rightarrow> int" where
  "pending rs d = (case cp_phase (copy_of d rs) of Holding bs \<Rightarrow> if rs_cancelled rs then 0 else int (length bs) | _ \<Rightarrow> 0)"

definition committed_bytes :: "RateLimitRule \<Rightarrow> relay_state \<Rightarrow> int" where
  "committed_bytes rl rs = (\<Sum>d \<in> {Up, Down}. if counts rl d then copied (copy_of d rs) + pending rs d else 0)"

lemma pending_nonneg [simp]: "0 \<le> pending rs d"
  by (simp add: pending_def split: phase.split)

lemma limited_le_committed: "limited_bytes rl rs \<le> committed_bytes rl rs"
  unfolding limited_bytes_def committed_bytes_def by (rule sum_mono) simp

lemma limited_nonneg [simp]: "0 \<le> limited_bytes rl rs"
  unfolding limited_bytes_def by (rule sum_nonneg) (simp add: copied_def)

lemma limited_init [simp]: "limited_bytes rl relay_init = 0" "committed_bytes rl relay_init = 0"
  by (simp_all add: limited_bytes_def committed_bytes_def relay_init_def copy_init_def copied_def pending_def)

lemma committed_mono:
  assumes "\<And>d. counts rl d \<Longrightarrow> copied (copy_of d rs') + pending rs' d \<le> copied (copy_of d rs) + pending rs d"
  shows "committed_bytes rl rs' \<le> committed_bytes rl rs"
  unfolding committed_bytes_def by (rule sum_mono) (simp add: assms)

text \<open>Only a read of the rule's directions commits new bytes, and only when it does not cancel.\<close>

lemma committed_write: "committed_bytes rl (put_copy d (cp_write (rs_cancelled rs) k (copy_of d rs)) rs) \<le> committed_bytes rl rs"
proof (rule committed_mono)
  fix d'
  let ?rs' = "put_copy d (cp_write (rs_cancelled rs) k (copy_of d rs)) rs"
  show "copied (copy_of d' ?rs') + pending ?rs' d' \<le> copied (copy_of d' rs) + pending rs d'"
    by (cases "cp_phase (copy_of d rs)") (auto simp: cp_write_def copied_def pending_def Let_def split: phase.splits)
qed

lemma committed_end: "committed_bytes rl (put_copy d (cp_end (copy_of d rs)) rs) \<le> committed_bytes rl rs"
  by (rule committed_mono) (auto simp: cp_end_def copied_def pending_def split: phase.splits)

lemma committed_read:
  assumes "cp_phase (copy_of d rs) = Reading" and "\<not> rs_cancelled rs"
  shows "committed_bytes rl (put_copy d (cp_hold bs (copy_of d rs)) (rs\<lparr>rs_cancelled := cancel\<rparr>)) \<le>
    committed_bytes rl rs + (if counts rl d \<and> \<not> cancel then int (length bs) else 0)"
proof -
  define rs' where "rs' = put_copy d (cp_hold bs (copy_of d rs)) (rs\<lparr>rs_cancelled := cancel\<rparr>)"
  have le: "copied (copy_of d' rs') + pending rs' d' \<le>
      copied (copy_of d' rs) + pending rs d' + (if d' = d \<and> \<not> cancel then int (length bs) else 0)" for d'
    using assms by (auto simp: rs'_def cp_hold_def copied_def pending_def split: phase.splits)
  have "committed_bytes rl rs' \<le> committed_bytes rl rs + (if counts rl d \<and> \<not> cancel then int (length bs) else 0)"
    unfolding committed_bytes_def using le [of Up] le [of Down] by (cases d) auto
  then show ?thesis by (simp add: rs'_def)
qed

lemma counting_Read_limited:
  assumes "clock_source clk ok" and "ok w" and "a < length st" and "us_counters (st ! a) = [Some c]" and "rc_inv c"
    and "fst (clk w) - tw_start (rc_abs c) < tw_size (rc_abs c)" and "in_int64 (rc_sum c + int n)"
  shows "\<exists>c' st' w'. counting_Read (rl_ops clk) (Some (RlConnTracker [rl] a)) d n (h, st, w) =
      (Ret (counts rl d \<and> rlMax rl \<le> rc_sum c + int n), (h, st', w')) \<and>
    length st' = length st \<and> us_counters (st' ! a) = [Some c'] \<and> rc_inv c' \<and> ok w' \<and>
    rc_sum c' = rc_sum c + (if counts rl d then int n else 0) \<and>
    tw_start (rc_abs c') = tw_start (rc_abs c) \<and> tw_size (rc_abs c') = tw_size (rc_abs c)"
proof (cases "counts rl d")
  case True
  from rl_RecordTraffic_single [OF assms(1,2,4,5) True [unfolded counts_def] assms(6,7)]
  obtain c' w' where "rl_RecordTraffic clk [rl] (d = Up) (int n) (st ! a) w =
      (Ret (rlMax rl \<le> rc_sum c + int n), (st ! a)\<lparr>us_counters := [Some c']\<rparr>, w')"
    "rc_inv c'" "ok w'" "rc_sum c' = rc_sum c + int n" "tw_start (rc_abs c') = tw_start (rc_abs c)"
    "tw_size (rc_abs c') = tw_size (rc_abs c)" by blast
  with True assms(3) show ?thesis
    by (intro exI [of _ c'] exI [of _ "st[a := (st ! a)\<lparr>us_counters := [Some c']\<rparr>]"] exI [of _ w'])
      (auto simp: counting_Read_def rl_ops_def Let_def of_bool_def)
next
  case False
  then have "rl_RecordTraffic clk [rl] (d = Up) (int n) (st ! a) w = (Ret False, st ! a, w)"
    by (simp add: rl_RecordTraffic_def counts_def)
  with False assms show ?thesis
    by (intro exI [of _ c] exI [of _ st] exI [of _ w]) (simp add: counting_Read_def rl_ops_def)
qed

text \<open>
  While the window lasts, the counter has at least the bytes the relays have committed since
  it stood at \<open>rc_sum c\<close>, and these fit under the maximum.
\<close>

definition limit_inv :: "('w \<Rightarrow> bool) \<Rightarrow> RateLimitRule \<Rightarrow> nat \<Rightarrow> rollingCounter \<Rightarrow> int \<Rightarrow> relay_state list \<times> 'h \<times> store \<times> 'w \<Rightarrow> bool" where
  "limit_inv ok rl a c m x =
     (case x of (rss, h, st, w) \<Rightarrow>
        let C = sum_list (map (committed_bytes rl) rss) in
        ok w \<and> a < length st \<and> (C \<le> 0 \<or> rc_sum c + C < rlMax rl) \<and>
        (\<exists>c'. us_counters (st ! a) = [Some c'] \<and> rc_inv c' \<and> tw_start (rc_abs c') = tw_start (rc_abs c) \<and>
           tw_size (rc_abs c') = tw_size (rc_abs c) \<and> C \<le> rc_sum c' - rc_sum c \<and> 0 \<le> rc_sum c' \<and> rc_sum c' \<le> m))"

lemma sum_committed_update:
  "i < length rss \<Longrightarrow> sum_list (map (committed_bytes rl) (rss[i := rs])) =
     sum_list (map (committed_bytes rl) rss) + committed_bytes rl rs - committed_bytes rl (rss ! i)"
  by (simp add: map_update sum_list_update)

lemma limit_inv_update:
  assumes "limit_inv ok rl a c m (rss, h, st, w)" and "i < length rss" and "committed_bytes rl rs \<le> committed_bytes rl (rss ! i)"
  shows "limit_inv ok rl a c m (rss[i := rs], h, st, w)"
  using assms by (fastforce simp: limit_inv_def sum_committed_update Let_def)

fun event_bytes :: "relay_event \<Rightarrow> int" where
  "event_bytes (Read d bs) = int (length bs)"
| "event_bytes _ = 0"

lemma event_bytes_nonneg [simp]: "0 \<le> event_bytes e"
  by (cases e) simp_all

lemma limit_inv_mono: "limit_inv ok rl a c m x \<Longrightarrow> m \<le> m' \<Longrightarrow> limit_inv ok rl a c m' x"
  unfolding limit_inv_def Let_def by (cases x) fastforce

lemma limit_inv_step:
  assumes clk: "clock_source clk ok" and inv: "limit_inv ok rl a c m (rss, h, st, w)" and i: "i < length rss"
    and window: "\<And>w. ok w \<Longrightarrow> fst (clk w) - tw_start (rc_abs c) < tw_size (rc_abs c)"
    and m: "m + event_bytes e < 2 ^ 63"
  shows "\<exists>rs' st' w'. relay_step (rl_ops clk) (Some (RlConnTracker [rl] a)) e (rss ! i, h, st, w) = Ret (rs', h, st', w') \<and>
    limit_inv ok rl a c (m + event_bytes e) (rss[i := rs'], h, st', w')"
proof (cases "\<exists>d bs. e = Read d bs \<and> cp_phase (copy_of d (rss ! i)) = Reading \<and> \<not> rs_cancelled (rss ! i) \<and> bs \<noteq> []")
  case False
  have same: "limit_inv ok rl a c (m + event_bytes e) (rss[i := rs'], h, st, w)"
    if "committed_bytes rl rs' \<le> committed_bytes rl (rss ! i)" for rs'
    using limit_inv_mono [OF limit_inv_update [OF inv i that], of "m + event_bytes e"] by (cases e) auto
  show ?thesis
    using False same [OF committed_write] same [OF committed_end] same [of "rss ! i"] by (cases e) auto
next
  case True
  then obtain d bs where e: "e = Read d bs" and rd: "cp_phase (copy_of d (rss ! i)) = Reading" "\<not> rs_cancelled (rss ! i)" "bs \<noteq> []"
    by blast
  let ?n = "length bs"
  from inv obtain c' where c': "us_counters (st ! a) = [Some c']" "rc_inv c'" "tw_start (rc_abs c') = tw_start (rc_abs c)"
      "tw_size (rc_abs c') = tw_size (rc_abs c)" and w: "ok w" "a < length st"
    and sums: "sum_list (map (committed_bytes rl) rss) \<le> rc_sum c' - rc_sum c" "0 \<le> rc_sum c'" "rc_sum c' \<le> m"
      "sum_list (map (committed_bytes rl) rss) \<le> 0 \<or> rc_sum c + sum_list (map (committed_bytes rl) rss) < rlMax rl"
    by (auto simp: limit_inv_def Let_def)
  have "in_int64 (rc_sum c' + int ?n)"
    using m sums by (simp add: in_int64_def e)
  from counting_Read_limited [OF clk w c'(1,2) _ this, of rl d h] window [OF w(1)] c'(3,4)
  obtain c'' st' w' where rec: "counting_Read (rl_ops clk) (Some (RlConnTracker [rl] a)) d ?n (h, st, w) =
      (Ret (counts rl d \<and> rlMax rl \<le> rc_sum c' + int ?n), (h, st', w'))"
    and c'': "length st' = length st" "us_counters (st' ! a) = [Some c'']" "rc_inv c''" "ok w'"
      "rc_sum c'' = rc_sum c' + (if counts rl d then int ?n else 0)"
      "tw_start (rc_abs c'') = tw_start (rc_abs c)" "tw_size (rc_abs c'') = tw_size (rc_abs c)"
    by auto
  define cancel where "cancel = (counts rl d \<and> rlMax rl \<le> rc_sum c' + int ?n)"
  define rs' where "rs' = put_copy d (cp_hold bs (copy_of d (rss ! i))) ((rss ! i)\<lparr>rs_cancelled := cancel\<rparr>)"
  have step: "relay_step (rl_ops clk) (Some (RlConnTracker [rl] a)) e (rss ! i, h, st, w) = Ret (rs', h, st', w')"
    using rd rec by (simp add: e rs'_def cancel_def)
  have le: "committed_bytes rl rs' \<le> committed_bytes rl (rss ! i) + (if counts rl d \<and> \<not> cancel then int ?n else 0)"
    unfolding rs'_def by (rule committed_read) (use rd in auto)
  have "limit_inv ok rl a c (m + event_bytes e) (rss[i := rs'], h, st', w')"
    unfolding limit_inv_def Let_def prod.case sum_committed_update [OF i]
    using c'' w sums le by (intro conjI exI [of _ c'']) (auto simp: e cancel_def split: if_splits)
  with step show ?thesis by blast
qed

lemma limit_inv_run:
  assumes "clock_source clk ok" and "limit_inv ok rl a c m (rss, h, st, w)"
    and "\<And>w. ok w \<Longrightarrow> fst (clk w) - tw_start (rc_abs c) < tw_size (rc_abs c)"
    and "m + sum_list (map (event_bytes \<circ> snd) es) < 2 ^ 63"
  shows "\<exists>rss' st' w' m'. relays_run (rl_ops clk) (RlConnTracker [rl] a) es (rss, h, st, w) = Ret (rss', h, st', w') \<and>
    limit_inv ok rl a c m' (rss', h, st', w')"
  using assms(2,4)
proof (induction es arbitrary: rss st w m)
  case (Cons ie es)
  obtain i e where ie: "ie = (i, e)" by fastforce
  have nonneg: "0 \<le> event_bytes e" "0 \<le> sum_list (map (event_bytes \<circ> snd) es)"
    by (simp, rule sum_list_nonneg) auto
  show ?case
  proof (cases "i < length rss")
    case True
    have "m + event_bytes e < 2 ^ 63"
      using Cons.prems(2) nonneg by (simp add: ie comp_def)
    from limit_inv_step [OF assms(1) Cons.prems(1) True assms(3) this] obtain rs' st' w' where
      step: "relay_step (rl_ops clk) (Some (RlConnTracker [rl] a)) e (rss ! i, h, st, w) = Ret (rs', h, st', w')"
      and inv: "limit_inv ok rl a c (m + event_bytes e) (rss[i := rs'], h, st', w')" by blast
    from Cons.IH [OF inv] Cons.prems(2) step True show ?thesis
      by (simp add: ie add.assoc comp_def)
  next
    case False
    have "m + sum_list (map (event_bytes \<circ> snd) es) < 2 ^ 63"
      using Cons.prems(2) nonneg(1) unfolding ie comp_def list.map sum_list.Cons snd_conv by linarith
    from Cons.IH [OF Cons.prems(1) this] False show ?thesis by (simp add: ie)
  qed
qed auto

text \<open>
  C6: A byte limit bounds what all connections of a key transfer together. However the reads and
  writes of any number of relays of the key interleave, inside one window the bytes that were
  actually delivered in the directions the rule counts stay strictly below the maximum (together
  with what the counter had before): the chunk that reaches the limit is not delivered, and
  no relay crashes.
\<close>
theorem relays_respect_byte_limit:
  assumes "clock_source clk ok" and "ok w" and "a < length st" and "us_counters (st ! a) = [Some c]" and "rc_inv c"
    and "\<And>w. ok w \<Longrightarrow> fst (clk w) - tw_start (rc_abs c) < tw_size (rc_abs c)"
    and "0 \<le> rc_sum c" and "rc_sum c + sum_list (map (event_bytes \<circ> snd) es) < 2 ^ 63"
  shows "\<exists>rss s'. relays_run (rl_ops clk) (RlConnTracker [rl] a) es (replicate n relay_init, h, st, w) = Ret (rss, s') \<and>
    (sum_list (map (limited_bytes rl) rss) = 0 \<or> rc_sum c + sum_list (map (limited_bytes rl) rss) < rlMax rl)"
proof -
  have "limit_inv ok rl a c (rc_sum c) (replicate n relay_init, h, st, w)"
    using assms(2-5,7) by (auto simp: limit_inv_def Let_def sum_list_replicate)
  from limit_inv_run [OF assms(1) this assms(6) assms(8)] obtain rss st' w' m' where
    run: "relays_run (rl_ops clk) (RlConnTracker [rl] a) es (replicate n relay_init, h, st, w) = Ret (rss, h, st', w')"
    and inv: "limit_inv ok rl a c m' (rss, h, st', w')" by blast
  have "sum_list (map (limited_bytes rl) rss) \<le> sum_list (map (committed_bytes rl) rss)"
    by (rule sum_list_mono) (rule limited_le_committed)
  moreover have "0 \<le> sum_list (map (limited_bytes rl) rss)"
    by (rule sum_list_nonneg) auto
  ultimately show ?thesis
    using run inv by (auto simp: limit_inv_def Let_def)
qed

lemma demo_counter:
  "rc_inv (newRollingCounter 3600000000000 1000)" "rc_sum (newRollingCounter 3600000000000 1000) = 0"
  "1000 - tw_start (rc_abs (newRollingCounter 3600000000000 1000)) < tw_size (rc_abs (newRollingCounter 3600000000000 1000))"
proof -
  have abs: "rc_abs (newRollingCounter 3600000000000 1000) =
      \<lparr>tw_start = 1000, tw_total = 0, tw_size = 60 * max nsMillisecond (3600000000000 sdiv 60)\<rparr>"
    by (rule newRollingCounter_abs) (simp add: in_int64_def)
  have "0 < 60 * max nsMillisecond (3600000000000 sdiv 60)"
    by (simp add: nsMillisecond_def)
  then show "1000 - tw_start (rc_abs (newRollingCounter 3600000000000 1000)) < tw_size (rc_abs (newRollingCounter 3600000000000 1000))"
    by (simp only: abs) simp
  show "rc_sum (newRollingCounter 3600000000000 1000) = 0"
    using arg_cong [OF abs, of tw_total] by (simp add: rc_abs_def)
qed (rule newRollingCounter_inv)

definition demo_interleaving :: "(nat \<times> relay_event) list" where
  "demo_interleaving = [(0, Read Up (replicate 70 1)), (1, Read Up (replicate 50 2)), (1, Write Up 50), (0, Write Up 70)]"

theorem relays_respect_byte_limit_witness:
  "\<exists>rss s'. relays_run (rl_ops demo_clock) (RlConnTracker [demo_rule] 0) demo_interleaving
       (replicate 2 relay_init, (), [demo_user], 0) = Ret (rss, s') \<and>
     (sum_list (map (limited_bytes demo_rule) rss) = 0 \<or> sum_list (map (limited_bytes demo_rule) rss) < 100)"
proof -
  have clk: "clock_source demo_clock (\<lambda>w. True)"
    unfolding demo_clock_def by (rule fixed_clock) simp
  let ?c = "newRollingCounter 3600000000000 1000"
  have "\<exists>rss s'. relays_run (rl_ops demo_clock) (RlConnTracker [demo_rule] 0) demo_interleaving
       (replicate 2 relay_init, (), [demo_user], 0) = Ret (rss, s') \<and>
     (sum_list (map (limited_bytes demo_rule) rss) = 0 \<or> rc_sum ?c + sum_list (map (limited_bytes demo_rule) rss) < rlMax demo_rule)"
    by (rule relays_respect_byte_limit [OF clk])
      (use demo_counter in \<open>simp_all add: demo_user_def demo_clock_def demo_interleaving_def\<close>)
  then show ?thesis
    by (simp add: demo_counter(2)) (simp add: demo_rule_def)
qed

end
