(* ===== verification/Upstream.thy ===== *)
theory Upstream
  imports Net
begin

text \<open>
  Dialling a target through an upstream proxy: the HTTP CONNECT client
  (\<^verbatim>\<open>proxy-kit/http_upstream.go\<close>), the SOCKS5 client over \<^verbatim>\<open>golang.org/x/net/proxy\<close>
  (\<^verbatim>\<open>proxy-kit/socks5_upstream.go\<close>, the package is a parameter) and the dispatch between them
  (\<^verbatim>\<open>proxy-kit/upstream.go\<close>). \<^verbatim>\<open>net.Dial\<close> is a parameter too: it yields a connection, given by what its
  reads and writes will return.
\<close>

section \<open>Connections to an upstream\<close>

text \<open>
  The results of the successive \<^verbatim>\<open>Read\<close> calls (data and the error that came with it), everything
  written, the error writes return, and whether it has been closed. After the listed reads the
  next one does not return.
\<close>

record upconn =
  u_reads :: "(string \<times> string option) list"
  u_written :: string
  u_werr :: "string option"
  u_closed :: bool

definition u_Close :: "upconn \<Rightarrow> upconn" where
  "u_Close c = c\<lparr>u_closed := True\<rparr>"

text \<open>What a dialer returns: a connection, or an error, with the state in which it left a
  connection it had opened.\<close>

datatype dial_result = Dialed upconn | DialFailed error "upconn option"

section \<open>HTTP CONNECT\<close>

definition crlf :: string where "crlf = [CHR 0x0D, CHR 0x0A]"

definition basic_credentials :: "Proxy \<Rightarrow> string" where
  "basic_credentials p = ''Basic '' @ EncodeToString std_alphabet (pUsername p @ '':'' @ pPassword p)"

definition connect_request :: "Proxy \<Rightarrow> string \<Rightarrow> string" where
  "connect_request p target =
     ''CONNECT '' @ target @ '' HTTP/1.1'' @ crlf @ ''Host: '' @ target @ crlf @
     (if pUsername p \<noteq> '''' then ''Proxy-Authorization: '' @ basic_credentials p @ crlf else '''') @ crlf"

fun containsCRLFCRLF :: "string \<Rightarrow> bool" where
  "containsCRLFCRLF (a # b # c # d # rest) =
     ((a = CHR 0x0D \<and> b = CHR 0x0A \<and> c = CHR 0x0D \<and> d = CHR 0x0A) \<or> containsCRLFCRLF (b # c # d # rest))"
| "containsCRLFCRLF _ = False"

text \<open>The loop that reads the response: an error or the buffer, and the reads left; \<open>None\<close> if it does
  not end.\<close>

fun read_response :: "(string \<times> string option) list \<Rightarrow> string \<Rightarrow> ((string + string) \<times> (string \<times> string option) list) option" where
  "read_response [] buf = None"
| "read_response ((data, readErr) # rs) buf =
     (let buf' = buf @ data in
      case readErr of
        Some e \<Rightarrow> Some (Inl e, rs)
      | None \<Rightarrow> if containsCRLFCRLF buf' then Some (Inr buf', rs) else read_response rs buf')"

definition status_ok :: "string \<Rightarrow> bool" where
  "status_ok resp \<longleftrightarrow> \<not> (length resp < 12 \<or> (take 12 resp \<noteq> ''HTTP/1.1 200'' \<and> take 12 resp \<noteq> ''HTTP/1.0 200''))"

definition HTTPUpstream_Dial :: "(string \<Rightarrow> string + upconn) \<Rightarrow> Proxy \<Rightarrow> string \<Rightarrow> dial_result option" where
  "HTTPUpstream_Dial netDial p target =
     (let addr = hostPort (pHost p) (pPort p) in
      case netDial addr of
        Inl e \<Rightarrow> Some (DialFailed (ErrOther (''connecting to upstream '' @ addr @ '': '' @ e)) None)
      | Inr c \<Rightarrow>
          (case u_werr c of
             Some e \<Rightarrow> Some (DialFailed (ErrOther (''sending CONNECT: '' @ e)) (Some (u_Close c)))
           | None \<Rightarrow>
               (let c1 = c\<lparr>u_written := u_written c @ connect_request p target\<rparr> in
                case read_response (u_reads c1) '''' of
                  None \<Rightarrow> None
                | Some (Inl e, rs) \<Rightarrow>
                    Some (DialFailed (ErrOther (''reading CONNECT response: '' @ e)) (Some (u_Close (c1\<lparr>u_reads := rs\<rparr>))))
                | Some (Inr resp, rs) \<Rightarrow>
                    if \<not> status_ok resp
                    then Some (DialFailed (ErrOther (''upstream rejected CONNECT: '' @ resp)) (Some (u_Close (c1\<lparr>u_reads := rs\<rparr>))))
                    else Some (Dialed (c1\<lparr>u_reads := rs\<rparr>)))))"

section \<open>SOCKS5\<close>

text \<open>
  \<^verbatim>\<open>proxy.SOCKS5\<close> makes a dialer from an address and optional credentials, or fails; a dialer may
  or may not implement \<^verbatim>\<open>proxy.ContextDialer\<close>.
\<close>

record socks5_dialer =
  sd_DialContext :: "(string \<Rightarrow> dial_result option) option"
  sd_Dial :: "string \<Rightarrow> dial_result option"

definition SOCKS5Upstream_Dial ::
  "(string \<Rightarrow> (string \<times> string) option \<Rightarrow> string + socks5_dialer) \<Rightarrow> Proxy \<Rightarrow> string \<Rightarrow> dial_result option" where
  "SOCKS5Upstream_Dial proxy_SOCKS5 p target =
     (let addr = hostPort (pHost p) (pPort p);
          auth = (if pUsername p \<noteq> '''' then Some (pUsername p, pPassword p) else None)
      in case proxy_SOCKS5 addr auth of
           Inl e \<Rightarrow> Some (DialFailed (ErrOther (''creating SOCKS5 dialer for '' @ addr @ '': '' @ e)) None)
         | Inr dialer \<Rightarrow>
             (case sd_DialContext dialer of Some f \<Rightarrow> f target | None \<Rightarrow> sd_Dial dialer target))"

definition AutoUpstream ::
  "(string \<Rightarrow> string + upconn) \<Rightarrow> (string \<Rightarrow> (string \<times> string) option \<Rightarrow> string + socks5_dialer) \<Rightarrow>
   Proxy \<Rightarrow> string \<Rightarrow> dial_result option" where
  "AutoUpstream netDial proxy_SOCKS5 p target =
     (if Proto p = ProtocolSOCKS5 then SOCKS5Upstream_Dial proxy_SOCKS5 p target
      else HTTPUpstream_Dial netDial p target)"

section \<open>The end of a response head\<close>

lemma containsCRLFCRLF_iff: "containsCRLFCRLF s \<longleftrightarrow> (\<exists>a b. s = a @ crlf @ crlf @ b)"
proof
  assume "containsCRLFCRLF s"
  then show "\<exists>a b. s = a @ crlf @ crlf @ b"
  proof (induction s rule: containsCRLFCRLF.induct)
    case (1 a b c d rest)
    then consider "a # b # c # d # rest = [] @ crlf @ crlf @ rest" | u v where "b # c # d # rest = u @ crlf @ crlf @ v"
      by (auto simp: crlf_def)
    then show ?case
      by cases (blast, metis append_Cons)
  qed auto
next
  have step: "containsCRLFCRLF s \<Longrightarrow> containsCRLFCRLF (x # s)" for x s
    by (cases s rule: containsCRLFCRLF.cases) auto
  assume "\<exists>a b. s = a @ crlf @ crlf @ b"
  then obtain a b where "s = a @ crlf @ crlf @ b" by blast
  moreover have "containsCRLFCRLF (a @ crlf @ crlf @ b)"
    by (induction a) (simp_all add: crlf_def step)
  ultimately show "containsCRLFCRLF s" by simp
qed

lemma containsCRLFCRLF_append: "containsCRLFCRLF s \<Longrightarrow> containsCRLFCRLF (s @ t)"
  by (auto simp: containsCRLFCRLF_iff) (metis append.assoc)

section \<open>When the CONNECT client returns, and what it accepts\<close>

definition all_read :: "(string \<times> string option) list \<Rightarrow> string" where
  "all_read rs = concat (map fst rs)"

definition no_error :: "(string \<times> string option) list \<Rightarrow> bool" where
  "no_error rs = list_all (\<lambda>(data, e). e = None) rs"

lemma read_response_None:
  "\<not> containsCRLFCRLF buf \<Longrightarrow>
   read_response rs buf = None \<longleftrightarrow> no_error rs \<and> \<not> containsCRLFCRLF (buf @ all_read rs)"
proof (induction rs buf rule: read_response.induct)
  case (2 data readErr rs buf)
  show ?case
  proof (cases "readErr = None \<and> \<not> containsCRLFCRLF (buf @ data)")
    case True
    with 2 show ?thesis by (simp add: no_error_def all_read_def)
  next
    case False
    with containsCRLFCRLF_append [of "buf @ data" "all_read rs"] show ?thesis
      by (cases readErr) (auto simp: no_error_def all_read_def)
  qed
qed (simp add: no_error_def all_read_def)

text \<open>A successful loop has read up to the first read that completes the head.\<close>

definition head_complete :: "(string \<times> string option) list \<Rightarrow> string \<Rightarrow> string \<Rightarrow> bool" where
  "head_complete rs buf resp \<longleftrightarrow> rs \<noteq> [] \<and> no_error rs \<and> resp = buf @ all_read rs \<and> containsCRLFCRLF resp \<and>
     \<not> containsCRLFCRLF (buf @ all_read (butlast rs))"

lemma head_complete_Cons:
  assumes "\<not> containsCRLFCRLF buf"
  shows "head_complete ((data, e) # rs) buf resp \<longleftrightarrow> e = None \<and>
    (if containsCRLFCRLF (buf @ data) then rs = [] \<and> resp = buf @ data else head_complete rs (buf @ data) resp)"
proof (cases rs)
  case Nil
  with assms show ?thesis by (auto simp: head_complete_def no_error_def all_read_def)
next
  case (Cons r rs')
  with containsCRLFCRLF_append [of "buf @ data" "all_read (butlast rs)"] show ?thesis
    by (auto simp: head_complete_def no_error_def all_read_def)
qed

lemma read_response_Some:
  "\<not> containsCRLFCRLF buf \<Longrightarrow>
   read_response rs buf = Some (Inr resp, rest) \<longleftrightarrow> (\<exists>rs1. rs = rs1 @ rest \<and> head_complete rs1 buf resp)"
proof (induction rs buf rule: read_response.induct)
  case (1 buf)
  then show ?case by (simp add: head_complete_def)
next
  case (2 data readErr rs buf)
  have "\<not> head_complete [] buf resp"
    by (simp add: head_complete_def)
  then have "(\<exists>rs1. (data, readErr) # rs = rs1 @ rest \<and> head_complete rs1 buf resp) \<longleftrightarrow>
      (\<exists>rs1. rs = rs1 @ rest \<and> head_complete ((data, readErr) # rs1) buf resp)"
    unfolding Cons_eq_append_conv by blast
  also have "\<dots> \<longleftrightarrow> readErr = None \<and> (if containsCRLFCRLF (buf @ data) then rs = rest \<and> resp = buf @ data
      else \<exists>rs1. rs = rs1 @ rest \<and> head_complete rs1 (buf @ data) resp)"
    using head_complete_Cons [OF "2.prems"] by (cases "containsCRLFCRLF (buf @ data)") auto
  finally have eq: "(\<exists>rs1. (data, readErr) # rs = rs1 @ rest \<and> head_complete rs1 buf resp) \<longleftrightarrow>
      readErr = None \<and> (if containsCRLFCRLF (buf @ data) then rs = rest \<and> resp = buf @ data
        else \<exists>rs1. rs = rs1 @ rest \<and> head_complete rs1 (buf @ data) resp)" .
  show ?case
  proof (cases "readErr = None \<and> \<not> containsCRLFCRLF (buf @ data)")
    case True
    then have "read_response ((data, readErr) # rs) buf = read_response rs (buf @ data)"
      by simp
    with True "2.IH" eq show ?thesis by simp
  next
    case False
    then have "read_response ((data, readErr) # rs) buf = Some (Inr resp, rest) \<longleftrightarrow>
        readErr = None \<and> containsCRLFCRLF (buf @ data) \<and> rs = rest \<and> resp = buf @ data"
      by (cases readErr) auto
    with False eq show ?thesis by auto
  qed
qed

text \<open>
  C33: When the CONNECT client returns. Dialling ends unless the upstream accepts the connection
  and the request and then neither fails nor ever completes a response head: there is no
  deadline and no bound on the head, so exactly such an upstream holds the client for ever, with
  a buffer that grows with all it sends.
\<close>
theorem HTTPUpstream_Dial_blocks_iff:
  "HTTPUpstream_Dial netDial p target = None \<longleftrightarrow>
     (\<exists>c. netDial (hostPort (pHost p) (pPort p)) = Inr c \<and> u_werr c = None \<and>
        no_error (u_reads c) \<and> \<not> (\<exists>a b. all_read (u_reads c) = a @ crlf @ crlf @ b))"
proof -
  have "HTTPUpstream_Dial netDial p target = None \<longleftrightarrow> (\<exists>c. netDial (hostPort (pHost p) (pPort p)) = Inr c \<and>
      u_werr c = None \<and> read_response (u_reads c) '''' = None)"
    by (auto simp: HTTPUpstream_Dial_def Let_def split: sum.splits option.splits prod.splits)
  moreover have "read_response rs '''' = None \<longleftrightarrow> no_error rs \<and> \<not> containsCRLFCRLF (all_read rs)" for rs
    using read_response_None [of "''''" rs] by simp
  ultimately show ?thesis
    by (simp only: containsCRLFCRLF_iff)
qed

text \<open>
  C32: What the CONNECT client accepts. It returns a connection exactly when the CONNECT request
  was written and the error-free reads up to the first one that completes the head start with
  a 200 status of HTTP/1.0 or HTTP/1.1. The connection it returns continues with the next read:
  bytes of the tunnel that arrived in the same read as the end of the head are dropped.
\<close>
theorem HTTPUpstream_Dial_accepts_iff:
  "HTTPUpstream_Dial netDial p target = Some (Dialed c') \<longleftrightarrow>
     (\<exists>c rs rest. netDial (hostPort (pHost p) (pPort p)) = Inr c \<and> u_werr c = None \<and> u_reads c = rs @ rest \<and>
        no_error rs \<and> (\<exists>a b. all_read rs = a @ crlf @ crlf @ b) \<and>
        (\<nexists>a b. all_read (butlast rs) = a @ crlf @ crlf @ b) \<and>
        take 12 (all_read rs) \<in> {''HTTP/1.1 200'', ''HTTP/1.0 200''} \<and>
        c' = c\<lparr>u_written := u_written c @ connect_request p target, u_reads := rest\<rparr>)"
proof -
  have head: "head_complete rs '''' (all_read rs) \<longleftrightarrow> no_error rs \<and> containsCRLFCRLF (all_read rs) \<and>
      \<not> containsCRLFCRLF (all_read (butlast rs))" for rs
    by (auto simp: head_complete_def all_read_def)
  have status: "status_ok resp \<longleftrightarrow> take 12 resp \<in> {''HTTP/1.1 200'', ''HTTP/1.0 200''}" for resp
    by (auto simp: status_ok_def)
  have resp: "head_complete rs '''' resp \<Longrightarrow> resp = all_read rs" for rs resp
    by (simp add: head_complete_def)
  have "HTTPUpstream_Dial netDial p target = Some (Dialed c') \<longleftrightarrow>
     (\<exists>c resp rest. netDial (hostPort (pHost p) (pPort p)) = Inr c \<and> u_werr c = None \<and>
        read_response (u_reads c) '''' = Some (Inr resp, rest) \<and> status_ok resp \<and>
        c' = c\<lparr>u_written := u_written c @ connect_request p target, u_reads := rest\<rparr>)"
    by (auto simp: HTTPUpstream_Dial_def Let_def split: sum.splits option.splits prod.splits)
  also have "\<dots> \<longleftrightarrow> (\<exists>c rs rest. netDial (hostPort (pHost p) (pPort p)) = Inr c \<and> u_werr c = None \<and>
        u_reads c = rs @ rest \<and> head_complete rs '''' (all_read rs) \<and> status_ok (all_read rs) \<and>
        c' = c\<lparr>u_written := u_written c @ connect_request p target, u_reads := rest\<rparr>)"
    using read_response_Some [of "''''"] resp by auto blast+
  finally show ?thesis
    by (simp only: head status containsCRLFCRLF_iff conj_assoc)
qed

end
