(* ===== verification/Socks5.thy ===== *)
theory Socks5
  imports Net
begin

text \<open>
  The SOCKS5 server side of \<^verbatim>\<open>proxy-kit/socks5_downstream.go\<close>: the greeting and the user name and
  password sub-negotiation, the CONNECT request and its addresses, the replies. The reading and
  writing order, every early return and every error text are the code's; the connection is the
  byte stream of \<open>Net\<close>.
\<close>

section \<open>The handshake\<close>

definition no_auth :: "(string \<times> string) io" where
  "no_auth = io_bind (conn_Write ''writing no-auth selection'' [5, 0]) (\<lambda>_. io_return ('''', ''''))"

text \<open>A field with a length byte in front.\<close>

definition read_field :: "string \<Rightarrow> string \<Rightarrow> byte list io" where
  "read_field lenMsg msg = io_bind (ReadFull lenMsg 1) (\<lambda>l. ReadFull msg (unat (hd l)))"

definition userpass_auth :: "(string \<times> string) io" where
  "userpass_auth =
     io_bind (conn_Write ''writing method selection'' [5, 2]) (\<lambda>_.
     io_bind (ReadFull ''reading auth version'' 1) (\<lambda>authVer.
     io_bind (read_field ''reading username length'' ''reading username'') (\<lambda>uBytes.
     io_bind (read_field ''reading password length'' ''reading password'') (\<lambda>pBytes.
     io_bind (conn_Write ''writing auth response'' [1, 0]) (\<lambda>_.
     io_return (string_of uBytes, string_of pBytes))))))"

definition socks5ServerHandshake :: "(string \<times> string) io" where
  "socks5ServerHandshake =
     io_bind (ReadFull ''reading version'' 1) (\<lambda>ver.
     if hd ver \<noteq> 5 then io_fail (''unsupported SOCKS version '' @ itoa (unat (hd ver)))
     else
       io_bind (read_field ''reading method count'' ''reading methods'') (\<lambda>methods.
       if 2 \<in> set methods then userpass_auth else no_auth))"

section \<open>The request\<close>

definition sendSOCKS5Reply :: "byte \<Rightarrow> conn \<Rightarrow> conn" where
  "sendSOCKS5Reply status c = snd (conn_Write '''' [5, status, 0, 1, 0, 0, 0, 0, 0, 0] c)"

definition hex2 :: "byte \<Rightarrow> string" where
  "hex2 b = [''0123456789abcdef'' ! (unat b div 16), ''0123456789abcdef'' ! (unat b mod 16)]"

definition port_of :: "byte list \<Rightarrow> u16" where
  "port_of bs = push_bit 8 (ucast (bs ! 0)) OR ucast (bs ! 1)"

definition readSOCKS5Address :: "byte \<Rightarrow> string io" where
  "readSOCKS5Address atyp =
     io_bind
       (if atyp = 1 then io_bind (ReadFull ''reading IPv4 address'' 4) (\<lambda>ip. io_return (IP_String ip))
        else if atyp = 3 then
          io_bind (read_field ''reading domain length'' ''reading domain'') (\<lambda>dom. io_return (string_of dom))
        else if atyp = 4 then io_bind (ReadFull ''reading IPv6 address'' 16) (\<lambda>ip. io_return (IP_String ip))
        else io_fail (''unsupported address type 0x'' @ hex2 atyp))
       (\<lambda>host. io_bind (ReadFull ''reading port'' 2) (\<lambda>portBytes.
          io_return (host @ '':'' @ itoa (unat (port_of portBytes)))))"

definition socks5ReadRequest :: "string io" where
  "socks5ReadRequest =
     io_bind (ReadFull ''reading request header'' 4) (\<lambda>header.
     if header ! 0 \<noteq> 5 then io_fail (''unexpected version in request: '' @ itoa (unat (header ! 0)))
     else if header ! 1 \<noteq> 1 then
       (\<lambda>c. io_fail (''unsupported command '' @ itoa (unat (header ! 1)) @ '' (only CONNECT supported)'')
              (sendSOCKS5Reply 7 c))
     else readSOCKS5Address (header ! 3))"

text \<open>The handshake phase of \<^verbatim>\<open>handleConn\<close>: credentials and target, or a finished connection.\<close>

definition socks5Negotiate :: "conn \<Rightarrow> (string \<times> string \<times> string) option \<times> conn" where
  "socks5Negotiate c =
     (case socks5ServerHandshake c of
        (Inl e, c1) \<Rightarrow> (None, c1)
      | (Inr (user, pass), c1) \<Rightarrow>
          (case socks5ReadRequest c1 of
             (Inl e, c2) \<Rightarrow> (None, sendSOCKS5Reply 1 c2)
           | (Inr target, c2) \<Rightarrow> (Some (user, pass, target), c2)))"

section \<open>The client's side\<close>

text \<open>What a client sends according to RFC 1928 and RFC 1929.\<close>

datatype addr = IPv4 "byte list" | Domain string | IPv6 "byte list"

fun addr_ok :: "addr \<Rightarrow> bool" where
  "addr_ok (IPv4 bs) = (length bs = 4)"
| "addr_ok (Domain d) = (length d < 256)"
| "addr_ok (IPv6 bs) = (length bs = 16)"

fun addr_text :: "addr \<Rightarrow> string" where
  "addr_text (IPv4 bs) = IP_String bs"
| "addr_text (Domain d) = d"
| "addr_text (IPv6 bs) = IP_String bs"

definition field :: "byte list \<Rightarrow> byte list" where
  "field bs = of_nat (length bs) # bs"

fun addr_bytes :: "addr \<Rightarrow> byte list" where
  "addr_bytes (IPv4 bs) = 1 # bs"
| "addr_bytes (Domain d) = 3 # field (bytes_of d)"
| "addr_bytes (IPv6 bs) = 4 # bs"

definition port_bytes :: "u16 \<Rightarrow> byte list" where
  "port_bytes p = [ucast (drop_bit 8 p), ucast p]"

definition greeting :: "byte list \<Rightarrow> byte list" where
  "greeting methods = 5 # field methods"

definition auth_bytes :: "byte \<Rightarrow> string \<Rightarrow> string \<Rightarrow> byte list" where
  "auth_bytes v user pass = v # field (bytes_of user) @ field (bytes_of pass)"

definition connect_bytes :: "addr \<Rightarrow> u16 \<Rightarrow> byte list" where
  "connect_bytes a port = [5, 1, 0] @ addr_bytes a @ port_bytes port"

lemma port_of_bytes [simp]: "port_of (port_bytes p) = p"
proof (rule bit_word_eqI)
  fix n assume "n < LENGTH(16)"
  then show "bit (port_of (port_bytes p)) n = bit p n"
    by (cases "n < 8") (auto simp: port_of_def port_bytes_def bit_or_iff bit_push_bit_iff bit_ucast_iff bit_drop_bit_eq)
qed

lemma length_bytes_of [simp]: "length (bytes_of s) = length s"
  by (simp add: bytes_of_def)

lemma unat_field_length: "n < 256 \<Longrightarrow> unat (of_nat n :: byte) = n"
  by (simp add: unat_of_nat)

text \<open>The readers on a stream that starts with what they read.\<close>

lemma read_field_field [io_simps]:
  assumes "c_in c = field bs @ rest" and "length bs < 256"
  shows "read_field m1 m2 c = (Inr bs, c\<lparr>c_in := rest\<rparr>)"
proof -
  have "ReadFull m1 1 c = (Inr [of_nat (length bs)], c\<lparr>c_in := bs @ rest\<rparr>)"
    using assms(1) by (intro ReadFull_append) (simp_all add: field_def)
  moreover have "ReadFull m2 (length bs) (c\<lparr>c_in := bs @ rest\<rparr>) = (Inr bs, c\<lparr>c_in := rest\<rparr>)"
    by (simp add: io_simps)
  ultimately show ?thesis
    using unat_field_length [OF assms(2)] by (simp add: read_field_def io_simps)
qed

lemma userpass_auth_reads:
  assumes "c_in c = auth_bytes v user pass @ rest" and "length user < 256" "length pass < 256" and "2 \<le> c_writes c"
  shows "userpass_auth c = (Inr (user, pass), c\<lparr>c_in := rest, c_out := c_out c @ [5, 2, 1, 0], c_writes := c_writes c - 2\<rparr>)"
proof -
  let ?c1 = "c\<lparr>c_out := c_out c @ [5, 2], c_writes := c_writes c - 1\<rparr>"
  have "ReadFull ''reading auth version'' 1 ?c1 =
      (Inr [v], ?c1\<lparr>c_in := field (bytes_of user) @ field (bytes_of pass) @ rest\<rparr>)"
    using assms(1) by (intro ReadFull_append) (simp_all add: auth_bytes_def)
  then show ?thesis
    using assms(2-4) by (simp add: userpass_auth_def io_simps)
qed

lemma readSOCKS5Address_reads:
  assumes "c_in c = tl (addr_bytes a) @ port_bytes port @ rest" and "addr_ok a"
  shows "readSOCKS5Address (hd (addr_bytes a)) c =
    (Inr (addr_text a @ '':'' @ itoa (unat port)), c\<lparr>c_in := rest\<rparr>)"
proof -
  have port: "ReadFull ''reading port'' 2 (c\<lparr>c_in := port_bytes port @ rest\<rparr>) =
      (Inr (port_bytes port), c\<lparr>c_in := rest\<rparr>)"
    by (rule ReadFull_append [THEN trans]) (simp_all add: port_bytes_def)
  show ?thesis
    using assms port by (cases a) (simp_all add: readSOCKS5Address_def io_simps)
qed

lemma socks5ReadRequest_reads:
  assumes "c_in c = connect_bytes a port @ rest" and "addr_ok a"
  shows "socks5ReadRequest c = (Inr (addr_text a @ '':'' @ itoa (unat port)), c\<lparr>c_in := rest\<rparr>)"
proof -
  have "ReadFull ''reading request header'' 4 c =
      (Inr [5, 1, 0, hd (addr_bytes a)], c\<lparr>c_in := tl (addr_bytes a) @ port_bytes port @ rest\<rparr>)"
    using assms(1) by (intro ReadFull_append) (cases a; simp add: connect_bytes_def)+
  then show ?thesis
    using assms(2) by (simp add: socks5ReadRequest_def io_simps readSOCKS5Address_reads)
qed

lemma socks5ServerHandshake_greeting:
  assumes "c_in c = greeting methods @ rest" and "length methods < 256"
  shows "socks5ServerHandshake c =
    (if 2 \<in> set methods then userpass_auth else no_auth) (c\<lparr>c_in := rest\<rparr>)"
proof -
  have "ReadFull ''reading version'' 1 c = (Inr [5], c\<lparr>c_in := field methods @ rest\<rparr>)"
    using assms(1) by (intro ReadFull_append) (simp_all add: greeting_def)
  then show ?thesis
    using assms(2) by (simp add: socks5ServerHandshake_def io_simps)
qed


definition demo_conn :: "byte list \<Rightarrow> conn" where
  "demo_conn bs = \<lparr>c_in = bs, c_end = ''EOF'', c_out = [], c_writes = 9, c_werr = ''broken pipe'', c_closed = False\<rparr>"


section \<open>Hosts of SOCKS5 targets\<close>

text \<open>An address that \<^verbatim>\<open>net.IP.String\<close> prints with colons.\<close>

definition prints_ipv6 :: "addr \<Rightarrow> bool" where
  "prints_ipv6 a = (case a of IPv6 bs \<Rightarrow> take 12 bs \<noteq> replicate 10 0 @ [255, 255] | _ \<Rightarrow> False)"

lemma addr_text_ipv6:
  assumes "addr_ok a" "prints_ipv6 a"
  shows "CHR '':'' \<in> set (addr_text a)" "CHR ''['' \<notin> set (addr_text a)"
proof -
  obtain bs where a: "a = IPv6 bs" "length bs = 16" "take 12 bs \<noteq> replicate 10 0 @ [255, 255]"
    using assms by (auto simp: prints_ipv6_def split: addr.splits)
  then have t: "addr_text a = ip6_text (hextets bs)"
    by (simp add: IP_String_def)
  show "CHR '':'' \<in> set (addr_text a)"
    unfolding t by (rule ip6_text_colon) (simp add: length_hextets a(2))
  show "CHR ''['' \<notin> set (addr_text a)"
    using ip6_text_chars [of "hextets bs"] unfolding t by auto
qed

lemma addr_text_dotted: "addr_ok a \<Longrightarrow> \<not> prints_ipv6 a \<Longrightarrow> (\<And>d. a \<noteq> Domain d) \<Longrightarrow> \<exists>bs. addr_text a = dotted bs"
  by (cases a) (auto simp: prints_ipv6_def IP_String_def)

text \<open>
  The host of the target that the SOCKS5 request reader builds. For domain names and IPv4
  addresses \<^verbatim>\<open>targetHost\<close> recovers the host from \<^verbatim>\<open>host:port\<close>. An IPv6 address is not put in brackets,
  so the text is ambiguous: \<^verbatim>\<open>net.SplitHostPort\<close> refuses it and the whole target, port included,
  is taken for the host.
\<close>
lemma socks5_target_host:
  fixes a :: addr and port :: u16
  assumes "addr_ok a" and "\<And>d. a = Domain d \<Longrightarrow> set d \<inter> set '':[]'' = {}"
  shows "targetHost (addr_text a @ '':'' @ itoa (unat port)) =
    (if prints_ipv6 a then addr_text a @ '':'' @ itoa (unat port) else addr_text a)"
proof (cases "prints_ipv6 a")
  case True
  with targetHost_colons [OF addr_text_ipv6 [OF assms(1) True]] show ?thesis by simp
next
  case False
  have "CHR '':'' \<notin> set (addr_text a)" "CHR ''['' \<notin> set (addr_text a)" "CHR '']'' \<notin> set (addr_text a)"
    using addr_text_dotted [OF assms(1) False] dotted_chars assms(2) by (cases a; fastforce)+
  with targetHost_plain [OF this] False show ?thesis by simp
qed

lemma socks5_target_host_witness:
  "targetHost (addr_text (Domain ''example.com'') @ '':'' @ itoa (unat (443 :: u16))) = ''example.com'' \<and>
   targetHost (addr_text (IPv6 (replicate 15 0 @ [1])) @ '':'' @ itoa (unat (443 :: u16))) = ''::1:443''"
proof -
  have "targetHost (addr_text (Domain ''example.com'') @ '':'' @ itoa (unat (443 :: u16))) = ''example.com''"
    using socks5_target_host [of "Domain ''example.com''" 443] by (simp add: prints_ipv6_def)
  moreover have "prints_ipv6 (IPv6 (replicate 15 0 @ [1]))"
    by code_simp
  then have "targetHost (addr_text (IPv6 (replicate 15 0 @ [1])) @ '':'' @ itoa (unat (443 :: u16))) =
      addr_text (IPv6 (replicate 15 0 @ [1])) @ '':'' @ itoa (unat (443 :: u16))"
    using socks5_target_host [of "IPv6 (replicate 15 0 @ [1])" 443] by simp
  moreover have "addr_text (IPv6 (replicate 15 0 @ [1])) @ '':'' @ itoa (unat (443 :: u16)) = ''::1:443''"
    by code_simp
  ultimately show ?thesis by simp
qed

end
