(* ===== verification/Auth.thy ===== *)
theory Auth
  imports Core
begin

text \<open>
  \<^verbatim>\<open>proxy-kit/auth.go\<close> and \<^verbatim>\<open>proxy-kit/utils/auth_map.go\<close>: the authentication middleware and the
  map-backed authenticator. The interface between them is the locale \<open>authenticator\<close>.
\<close>

type_synonym Authenticator = "string \<Rightarrow> string \<Rightarrow> error option"

definition Auth :: "Authenticator \<Rightarrow> 's handler \<Rightarrow> 's handler" where
  "Auth auth next = (\<lambda>ctx req s.
     case auth (Identity ctx) (Credential ctx) of
       Some err \<Rightarrow> (Ret (None, Some (ErrAuth err)), s)
     | None \<Rightarrow> next ctx req s)"

definition MapAuth_Authenticate :: "(string \<rightharpoonup> string) \<Rightarrow> Authenticator" where
  "MapAuth_Authenticate users identity credential =
     (case users identity of
        None \<Rightarrow> Some (ErrUnknownIdentity identity)
      | Some expected \<Rightarrow> if credential \<noteq> expected then Some ErrInvalidCredentials else None)"

text \<open>What an authenticator promises: it returns no error exactly on the pairs it accepts.\<close>

locale authenticator =
  fixes authenticate :: Authenticator
    and accepts :: "string \<Rightarrow> string \<Rightarrow> bool"
  assumes authenticate_iff: "authenticate i c = None \<longleftrightarrow> accepts i c"
begin

lemma gate:
  "Auth authenticate next ctx req s =
     (if accepts (Identity ctx) (Credential ctx) then next ctx req s
      else (Ret (None, Some (ErrAuth (the (authenticate (Identity ctx) (Credential ctx))))), s))"
  by (auto simp: Auth_def authenticate_iff [symmetric] split: option.splits)

end

interpretation map_auth: authenticator "MapAuth_Authenticate users" "\<lambda>i c. users i = Some c" for users
  by unfold_locales (auto simp: MapAuth_Authenticate_def split: option.splits)

text \<open>Auth over a MapAuth lets a request through to the next handler exactly when the
  context's identity is in the map with the context's credential as its password; otherwise it
  returns an error, no result, and the next handler never runs (its state is unchanged).\<close>

lemma Auth_MapAuth_gate:
  "Auth (MapAuth_Authenticate users) next ctx req s =
     (if users (Identity ctx) = Some (Credential ctx) then next ctx req s
      else (Ret (None, Some (ErrAuth (if users (Identity ctx) = None
               then ErrUnknownIdentity (Identity ctx) else ErrInvalidCredentials))), s))"
  unfolding map_auth.gate by (auto simp: MapAuth_Authenticate_def)

end
