(* ===== verification/Downstream.thy ===== *)
theory Downstream
  imports Header Relay Upstream Socks5 Auth
begin

text \<open>
  The servers that accept clients: \<^verbatim>\<open>proxy-kit/http_downstream.go\<close> (CONNECT tunnels and plain HTTP),
  the connection handler of \<^verbatim>\<open>proxy-kit/socks5_downstream.go\<close> and the forwarding of plain requests in
  \<^verbatim>\<open>proxy-kit/forward.go\<close>. \<^verbatim>\<open>http.Transport.RoundTrip\<close>, the dialer and the order of the relay's
  operations are parameters; so is the text of an error.
\<close>

section \<open>Credentials\<close>

definition extractBasicAuth :: "string \<Rightarrow> error + string \<times> string" where
  "extractBasicAuth headerVal =
     (case CutPrefix headerVal ''Basic '' of
        None \<Rightarrow> Inl ErrNotBasic
      | Some b64 \<Rightarrow>
          (case DecodeString std_alphabet b64 of
             None \<Rightarrow> Inl ErrInvalidBase64
           | Some raw \<Rightarrow>
               (case LastIndexByte raw CHR '':'' of
                  None \<Rightarrow> Inr (raw, '''')
                | Some i \<Rightarrow> Inr (take i raw, drop (i + 1) raw))))"

section \<open>Forwarding plain requests\<close>

record proxyURL =
  pu_Scheme :: string
  pu_Host :: string
  pu_User :: "(string \<times> string) option"

definition hopByHopHeaders :: "string list" where
  "hopByHopHeaders = [''Connection'', ''Keep-Alive'', ''Proxy-Authenticate'', ''Proxy-Authorization'', ''Te'',
     ''Trailers'', ''Transfer-Encoding'', ''Upgrade'']"

definition forward_URL :: "Proxy \<Rightarrow> proxyURL" where
  "forward_URL p = \<lparr>
     pu_Scheme = (if Proto p = ProtocolSOCKS5 then ''socks5'' else ''http''),
     pu_Host = hostPort (pHost p) (pPort p),
     pu_User = (if pUsername p \<noteq> '''' then Some (pUsername p, pPassword p) else None)\<rparr>"

text \<open>The clone that is sent on.\<close>

definition forward_request :: "HTTPRequest \<Rightarrow> HTTPRequest" where
  "forward_request r = r\<lparr>
     hqRequestURI := '''',
     hqURLHost := (if hqURLHost r = '''' then hqHost r else hqURLHost r),
     hqScheme := (if hqScheme r = '''' then ''http'' else hqScheme r),
     hqHeader := fold Header_Del hopByHopHeaders (hqHeader r)\<rparr>"

definition ForwardPlainHTTP :: "(proxyURL \<Rightarrow> HTTPRequest \<Rightarrow> string + HTTPResponse) \<Rightarrow> HTTPRequest \<Rightarrow> Proxy \<Rightarrow> error + HTTPResponse" where
  "ForwardPlainHTTP roundTrip r p =
     (case roundTrip (forward_URL p) (forward_request r) of
        Inl e \<Rightarrow> Inl (ErrOther (''forwarding to '' @ hqHost r @ '' via '' @ pHost p @ '': '' @ e))
      | Inr resp \<Rightarrow> Inr resp)"

section \<open>Tunnels\<close>

text \<open>How far a goroutine got: it has returned, it waits for a peer, or it has panicked.\<close>

datatype status = Returned | Waiting | Crashed panic

text \<open>The common end of the tunnels: dial, relay, close the tracker.\<close>

datatype tunnel = DialError error | Dialing | Relaying | Relayed int int | RelayPanic panic

definition close_tracker :: "'s tracker_ops \<Rightarrow> ConnTracker option \<Rightarrow> int \<Rightarrow> int \<Rightarrow> 's \<Rightarrow> 's" where
  "close_tracker ops t sent received s = (case t of None \<Rightarrow> s | Some x \<Rightarrow> ops_Close ops x sent received s)"

definition run_tunnel :: "'s tracker_ops \<Rightarrow> (Proxy \<Rightarrow> string \<Rightarrow> dial_result option) \<Rightarrow> (upconn \<Rightarrow> relay_event list) \<Rightarrow>
    ConnTracker option \<Rightarrow> Proxy \<Rightarrow> string \<Rightarrow> 's \<Rightarrow> tunnel \<times> 's" where
  "run_tunnel ops dial events t proxy target s =
     (case dial proxy target of
        None \<Rightarrow> (Dialing, s)
      | Some (DialFailed e c) \<Rightarrow> (DialError e, close_tracker ops t 0 0 s)
      | Some (Dialed upstreamConn) \<Rightarrow>
          (case relay ops t (events upstreamConn) s of
             Panicked p \<Rightarrow> (RelayPanic p, s)
           | Ret (None, s') \<Rightarrow> (Relaying, s')
           | Ret (Some (sent, received), s') \<Rightarrow> (Relayed sent received, close_tracker ops t sent received s')))"

fun tunnel_status :: "tunnel \<Rightarrow> status" where
  "tunnel_status (DialError e) = Returned"
| "tunnel_status (Relayed m n) = Returned"
| "tunnel_status Dialing = Waiting"
| "tunnel_status Relaying = Waiting"
| "tunnel_status (RelayPanic p) = Crashed p"

definition client_Close :: "ResponseWriter \<Rightarrow> ResponseWriter" where
  "client_Close w = w\<lparr>w_closed := True\<rparr>"

text \<open>\<^verbatim>\<open>serveConnect\<close>; \<open>cid\<close> names the hijacked connection in the request.\<close>

definition serveConnect :: "'s tracker_ops \<Rightarrow> (Proxy \<Rightarrow> string \<Rightarrow> dial_result option) \<Rightarrow> (upconn \<Rightarrow> relay_event list) \<Rightarrow>
    's handler \<Rightarrow> Context \<Rightarrow> nat \<Rightarrow> HTTPRequest \<Rightarrow> string \<Rightarrow> string \<Rightarrow> ResponseWriter \<times> 's \<Rightarrow> status \<times> ResponseWriter \<times> 's" where
  "serveConnect ops dial events handler ctx cid r rawUser rawPass ws =
     (let (w, s) = ws in
      case w_hijack w of
        None \<Rightarrow> (Returned, http_Error w ''hijacking not supported'' 500, s)
      | Some hijacks \<Rightarrow>
          let w1 = WriteHeader 200 w in
          if \<not> hijacks then (Returned, w1, s)
          else
            let req = \<lparr>RawUsername = rawUser, RawPassword = rawPass, Target = hqHost r, Conn = Some cid, reqHTTP = None\<rparr>
            in case handler ctx req s of
                 (Panicked p, s1) \<Rightarrow> (Crashed p, w1, s1)
               | (Ret (result, Some err), s1) \<Rightarrow> (Returned, client_Close w1, s1)
               | (Ret (None, None), s1) \<Rightarrow> (Returned, w1, s1)
               | (Ret (Some result, None), s1) \<Rightarrow>
                   (case rProxy result of
                      None \<Rightarrow> (Returned, w1, s1)
                    | Some proxy \<Rightarrow>
                        let (tn, s2) = run_tunnel ops dial events (rConnTracker result) proxy (hqHost r) s1
                        in (tunnel_status tn, if tunnel_status tn = Returned then client_Close w1 else w1, s2)))"

section \<open>Plain HTTP\<close>

definition writeHTTPResponse :: "ResponseWriter \<Rightarrow> HTTPResponse \<Rightarrow> ResponseWriter" where
  "writeHTTPResponse w resp =
     (let w1 = WriteHeader (hpStatusCode resp) (on_header (add_all (hpHeader resp)) w)
      in case hpBody resp of None \<Rightarrow> w1 | Some chunks \<Rightarrow> write_body chunks w1)"

definition apply_hook :: "Result \<Rightarrow> HTTPResponse \<Rightarrow> HTTPResponse" where
  "apply_hook result resp = (case rResponseHook result of None \<Rightarrow> resp | Some hook \<Rightarrow> hook resp)"

text \<open>The accounting at the end of a forwarded request; its \<^verbatim>\<open>cancel\<close> does nothing.\<close>

definition record_plain :: "'s tracker_ops \<Rightarrow> ConnTracker option \<Rightarrow> int \<Rightarrow> int \<Rightarrow> 's \<Rightarrow> status \<times> 's" where
  "record_plain ops t sent received s =
     (case t of
        None \<Rightarrow> (Returned, s)
      | Some x \<Rightarrow>
          (case ops_RecordTraffic ops x True sent s of
             (Panicked p, s1) \<Rightarrow> (Crashed p, s1)
           | (Ret _, s1) \<Rightarrow>
               (case ops_RecordTraffic ops x False received s1 of
                  (Panicked p, s2) \<Rightarrow> (Crashed p, s2)
                | (Ret _, s2) \<Rightarrow> (Returned, ops_Close ops x sent received s2))))"

definition stream_response :: "'s tracker_ops \<Rightarrow> ConnTracker option \<Rightarrow> HTTPRequest \<Rightarrow> HTTPResponse \<Rightarrow>
    ResponseWriter \<times> 's \<Rightarrow> status \<times> ResponseWriter \<times> 's" where
  "stream_response ops t r resp ws =
     (let (w, s) = ws; w1 = WriteHeader (hpStatusCode resp) (on_header (add_all (hpHeader resp)) w) in
      case hpBody resp of
        None \<Rightarrow> (Crashed NilDereference, w1, s)
      | Some chunks \<Rightarrow>
          let sent = (if 0 < hqContentLength r then hqContentLength r else 0);
              received = int (length (concat chunks));
              (st, s') = record_plain ops t sent received s
          in (st, write_body chunks w1, s'))"

definition servePlainHTTP :: "(error \<Rightarrow> string) \<Rightarrow> 's tracker_ops \<Rightarrow> (proxyURL \<Rightarrow> HTTPRequest \<Rightarrow> string + HTTPResponse) \<Rightarrow>
    's handler \<Rightarrow> Context \<Rightarrow> HTTPRequest \<Rightarrow> string \<Rightarrow> string \<Rightarrow> ResponseWriter \<times> 's \<Rightarrow> status \<times> ResponseWriter \<times> 's" where
  "servePlainHTTP errText ops roundTrip handler ctx r rawUser rawPass ws =
     (let (w, s) = ws;
          req = \<lparr>RawUsername = rawUser, RawPassword = rawPass, Target = hqHost r, Conn = None, reqHTTP = Some r\<rparr>
      in case handler ctx req s of
           (Panicked p, s1) \<Rightarrow> (Crashed p, w, s1)
         | (Ret (result, Some err), s1) \<Rightarrow> (Returned, http_Error w (errText err) 403, s1)
         | (Ret (None, None), s1) \<Rightarrow> (Returned, http_Error w ''no proxy available'' 503, s1)
         | (Ret (Some result, None), s1) \<Rightarrow>
             (case rHTTPResponse result of
                Some resp \<Rightarrow> (Returned, writeHTTPResponse w (apply_hook result resp), s1)
              | None \<Rightarrow>
                  (case rProxy result of
                     None \<Rightarrow> (Returned, http_Error w ''no proxy available'' 503, s1)
                   | Some proxy \<Rightarrow>
                       (case ForwardPlainHTTP roundTrip r proxy of
                          Inl err \<Rightarrow> (Returned, http_Error w (''upstream error: '' @ errText err) 502,
                                      close_tracker ops (rConnTracker result) 0 0 s1)
                        | Inr resp \<Rightarrow> stream_response ops (rConnTracker result) r (apply_hook result resp) (w, s1)))))"

definition httpHandler :: "(error \<Rightarrow> string) \<Rightarrow> 's tracker_ops \<Rightarrow> (Proxy \<Rightarrow> string \<Rightarrow> dial_result option) \<Rightarrow> (upconn \<Rightarrow> relay_event list) \<Rightarrow>
    (proxyURL \<Rightarrow> HTTPRequest \<Rightarrow> string + HTTPResponse) \<Rightarrow> 's handler \<Rightarrow> Context \<Rightarrow> nat \<Rightarrow> HTTPRequest \<Rightarrow>
    ResponseWriter \<times> 's \<Rightarrow> status \<times> ResponseWriter \<times> 's" where
  "httpHandler errText ops dial events roundTrip handler ctx cid r ws =
     (case extractBasicAuth (Header_Get (hqHeader r) ''Proxy-Authorization'') of
        Inl err \<Rightarrow>
          let (w, s) = ws
          in (Returned, http_Error (on_header (Header_Set ''Proxy-Authenticate'' ''Basic realm=\"proxy-gateway\"'') w) (errText err) 407, s)
      | Inr (rawUsername, rawPassword) \<Rightarrow>
          if hqMethod r = ''CONNECT'' then serveConnect ops dial events handler ctx cid r rawUsername rawPassword ws
          else servePlainHTTP errText ops roundTrip handler ctx r rawUsername rawPassword ws)"

section \<open>SOCKS5 connections\<close>

definition handleConn :: "'s tracker_ops \<Rightarrow> (Proxy \<Rightarrow> string \<Rightarrow> dial_result option) \<Rightarrow> (upconn \<Rightarrow> relay_event list) \<Rightarrow>
    's handler \<Rightarrow> nat \<Rightarrow> conn \<times> 's \<Rightarrow> status \<times> conn \<times> 's" where
  "handleConn ops dial events handler cid cs =
     (let (c, s) = cs in
      case socks5Negotiate c of
        (None, c1) \<Rightarrow> (Returned, conn_Close c1, s)
      | (Some (rawUsername, rawPassword, target), c1) \<Rightarrow>
          let req = \<lparr>RawUsername = rawUsername, RawPassword = rawPassword, Target = target, Conn = Some cid, reqHTTP = None\<rparr>
          in case handler background req s of
               (Panicked p, s1) \<Rightarrow> (Crashed p, conn_Close c1, s1)
             | (Ret (result, Some err), s1) \<Rightarrow> (Returned, conn_Close (sendSOCKS5Reply 2 c1), s1)
             | (Ret (None, None), s1) \<Rightarrow> (Returned, conn_Close c1, s1)
             | (Ret (Some result, None), s1) \<Rightarrow>
                 (case rProxy result of
                    None \<Rightarrow> (Returned, conn_Close c1, s1)
                  | Some proxy \<Rightarrow>
                      (case run_tunnel ops dial events (rConnTracker result) proxy target s1 of
                         (DialError e, s2) \<Rightarrow> (Returned, conn_Close (sendSOCKS5Reply 5 c1), s2)
                       | (Dialing, s2) \<Rightarrow> (Waiting, c1, s2)
                       | (Relaying, s2) \<Rightarrow> (Waiting, sendSOCKS5Reply 0 c1, s2)
                       | (Relayed m n, s2) \<Rightarrow> (Returned, conn_Close (sendSOCKS5Reply 0 c1), s2)
                       | (RelayPanic p, s2) \<Rightarrow> (Crashed p, sendSOCKS5Reply 0 c1, s2))))"

section \<open>Basic credentials across gateways\<close>

text \<open>
  C34: The credentials that the CONNECT client sends to an upstream proxy are the ones the HTTP
  server of a gateway reads, for every user name (colons included), exactly when the password
  has no colon: the server splits at the last one.
\<close>
theorem basic_auth_roundtrip:
  "extractBasicAuth (basic_credentials p) = Inr (pUsername p, pPassword p) \<longleftrightarrow> CHR '':'' \<notin> set (pPassword p)"
proof -
  define raw where "raw = pUsername p @ '':'' @ pPassword p"
  have dec: "extractBasicAuth (basic_credentials p) =
      (case LastIndexByte raw CHR '':'' of None \<Rightarrow> Inr (raw, '''') | Some i \<Rightarrow> Inr (take i raw, drop (i + 1) raw))"
    unfolding extractBasicAuth_def basic_credentials_def raw_def CutPrefix_append by (simp only: option.case Decode_Encode alphabets_ok)
  obtain i where i: "LastIndexByte raw CHR '':'' = Some i"
    using LastIndexByte_None [of raw "CHR '':''"] by (cases "LastIndexByte raw CHR '':''") (auto simp: raw_def)
  from LastIndexByte_Some [OF i] have "CHR '':'' \<notin> set (drop (i + 1) raw)"
    by simp
  moreover have "i = length (pUsername p)" if "CHR '':'' \<notin> set (pPassword p)"
    using LastIndexByte_append [OF that, of "pUsername p"] i by (simp add: raw_def)
  ultimately have "take i raw = pUsername p \<and> drop (i + 1) raw = pPassword p \<longleftrightarrow> CHR '':'' \<notin> set (pPassword p)"
    by (metis append_Nil append_eq_conv_conj append_Cons drop_Suc_Cons drop_drop drop_0 Suc_eq_plus1 raw_def plus_1_eq_Suc)
  then show ?thesis
    unfolding dec i by simp
qed

section \<open>Forwarded headers\<close>

lemma hopByHop_canonical: "list_all (\<lambda>k. CanonicalHeaderKey k = k) hopByHopHeaders"
  by code_simp

lemma Header_values_fold_Del:
  "list_all (\<lambda>k. CanonicalHeaderKey k = k) ks \<Longrightarrow>
   Header_values (fold Header_Del ks h) k = (if k \<in> set ks then [] else Header_values h k)"
  by (induction ks arbitrary: h) (auto simp: http_simps)

text \<open>
  C35: What a forwarded plain request carries. Every hop-by-hop header of the list is gone, the
  client's proxy credentials among them, every other header has all its values, and the request
  has an absolute URL; nothing else of the request changes.
\<close>
theorem forward_request_headers:
  "Header_values (hqHeader (forward_request r)) k =
     (if k \<in> set hopByHopHeaders then [] else Header_values (hqHeader r) k) \<and>
   Header_Get (hqHeader (forward_request r)) ''Proxy-Authorization'' = '''' \<and>
   (hqURLHost (forward_request r) = '''' \<longleftrightarrow> hqURLHost r = '''' \<and> hqHost r = '''') \<and> hqScheme (forward_request r) \<noteq> '''' \<and>
   hqMethod (forward_request r) = hqMethod r \<and> hqPath (forward_request r) = hqPath r \<and>
   hqHost (forward_request r) = hqHost r \<and> hqContentLength (forward_request r) = hqContentLength r"
proof -
  have h: "Header_values (hqHeader (forward_request r)) k = (if k \<in> set hopByHopHeaders then [] else Header_values (hqHeader r) k)" for k
    by (simp add: forward_request_def Header_values_fold_Del [OF hopByHop_canonical])
  have "CanonicalHeaderKey ''Proxy-Authorization'' \<in> set hopByHopHeaders"
    by code_simp
  then have "Header_Get (hqHeader (forward_request r)) ''Proxy-Authorization'' = ''''"
    by (simp add: Header_Get_def h)
  with h show ?thesis
    by (simp add: forward_request_def)
qed

section \<open>Trackers are closed\<close>

text \<open>
  What the servers ask of a handler and its trackers, over a relation \<open>R\<close> between the state and
  the trackers that are open: resolving may open the tracker of the result, recording keeps it
  open, closing closes it; a tracked result names a proxy and is no synthetic response.
\<close>

fun opened :: "resolution \<Rightarrow> ConnTracker list" where
  "opened (Ret (Some r, None)) = (case rConnTracker r of None \<Rightarrow> [] | Some t \<Rightarrow> [t])"
| "opened _ = []"

lemma resolution_cases:
  fixes out :: resolution
  obtains (panic) p where "out = Panicked p" | (error) res e where "out = Ret (res, Some e)"
    | (handled) "out = Ret (None, None)" | (unproxied) r where "out = Ret (Some r, None)" "rProxy r = None"
    | (proxied) r p where "out = Ret (Some r, None)" "rProxy r = Some p"
  by (metis outcome.exhaust option.exhaust surj_pair)

locale tracked_server =
  fixes ops :: "'s tracker_ops"
    and handler :: "'s handler"
    and R :: "'s \<Rightarrow> ConnTracker list \<Rightarrow> bool"
  assumes resolve: "R s os \<Longrightarrow> handler ctx req s = (out, s') \<Longrightarrow> R s' (opened out @ os)"
    and traffic: "R s os \<Longrightarrow> t \<in> set os \<Longrightarrow> ops_RecordTraffic ops t up d s = (r, s') \<Longrightarrow> R s' os"
    and closing: "R s os \<Longrightarrow> t \<in> set os \<Longrightarrow> R (ops_Close ops t m n s) (remove1 t os)"
    and tracked_proxy: "handler ctx req s = (Ret (Some res, None), s') \<Longrightarrow> rConnTracker res \<noteq> None \<Longrightarrow>
      rProxy res \<noteq> None \<and> rHTTPResponse res = None"
begin

abbreviation trackers :: "ConnTracker option \<Rightarrow> ConnTracker list" where
  "trackers t \<equiv> (case t of None \<Rightarrow> [] | Some x \<Rightarrow> [x])"

lemma close_tracker_R: "R s (trackers t @ os) \<Longrightarrow> R (close_tracker ops t m n s) os"
  using closing [of s "the t # os" "the t"] by (cases t) (auto simp: close_tracker_def)

lemma relay_step_R:
  "relay_step ops t e (rs, s) = Ret (rs', s') \<Longrightarrow> R s (trackers t @ os) \<Longrightarrow> R s' (trackers t @ os)"
proof (cases e)
  case (Read d bs)
  assume "relay_step ops t e (rs, s) = Ret (rs', s')" and R: "R s (trackers t @ os)"
  with Read show ?thesis
    using traffic [of s "trackers t @ os" "the t" "d = Up" "int (length bs)"]
    by (cases t) (auto simp: counting_Read_def Let_def split: if_splits outcome.splits prod.splits)
qed auto

lemma relay_R:
  assumes "relay ops t es s = Ret (x, s')" and "R s (trackers t @ os)"
  shows "R s' (trackers t @ os)"
proof -
  obtain rs where "relay_run ops t es (relay_init, s) = Ret (rs, s')"
    using assms(1) by (auto simp: relay_def bind_outcome_Ret_iff split: if_splits)
  from this assms(2) show ?thesis
    by (rule relay_run_induct) (erule relay_step_R)
qed

text \<open>A tunnel that has ended has closed its tracker; one that still runs has it open.\<close>

lemma run_tunnel_R:
  assumes "run_tunnel ops dial events t proxy target s = (tn, s')" and "R s (trackers t @ os)"
  shows "(tunnel_status tn = Returned \<longrightarrow> R s' os) \<and> (tunnel_status tn = Waiting \<longrightarrow> R s' (trackers t @ os))"
  using assms close_tracker_R [OF assms(2)] relay_R [OF _ assms(2)] close_tracker_R
  by (auto simp: run_tunnel_def split: option.splits dial_result.splits outcome.splits)

lemma resolved_R:
  assumes "R s os" and "handler ctx req s = (out, s')"
  shows "R s' (opened out @ os)"
    and "\<And>e res. out = Ret (res, Some e) \<Longrightarrow> R s' os" and "out = Ret (None, None) \<Longrightarrow> R s' os"
    and "\<And>res. out = Ret (Some res, None) \<Longrightarrow> rProxy res = None \<Longrightarrow> R s' os"
    and "\<And>res resp. out = Ret (Some res, None) \<Longrightarrow> rHTTPResponse res = Some resp \<Longrightarrow> R s' os"
    and "\<And>res. out = Ret (Some res, None) \<Longrightarrow> R s' (trackers (rConnTracker res) @ os)"
proof -
  show R: "R s' (opened out @ os)"
    by (rule resolve [OF assms])
  have none: "rConnTracker res = None" if "out = Ret (Some res, None)" "rProxy res = None \<or> rHTTPResponse res \<noteq> None" for res
    using tracked_proxy [of ctx req s res s'] assms(2) that by (cases "rConnTracker res") auto
  show "\<And>e res. out = Ret (res, Some e) \<Longrightarrow> R s' os" "out = Ret (None, None) \<Longrightarrow> R s' os"
    "\<And>res. out = Ret (Some res, None) \<Longrightarrow> R s' (trackers (rConnTracker res) @ os)"
    using R by auto
  show "\<And>res. out = Ret (Some res, None) \<Longrightarrow> rProxy res = None \<Longrightarrow> R s' os"
    "\<And>res resp. out = Ret (Some res, None) \<Longrightarrow> rHTTPResponse res = Some resp \<Longrightarrow> R s' os"
    using R none by fastforce+
qed

lemma serveConnect_R:
  assumes "R s os" and "serveConnect ops dial events handler ctx cid r user pass (w, s) = (Returned, w', s')"
  shows "R s' os"
proof (cases "w_hijack w = Some True")
  case True
  let ?req = "\<lparr>RawUsername = user, RawPassword = pass, Target = hqHost r, Conn = Some cid, reqHTTP = None\<rparr>"
  obtain out s1 where out: "handler ctx ?req s = (out, s1)" by fastforce
  note R = resolved_R [OF assms(1) out]
  show ?thesis
  proof (cases out rule: resolution_cases)
    case (proxied res p)
    obtain tn s2 where "run_tunnel ops dial events (rConnTracker res) p (hqHost r) s1 = (tn, s2)" by fastforce
    with run_tunnel_R [OF this R(6) [OF proxied(1)]] assms(2) True out proxied show ?thesis
      by (simp add: serveConnect_def Let_def)
  qed (use assms(2) True out R in \<open>auto simp: serveConnect_def Let_def split: option.splits\<close>)
next
  case False
  with assms show ?thesis by (auto simp: serveConnect_def split: option.splits)
qed

lemma handleConn_R:
  assumes "R s os" and "handleConn ops dial events handler cid (c, s) = (Returned, c', s')"
  shows "R s' os"
proof (cases "socks5Negotiate c")
  case (Pair neg c1)
  show ?thesis
  proof (cases neg)
    case None
    with assms Pair show ?thesis by (simp add: handleConn_def)
  next
    case (Some upt)
    obtain user pass target where upt: "upt = (user, pass, target)" by (cases upt)
    let ?req = "\<lparr>RawUsername = user, RawPassword = pass, Target = target, Conn = Some cid, reqHTTP = None\<rparr>"
    obtain out s1 where out: "handler background ?req s = (out, s1)" by fastforce
    note R = resolved_R [OF assms(1) out]
    show ?thesis
    proof (cases out rule: resolution_cases)
      case (proxied res p)
      obtain tn s2 where "run_tunnel ops dial events (rConnTracker res) p target s1 = (tn, s2)" by fastforce
      with run_tunnel_R [OF this R(6) [OF proxied(1)]] assms(2) Pair Some upt out proxied show ?thesis
        by (cases tn) (simp_all add: handleConn_def)
    qed (use assms(2) Pair Some upt out R in \<open>auto simp: handleConn_def split: option.splits\<close>)
  qed
qed

lemma record_plain_R:
  assumes "record_plain ops t m n s = (Returned, s')" and "R s (trackers t @ os)"
  shows "R s' os"
proof (cases t)
  case (Some x)
  obtain a s1 where 1: "ops_RecordTraffic ops x True m s = (a, s1)" by fastforce
  obtain b s2 where 2: "ops_RecordTraffic ops x False n s1 = (b, s2)" by fastforce
  have "R s2 (x # os)"
    using traffic [OF _ _ 1, of "x # os"] traffic [OF _ _ 2, of "x # os"] assms(2) Some by simp
  with closing [of s2 "x # os" x] assms(1) 1 2 Some show ?thesis
    by (auto simp: record_plain_def split: outcome.splits)
qed (use assms in \<open>simp add: record_plain_def\<close>)

lemma stream_response_R:
  assumes "stream_response ops t r resp (w, s) = (Returned, w', s')"
    and "\<And>m n. record_plain ops t m n s = (Returned, s') \<Longrightarrow> R s' os"
  shows "R s' os"
proof (cases "hpBody resp")
  case (Some chunks)
  let ?p = "record_plain ops t (if 0 < hqContentLength r then hqContentLength r else 0) (int (length (concat chunks))) s"
  have "?p = (Returned, s')"
    using assms(1) Some by (cases ?p) (simp add: stream_response_def Let_def)
  then show ?thesis by (rule assms(2))
qed (use assms(1) in \<open>simp add: stream_response_def Let_def\<close>)

lemma servePlainHTTP_R:
  assumes "R s os" and "servePlainHTTP errText ops roundTrip handler ctx r user pass (w, s) = (Returned, w', s')"
  shows "R s' os"
proof -
  let ?req = "\<lparr>RawUsername = user, RawPassword = pass, Target = hqHost r, Conn = None, reqHTTP = Some r\<rparr>"
  obtain out s1 where out: "handler ctx ?req s = (out, s1)" by fastforce
  note R = resolved_R [OF assms(1) out]
  show ?thesis
  proof (cases out rule: resolution_cases)
    case (proxied res p)
    note tracked = R(6) [OF proxied(1)]
    show ?thesis
    proof (cases "rHTTPResponse res")
      case None
      show ?thesis
      proof (cases "ForwardPlainHTTP roundTrip r p")
        case (Inl e)
        with None proxied out assms(2) close_tracker_R [OF tracked] show ?thesis
          by (auto simp: servePlainHTTP_def)
      next
        case (Inr resp)
        with None proxied out assms(2) have "stream_response ops (rConnTracker res) r (apply_hook res resp) (w, s1) = (Returned, w', s')"
          by (simp add: servePlainHTTP_def)
        then show ?thesis
          using record_plain_R [OF _ tracked] by (rule stream_response_R)
      qed
    next
      case (Some resp)
      with R(5) [OF proxied(1)] proxied out assms(2) show ?thesis
        by (auto simp: servePlainHTTP_def)
    qed
  qed (use assms(2) out R in \<open>auto simp: servePlainHTTP_def split: option.splits\<close>)
qed

lemma httpHandler_R:
  assumes "R s os" and "httpHandler errText ops dial events roundTrip handler ctx cid r (w, s) = (Returned, w', s')"
  shows "R s' os"
proof (cases "extractBasicAuth (Header_Get (hqHeader r) ''Proxy-Authorization'')")
  case (Inl e)
  with assms show ?thesis by (simp add: httpHandler_def)
next
  case (Inr up)
  obtain user pass where up: "up = (user, pass)" by fastforce
  show ?thesis
  proof (cases "hqMethod r = ''CONNECT''")
    case True
    with assms Inr up serveConnect_R [OF assms(1)] show ?thesis by (simp add: httpHandler_def)
  next
    case False
    with assms Inr up servePlainHTTP_R [OF assms(1)] show ?thesis by (simp add: httpHandler_def)
  qed
qed

end

text \<open>Authentication in front of such a handler opens nothing of its own.\<close>

lemma authed_tracked_server:
  assumes "tracked_server ops handler R"
  shows "tracked_server ops (Auth authenticate handler) R"
proof (unfold_locales, goal_cases)
  case (1 s os ctx req out s')
  then show ?case using tracked_server.resolve [OF assms, of s os ctx req] by (auto simp: Auth_def split: option.splits)
next
  case (4 ctx req s res s')
  then show ?case using tracked_server.tracked_proxy [OF assms, of ctx req s res s'] by (auto simp: Auth_def split: option.splits)
qed (use tracked_server.traffic [OF assms] tracked_server.closing [OF assms] in blast)+

text \<open>The rate limiter, over handlers that neither track nor answer themselves.\<close>

definition untracked :: "'s handler \<Rightarrow> bool" where
  "untracked f \<longleftrightarrow> (\<forall>ctx req s res err s'. f ctx req s = (Ret (Some res, err), s') \<longrightarrow>
     rConnTracker res = None \<and> rHTTPResponse res = None)"

lemma untrackedD: "untracked f \<Longrightarrow> f ctx req s = (Ret (Some res, err), s') \<Longrightarrow> rConnTracker res = None \<and> rHTTPResponse res = None"
  unfolding untracked_def by blast

lemma limiter_tracked_proxy:
  assumes "untracked inner"
    and "RateLimiter_Resolve clk keyFn limitsFn inner ctx req s = (Ret (Some res, None), s')" and "rConnTracker res \<noteq> None"
  shows "rProxy res \<noteq> None \<and> rHTTPResponse res = None"
  using assms(2,3)
  by (auto simp: RateLimiter_Resolve_def rl_track_def Let_def elim!: not_no_proxyE dest: untrackedD [OF assms(1)]
      split: if_splits prod.splits outcome.splits option.splits sum.splits)

lemma limiter_tracked_server:
  assumes "untracked inner"
  shows "tracked_server (rl_ops clk) (RateLimiter_Resolve clk keyFn limitsFn inner) (rl_reach clk keyFn limitsFn inner w0)"
proof (unfold_locales, goal_cases)
  case (1 s os ctx req out s')
  show ?case
  proof (cases "\<exists>res t. out = Ret (Some res, None) \<and> rConnTracker res = Some t")
    case True
    then obtain res t where out: "out = Ret (Some res, None)" "rConnTracker res = Some t" by blast
    from rl_reach.resolve_open [OF 1(1) 1(2) [unfolded out(1)] out(2)] show ?thesis by (simp add: out)
  next
    case False
    then have "opened out = []"
      by (cases out rule: opened.cases) (auto split: option.splits)
    with rl_reach.resolve_untracked [OF 1] False show ?thesis by auto
  qed
next
  case (2 s os t up d r s')
  then show ?case
    by (cases s) (auto simp: rl_ops_def split: prod.splits intro: rl_reach.traffic)
next
  case (3 s os t m n)
  then show ?case
    by (cases s) (auto simp: rl_ops_def intro: rl_reach.close)
next
  case (4 ctx req s res s')
  then show ?case by (rule limiter_tracked_proxy [OF assms])
qed


text \<open>One client served to completion by either server: any request, dialer, relay and round trip.\<close>

inductive serves :: "(error \<Rightarrow> string) \<Rightarrow> 's tracker_ops \<Rightarrow> 's handler \<Rightarrow> 's \<Rightarrow> 's \<Rightarrow> bool" for errText ops handler where
  http: "httpHandler errText ops dial events roundTrip handler ctx cid r (w, s) = (Returned, w', s') \<Longrightarrow> serves errText ops handler s s'"
| socks5: "handleConn ops dial events handler cid (c, s) = (Returned, c', s') \<Longrightarrow> serves errText ops handler s s'"

lemma serves_R:
  assumes "tracked_server ops handler R" and "(serves errText ops handler)\<^sup>*\<^sup>* s s'" and "R s os"
  shows "R s' os"
  using assms(2,3)
proof (induction rule: rtranclp_induct)
  case (step y z)
  from step(2) step.IH [OF step.prems] show ?case
    by cases (blast intro: tracked_server.httpHandler_R [OF assms(1)] tracked_server.handleConn_R [OF assms(1)])+
qed

text \<open>
  C5: The servers close what they open. From any state a limiter behind authentication can
  reach, with any connections open, serving any number of clients to completion, over HTTP or
  SOCKS5, whether they are refused, fail to dial, are relayed or forwarded, leaves exactly the same
  connections open, and the concurrent counter of every key with one concurrent rule still is
  the number of its open connections.
\<close>
theorem servers_close_trackers:
  assumes "limited_handler clk ok inner" and "ok w0" and "\<And>k. rule_bounded (limitsFn k)" and "untracked inner"
    and "rl_reach clk keyFn limitsFn inner w0 s os"
    and "(serves errText (rl_ops clk) (Auth authenticate (RateLimiter_Resolve clk keyFn limitsFn inner)))\<^sup>*\<^sup>* s (h, st, w)"
    and "rl_state h key = Some a" and "filter is_concurrent (limitsFn key) = [rl]"
  shows "rl_reach clk keyFn limitsFn inner w0 (h, st, w) os \<and> us_concurrent (st ! a) = open_at a os"
proof -
  have reach: "rl_reach clk keyFn limitsFn inner w0 (h, st, w) os"
    using authed_tracked_server [OF limiter_tracked_server [OF assms(4)]] assms(6,5) by (rule serves_R)
  then have "rl_inv limitsFn h st os"
    using limits_bounded_inv [OF assms(1-3)] by fastforce
  from rl_inv_keyD [OF this assms(7)] assms(8) reach show ?thesis
    by (auto simp: key_ok_def)
qed

lemma untracked_static: "untracked (below_store StaticFileSource_Resolve)"
  by (auto simp: untracked_def below_store_def StaticFileSource_Resolve_def Let_def case_prod_beta split: option.splits)

text \<open>A rate-limited static file source behind map authentication is such a handler.\<close>

interpretation static_server: tracked_server "rl_ops source_clock"
  "Auth (MapAuth_Authenticate users) (RateLimiter_Resolve source_clock Identity limitsFn (below_store StaticFileSource_Resolve))"
  "rl_reach source_clock Identity limitsFn (below_store StaticFileSource_Resolve) w0" for users limitsFn w0
  by (intro authed_tracked_server limiter_tracked_server untracked_static)

definition accept_all :: Authenticator where
  "accept_all = (\<lambda>i c. None)"

definition demo_connect :: HTTPRequest where
  "demo_connect = \<lparr>hqMethod = ''CONNECT'', hqScheme = '''', hqURLHost = '''', hqPath = '''', hqHost = ''example.com:443'',
     hqRequestURI = ''example.com:443'', hqHeader = [(''Proxy-Authorization'', [''Basic YTpi''])], hqContentLength = 0\<rparr>"

definition demo_upstream :: upconn where
  "demo_upstream = \<lparr>u_reads = [], u_written = '''', u_werr = None, u_closed = False\<rparr>"

text \<open>A source with one proxy, limited to two concurrent connections, at the standing clock.\<close>

definition demo_inner :: "(store \<times> nat) handler" where
  "demo_inner ctx req s = (Ret (Some (Resolved (mkProxy ''h1'' 80 '''' '''')), None), s)"

definition demo_limits :: "string \<Rightarrow> RateLimitRule list" where
  "demo_limits = StaticLimits [concurrent_rule 2]"

abbreviation demo_limiter :: "(nat rlState) handler" where
  "demo_limiter \<equiv> RateLimiter_Resolve demo_clock Identity demo_limits demo_inner"

lemma demo_limited: "limited_handler demo_clock (\<lambda>w. True) demo_inner"
  by unfold_locales (auto simp: demo_clock_def demo_inner_def)

lemma demo_untracked: "untracked demo_inner"
  by (auto simp: untracked_def demo_inner_def)

lemma demo_limits [simp]: "filter is_concurrent (demo_limits k) = [concurrent_rule 2]" "rule_bounded (demo_limits k)"
  by (simp_all add: demo_limits_def StaticLimits_def rule_bounded_def) (simp add: concurrent_rule_def)

definition demo_served :: "nat rlState \<Rightarrow> status \<times> ResponseWriter \<times> nat rlState" where
  "demo_served s = httpHandler (\<lambda>e. '''') (rl_ops demo_clock) (\<lambda>p t. Some (Dialed demo_upstream)) (\<lambda>c. demo_clean) (\<lambda>u r. Inl '''')
     (Auth accept_all demo_limiter) background 1 demo_connect (new_writer, s)"

theorem servers_close_trackers_witness:
  "\<exists>h st w. demo_served (newRateLimiter, [], 0) = (Returned, (client_Close (WriteHeader 200 new_writer)), (h, st, w)) \<and>
    rl_state h '''' = Some 0 \<and> us_concurrent (st ! 0) = 0"
proof -
  let ?s0 = "(newRateLimiter, [], 0)"
  have "case demo_served ?s0 of (x, w', (h, st, w)) \<Rightarrow> x = Returned \<and> w' = client_Close (WriteHeader 200 new_writer) \<and> rl_state h '''' = Some 0"
    by code_simp
  then obtain h st w where run: "demo_served ?s0 = (Returned, client_Close (WriteHeader 200 new_writer), (h, st, w))"
    and a: "rl_state h '''' = Some 0"
    by (auto split: prod.splits)
  have reach0: "rl_reach demo_clock Identity demo_limits demo_inner 0 ?s0 []"
    by (rule rl_reach.start)
  have served: "(serves (\<lambda>e. '''') (rl_ops demo_clock) (Auth accept_all demo_limiter))\<^sup>*\<^sup>* ?s0 (h, st, w)"
    using run by (auto simp: demo_served_def intro!: serves.http)
  have "us_concurrent (st ! 0) = open_at 0 []"
    by (rule conjunct2 [OF servers_close_trackers [OF demo_limited _ _ demo_untracked reach0 served a]]) simp_all
  with run a show ?thesis by (simp add: open_at_def)
qed

end
