(* ===== verification/Listeners.thy ===== *)
theory Listeners
  imports Downstream
begin

text \<open>
  The multi-protocol gateway of \<^verbatim>\<open>proxy-kit/gateway.go\<close> and the listeners it wires: construction from
  options, the injection of the upstream dialer (\<^verbatim>\<open>proxy-kit/transport.go\<close>), and the accept loop of the
  SOCKS5 server. What a listener does with a client is in \<open>Downstream\<close>.
\<close>

type_synonym upstream = "Proxy \<Rightarrow> string \<Rightarrow> dial_result option"

text \<open>The downstreams: the two of the library, which are \<^verbatim>\<open>UpstreamAware\<close>, and any other, by name.\<close>

datatype downstream =
    HTTPDownstream "upstream option"
  | SOCKS5Downstream "upstream option"
  | OtherDownstream string

fun SetUpstream :: "upstream \<Rightarrow> downstream \<Rightarrow> downstream" where
  "SetUpstream u (HTTPDownstream x) = HTTPDownstream (Some u)"
| "SetUpstream u (SOCKS5Downstream x) = SOCKS5Downstream (Some u)"
| "SetUpstream u (OtherDownstream n) = OtherDownstream n"

record 's gateway =
  gw_handler :: "'s handler"
  gw_upstream :: "upstream option"
  gw_listeners :: "(downstream \<times> string) list"

type_synonym 's gwOption = "'s gateway \<Rightarrow> 's gateway"

definition WithUpstream :: "upstream \<Rightarrow> 's gwOption" where
  "WithUpstream u g = g\<lparr>gw_upstream := Some u\<rparr>"

definition Listen :: "downstream \<Rightarrow> string \<Rightarrow> 's gwOption" where
  "Listen d addr g = g\<lparr>gw_listeners := gw_listeners g @ [(d, addr)]\<rparr>"

definition gateway_New :: "upstream \<Rightarrow> 's handler \<Rightarrow> 's gwOption list \<Rightarrow> 's gateway" where
  "gateway_New auto handler opts =
     (let g = fold (\<lambda>opt g. opt g) opts \<lparr>gw_handler = handler, gw_upstream = None, gw_listeners = []\<rparr>
      in case gw_upstream g of None \<Rightarrow> g\<lparr>gw_upstream := Some auto\<rparr> | Some _ \<Rightarrow> g)"

text \<open>
  \<^verbatim>\<open>ListenAndServe\<close>: an error without listeners; otherwise the listeners that are served, with the
  dialer injected. It returns the first error of their \<^verbatim>\<open>Serve\<close> calls.
\<close>

definition ListenAndServe :: "'s gateway \<Rightarrow> error + (downstream \<times> string) list" where
  "ListenAndServe g =
     (if gw_listeners g = [] then Inl (ErrOther ''no listeners configured'')
      else Inr (map (\<lambda>(d, addr). (case gw_upstream g of Some u \<Rightarrow> SetUpstream u d | None \<Rightarrow> d, addr)) (gw_listeners g)))"

definition ListenHTTP :: "upstream \<Rightarrow> downstream" where
  "ListenHTTP auto = HTTPDownstream (Some auto)"

text \<open>\<^verbatim>\<open>HTTPProxyHandler\<close>: the handler for another HTTP server, over the automatic upstream.\<close>

definition HTTPProxyHandler :: "(error \<Rightarrow> string) \<Rightarrow> 's tracker_ops \<Rightarrow> upstream \<Rightarrow> (upconn \<Rightarrow> relay_event list) \<Rightarrow>
    (proxyURL \<Rightarrow> HTTPRequest \<Rightarrow> string + HTTPResponse) \<Rightarrow> 's handler \<Rightarrow> Context \<Rightarrow> nat \<Rightarrow> HTTPRequest \<Rightarrow>
    ResponseWriter \<times> 's \<Rightarrow> status \<times> ResponseWriter \<times> 's" where
  "HTTPProxyHandler errText ops auto events roundTrip handler = httpHandler errText ops auto events roundTrip handler"

definition ListenSOCKS5 :: "upstream \<Rightarrow> downstream" where
  "ListenSOCKS5 auto = SOCKS5Downstream (Some auto)"

text \<open>The accept loop: the connections handed to goroutines until \<^verbatim>\<open>Accept\<close> fails; \<open>None\<close> while it waits.\<close>

fun accept_loop :: "(string + conn) list \<Rightarrow> conn list \<times> error option" where
  "accept_loop [] = ([], None)"
| "accept_loop (Inl e # rest) = ([], Some (ErrOther (''accept: '' @ e)))"
| "accept_loop (Inr c # rest) = (case accept_loop rest of (cs, e) \<Rightarrow> (c # cs, e))"

definition SOCKS5_Serve :: "string \<Rightarrow> string option \<Rightarrow> (string + conn) list \<Rightarrow> conn list \<times> error option" where
  "SOCKS5_Serve addr listenErr accepts =
     (case listenErr of Some e \<Rightarrow> ([], Some (ErrOther (''socks5 listen '' @ addr @ '': '' @ e))) | None \<Rightarrow> accept_loop accepts)"

section \<open>The options\<close>

text \<open>What an option contributes, in a first-order form.\<close>

datatype opt = OptUpstream upstream | OptListen downstream string

fun apply_opt :: "opt \<Rightarrow> 's gwOption" where
  "apply_opt (OptUpstream u) = WithUpstream u"
| "apply_opt (OptListen d addr) = Listen d addr"

definition upstreams :: "opt list \<Rightarrow> upstream list" where
  "upstreams opts = concat (map (\<lambda>x. case x of OptUpstream u \<Rightarrow> [u] | _ \<Rightarrow> []) opts)"

definition listens :: "opt list \<Rightarrow> (downstream \<times> string) list" where
  "listens opts = concat (map (\<lambda>x. case x of OptListen d a \<Rightarrow> [(d, a)] | _ \<Rightarrow> []) opts)"

lemma fold_opts:
  "fold (\<lambda>opt g. opt g) (map apply_opt opts) g =
     g\<lparr>gw_upstream := (if upstreams opts = [] then gw_upstream g else Some (last (upstreams opts))),
       gw_listeners := gw_listeners g @ listens opts\<rparr>"
proof (induction opts arbitrary: g)
  case (Cons x opts)
  then show ?case
    by (cases x) (auto simp: upstreams_def listens_def WithUpstream_def Listen_def)
qed (simp add: upstreams_def listens_def)

text \<open>Whatever the options and their order: the configured listeners in order, each over the last
  configured upstream, or the automatic one.\<close>

lemma New_ListenAndServe:
  "ListenAndServe (gateway_New auto handler (map apply_opt opts)) =
     (if listens opts = [] then Inl (ErrOther ''no listeners configured'')
      else Inr (map (\<lambda>(d, addr). (SetUpstream (last (auto # upstreams opts)) d, addr)) (listens opts)))"
  by (auto simp: ListenAndServe_def gateway_New_def fold_opts Let_def split: option.splits)

end
