(* ===== verification/Service.thy ===== *)
theory Service
  imports Api Listeners
begin

text \<open>
  The running gateway: the listeners of \<^verbatim>\<open>RunServer\<close> (\<^verbatim>\<open>proxy-gateway/server.go\<close>) over one pipeline. Each
  client, administrator's request and clean-up tick is an event on the shared state. The handlers
  of the HTTP servers run below a recoverer, a SOCKS5 connection runs in a goroutine of its own
  without one: a panic there ends the process. Events are taken one at a time; how the critical sections
  of concurrent calls interleave is in \<open>SessionManager\<close> and \<open>RateLimit\<close>. The life cycle of \<^verbatim>\<open>RunServer\<close> itself,
  from the signal to its return, is in \<open>Lifecycle\<close>.
\<close>

section \<open>Events\<close>

datatype process = Running_at serverState | Died panic

datatype event =
    HTTPClient upstream "upconn \<Rightarrow> relay_event list" "proxyURL \<Rightarrow> HTTPRequest \<Rightarrow> string + HTTPResponse" Context nat HTTPRequest ResponseWriter
  | SOCKS5Client upstream "upconn \<Rightarrow> relay_event list" nat conn
  | AdminRequest "u64 list" HTTPRequest ResponseWriter
  | CleanupTick

text \<open>What \<^verbatim>\<open>RunServer\<close> gets, with the parameters of the model (\<open>pf\<close>, \<open>num\<close>, \<open>fmt\<close>, \<open>errText\<close>, \<open>route\<close>) and
  the operations on trackers.\<close>

record service =
  sv_pf :: float_parser
  sv_num :: "u64 \<Rightarrow> string"
  sv_fmt :: "json \<Rightarrow> string"
  sv_errText :: "error \<Rightarrow> string"
  sv_route :: chi
  sv_ops :: "serverState tracker_ops"
  sv_cfg :: Config
  sv_password :: string
  sv_apiKey :: string

definition srv_Pipeline :: "service \<Rightarrow> serverState handler" where
  "srv_Pipeline sv = Pipeline (sv_pf sv) (sv_num sv) (sv_fmt sv) (sv_password sv)"

text \<open>The HTTP listener: a panic of the handler is recovered, by \<^verbatim>\<open>chi\<close> and by \<^verbatim>\<open>net/http\<close>.\<close>

definition serve_http :: "service \<Rightarrow> upstream \<Rightarrow> (upconn \<Rightarrow> relay_event list) \<Rightarrow> (proxyURL \<Rightarrow> HTTPRequest \<Rightarrow> string + HTTPResponse) \<Rightarrow>
    Context \<Rightarrow> nat \<Rightarrow> HTTPRequest \<Rightarrow> ResponseWriter \<Rightarrow> serverState \<Rightarrow> process" where
  "serve_http sv dial events roundTrip ctx cid r w s =
     (case HTTPProxyHandler (sv_errText sv) (sv_ops sv) dial events roundTrip (srv_Pipeline sv) ctx cid r (w, s) of (st, w', s') \<Rightarrow> Running_at s')"

text \<open>The SOCKS5 listener, when configured: \<^verbatim>\<open>go d.handleConn(conn, handler)\<close>, without a recover.\<close>

definition serve_socks5 :: "service \<Rightarrow> upstream \<Rightarrow> (upconn \<Rightarrow> relay_event list) \<Rightarrow> nat \<Rightarrow> conn \<Rightarrow> serverState \<Rightarrow> process" where
  "serve_socks5 sv dial events cid c s =
     (case fst (snd (RunServer_listeners (sv_cfg sv) (sv_apiKey sv))) of
        None \<Rightarrow> Running_at s
      | Some addr \<Rightarrow>
          (case handleConn (sv_ops sv) dial events (srv_Pipeline sv) cid (c, s) of
             (Crashed p, c', s') \<Rightarrow> Died p
           | (_, c', s') \<Rightarrow> Running_at s'))"

text \<open>The admin listener, when configured.\<close>

definition serve_admin :: "service \<Rightarrow> u64 list \<Rightarrow> HTTPRequest \<Rightarrow> ResponseWriter \<Rightarrow> serverState \<Rightarrow> process" where
  "serve_admin sv order r w s =
     (case fst (RunServer_listeners (sv_cfg sv) (sv_apiKey sv)) of
        None \<Rightarrow> Running_at s
      | Some addr \<Rightarrow>
          (case adminServer (sv_route sv) (sv_errText sv) (sv_pf sv) (sv_num sv) source_clock order (router_Resolve (sv_fmt sv)) (sv_apiKey sv) r (w, s)
           of (out, s') \<Rightarrow> Running_at s'))"

fun serve_event :: "service \<Rightarrow> event \<Rightarrow> serverState \<Rightarrow> process" where
  "serve_event sv (HTTPClient dial events roundTrip ctx cid r w) s = serve_http sv dial events roundTrip ctx cid r w s"
| "serve_event sv (SOCKS5Client dial events cid c) s = serve_socks5 sv dial events cid c s"
| "serve_event sv (AdminRequest order r w) s = serve_admin sv order r w s"
| "serve_event sv CleanupTick s = Running_at (cleanup_tick source_clock s)"

fun run_events :: "service \<Rightarrow> event list \<Rightarrow> process \<Rightarrow> process" where
  "run_events sv (e # es) (Running_at s) = run_events sv es (serve_event sv e s)"
| "run_events sv [] p = p"
| "run_events sv es (Died x) = Died x"

lemma run_events_append: "run_events sv (es @ fs) p = run_events sv fs (run_events sv es p)"
proof (induction es arbitrary: p)
  case Nil
  then show ?case by simp
next
  case (Cons e es)
  then show ?case by (cases p; cases fs) auto
qed

section \<open>Handlers below the listeners\<close>

text \<open>
  What the listeners keep of a pipeline: an invariant of its calls, whose results carry no
  tracker, is an invariant of the listeners; and over a pipeline that does not panic either, no
  connection ends in a panic.
\<close>

locale closed_handler =
  fixes handler :: "'s handler"
    and ok :: "'s \<Rightarrow> bool"
  assumes keeps: "ok s \<Longrightarrow> handler ctx req s = (out, s') \<Longrightarrow> ok s'"
    and untracked: "ok s \<Longrightarrow> handler ctx req s = (Ret (Some r, err), s') \<Longrightarrow> rConnTracker r = None"

locale safe_handler = closed_handler +
  assumes no_panic: "ok s \<Longrightarrow> handler ctx req s \<noteq> (Panicked x, s')"

lemma relay_untracked: "\<exists>x. relay ops None es s = Ret (x, s)"
proof -
  have "\<exists>rs'. relay_run ops None es (rs, s) = Ret (rs', s)" for rs
  proof (induction es arbitrary: rs)
    case (Cons e es)
    have "\<exists>rs1. relay_step ops None e (rs, s) = Ret (rs1, s)"
      by (cases e) (simp_all add: counting_Read_def)
    with Cons show ?case by fastforce
  qed simp
  then obtain rs' where "relay_run ops None es (relay_init, s) = Ret (rs', s)" by blast
  then show ?thesis by (simp add: relay_def)
qed

lemma run_tunnel_untracked: "\<exists>tn. run_tunnel ops dial events None p target s = (tn, s) \<and> (\<forall>x. tn \<noteq> RelayPanic x)"
proof (cases "dial p target")
  case (Some d)
  then show ?thesis
  proof (cases d)
    case (Dialed u)
    from relay_untracked [of ops "events u" s] obtain x where "relay ops None (events u) s = Ret (x, s)" by blast
    with Some Dialed show ?thesis by (cases x) (auto simp: run_tunnel_def close_tracker_def)
  qed (simp add: run_tunnel_def close_tracker_def)
qed (simp add: run_tunnel_def)

context closed_handler
begin

lemma callE:
  assumes "ok s"
  obtains (panic) x s' where "handler ctx req s = (Panicked x, s')" "ok s'"
    | (error) res err s' where "handler ctx req s = (Ret (res, Some err), s')" "ok s'"
    | (handled) s' where "handler ctx req s = (Ret (None, None), s')" "ok s'"
    | (result) r s' where "handler ctx req s = (Ret (Some r, None), s')" "ok s'" "rConnTracker r = None"
proof -
  obtain out s' where out: "handler ctx req s = (out, s')" by fastforce
  with keeps [OF assms out] untracked [OF assms] that show thesis
    by (cases out rule: resolution_cases) auto
qed

lemma handleConn_ok:
  assumes "ok s"
  shows "\<exists>st c' s'. handleConn ops dial events handler cid (c, s) = (st, c', s') \<and> ok s' \<and>
    (\<forall>x. st = Crashed x \<longrightarrow> (\<exists>req. handler background req s = (Panicked x, s')))"
proof (cases "socks5Negotiate c")
  case (Pair neg c1)
  show ?thesis
  proof (cases neg)
    case None
    with assms Pair show ?thesis by (simp add: handleConn_def)
  next
    case (Some upt)
    obtain user pass target where upt: "upt = (user, pass, target)" by (cases upt)
    note eqs = Pair Some upt
    show ?thesis
      using assms
    proof (cases rule: callE [of s background "\<lparr>RawUsername = user, RawPassword = pass, Target = target, Conn = Some cid, reqHTTP = None\<rparr>"])
      case (result r s')
      show ?thesis
      proof (cases "rProxy r")
        case (Some p)
        obtain tn where "run_tunnel ops dial events None p target s' = (tn, s')" "\<forall>x. tn \<noteq> RelayPanic x"
          using run_tunnel_untracked [of ops dial events p target s'] by blast
        with Some result eqs show ?thesis
          by (cases tn) (simp_all add: handleConn_def)
      qed (use result eqs in \<open>simp add: handleConn_def\<close>)
    qed (use eqs in \<open>auto simp: handleConn_def split: option.split\<close>)
  qed
qed

lemma serveConnect_ok:
  assumes "ok s"
  shows "ok (snd (snd (serveConnect ops dial events handler ctx cid r user pass (w, s))))"
proof (cases "w_hijack w = Some True")
  case True
  show ?thesis
    using assms
  proof (cases rule: callE [of s ctx "\<lparr>RawUsername = user, RawPassword = pass, Target = hqHost r, Conn = Some cid, reqHTTP = None\<rparr>"])
    case (result res s')
    show ?thesis
    proof (cases "rProxy res")
      case (Some p)
      obtain tn where "run_tunnel ops dial events None p (hqHost r) s' = (tn, s')"
        using run_tunnel_untracked [of ops dial events p "hqHost r" s'] by blast
      with Some result True show ?thesis by (simp add: serveConnect_def Let_def)
    qed (use result True in \<open>simp add: serveConnect_def Let_def\<close>)
  qed (use True in \<open>auto simp: serveConnect_def Let_def split: option.split\<close>)
qed (use assms in \<open>auto simp: serveConnect_def Let_def split: option.splits\<close>)

lemma servePlainHTTP_ok:
  assumes "ok s"
  shows "ok (snd (snd (servePlainHTTP errText ops roundTrip handler ctx r user pass (w, s))))"
  using assms
proof (cases rule: callE [of s ctx "\<lparr>RawUsername = user, RawPassword = pass, Target = hqHost r, Conn = None, reqHTTP = Some r\<rparr>"])
  case (result res s')
  then show ?thesis
    by (simp add: servePlainHTTP_def stream_response_def record_plain_def close_tracker_def Let_def split: option.split sum.split)
qed (auto simp: servePlainHTTP_def split: option.split)

lemma httpHandler_ok:
  assumes "ok s"
  shows "ok (snd (snd (httpHandler errText ops dial events roundTrip handler ctx cid r (w, s))))"
  using serveConnect_ok [OF assms] servePlainHTTP_ok [OF assms] assms
  by (simp add: httpHandler_def split: sum.split prod.split)

end

context safe_handler
begin

lemma returns:
  assumes "ok s"
  shows "\<exists>res err s'. handler ctx req s = (Ret (res, err), s') \<and> ok s' \<and> (\<forall>r. res = Some r \<longrightarrow> rConnTracker r = None)"
proof -
  obtain out s' where out: "handler ctx req s = (out, s')" by fastforce
  obtain res err where "out = Ret (res, err)"
    using no_panic [OF assms, of ctx req _ s'] out by (cases out) auto
  with keeps [OF assms out] untracked [OF assms] out show ?thesis by auto
qed

lemma handleConn_safe:
  assumes "ok s"
  shows "\<exists>st c' s'. handleConn ops dial events handler cid (c, s) = (st, c', s') \<and> (\<forall>x. st \<noteq> Crashed x) \<and> ok s'"
  using handleConn_ok [OF assms, of ops dial events cid c] no_panic [OF assms] by blast

end

lemma safe_handlerI:
  assumes "\<And>s ctx req. ok s \<Longrightarrow> \<exists>res err s'. handler ctx req s = (Ret (res, err), s') \<and> ok s' \<and> (\<forall>r. res = Some r \<longrightarrow> rConnTracker r = None)"
  shows "safe_handler handler ok"
proof unfold_locales
  fix s ctx req and out :: resolution and s'
  assume "ok s" "handler ctx req s = (out, s')"
  with assms [of s ctx req] show "ok s'" by auto
next
  fix s ctx req r and err :: "error option" and s'
  assume "ok s" "handler ctx req s = (Ret (Some r, err), s')"
  with assms [of s ctx req] show "rConnTracker r = None" by auto
next
  fix s ctx req x s'
  assume "ok s"
  with assms [of s ctx req] show "handler ctx req s \<noteq> (Panicked x, s')" by auto
qed

text \<open>Such handlers below a session manager, whose clock keeps good states good.\<close>

locale closed_backend = closed_handler +
  fixes clk :: "'a clock"
  assumes clk_ok: "ok s \<Longrightarrow> ok (snd (clk s))"
begin

lemma clk_okD: "clk s = (t, s') \<Longrightarrow> ok s \<Longrightarrow> ok s'"
  using clk_ok [of s] by simp

lemma live_entry_ok: "live_entry clk m k s = (e, s') \<Longrightarrow> ok s \<Longrightarrow> ok s'"
  by (auto simp: live_entry_def Let_def dest: clk_okD split: option.splits prod.splits if_splits)

lemma sm_store_ok: "sm_store clk k ne (m, s) = (x, m', s') \<Longrightarrow> ok s \<Longrightarrow> ok s'"
  by (auto simp: sm_store_def Let_def dest: live_entry_ok split: prod.splits option.splits)

lemma Resolve_ok: "SessionManager_Resolve clk handler ctx req (m, s) = (out, m', s') \<Longrightarrow> ok s \<Longrightarrow> ok s'"
  by (auto simp: SessionManager_Resolve_def Let_def dest!: live_entry_ok clk_okD sm_store_ok
      dest: keeps [rotated] split: if_splits prod.splits option.splits outcome.splits)

lemma rotation_ok: "ForceRotate clk handler tls (m, s) = (out, m', s') \<Longrightarrow> ok s \<Longrightarrow> ok s'"
  by (auto simp: ForceRotate_def fr_snapshot_def Let_def dest!: live_entry_ok clk_okD
      dest: keeps [rotated] split: if_splits prod.splits option.splits outcome.splits)

lemma admin_ok:
  assumes "adminServer route errText pf num clk order handler key r (w, m, s) = (rsp, m', s')" and "ok s"
  shows "ok s'"
  using assms(1)
proof (cases rule: adminServer_cases)
  case (listed es)
  with clk_ok [OF assms(2)] show ?thesis
    by (auto simp: ListEntries_def Let_def split: prod.splits)
next
  case (got k e)
  with assms(2) show ?thesis
    by (auto simp: GetSession_def Let_def dest: live_entry_ok split: prod.splits)
next
  case (rotated raw u x)
  with rotation_ok assms(2) show ?thesis by blast
qed (use assms(2) in simp)

end

locale safe_backend = safe_handler + closed_backend
begin

lemma managed_returns:
  assumes "ok s"
  shows "\<exists>res err m' s'. SessionManager_Resolve clk handler ctx req (m, s) = (Ret (res, err), (m', s')) \<and> ok s' \<and>
    (\<forall>r. res = Some r \<longrightarrow> rConnTracker r = None)"
proof (cases "GetSeedTTL ctx \<le> 0 \<or> GetTopLevelSeed ctx = 0")
  case True
  with returns [OF assms, of ctx req] show ?thesis
    by (auto simp: SessionManager_Resolve_def)
next
  case False
  let ?k = "GetTopLevelSeed ctx"
  obtain e s1 where e: "live_entry clk m ?k s = (e, s1)" by fastforce
  with assms have s1: "ok s1" by (blast dest: live_entry_ok)
  show ?thesis
  proof (cases e)
    case None
    let ?ctx = "WithSessionSeed ctx (Some (NewSessionSeed ?k 0))"
    obtain res err s2 where r: "handler ?ctx req s1 = (Ret (res, err), s2)" "ok s2" "\<forall>r. res = Some r \<longrightarrow> rConnTracker r = None"
      using returns [OF s1] by blast
    obtain now s3 where now: "clk s2 = (now, s3)" by fastforce
    obtain i m1 where al: "alloc_id m = (i, m1)" by fastforce
    obtain x m2 s4 where st: "sm_store clk ?k (new_entry ?k ?ctx (the (rProxy (the res))) i (GetSeedTTL ctx) now) (m1, s3) = (x, m2, s4)"
      by (metis prod_cases3)
    have "ok s4"
      using st now r(2) by (blast dest: clk_okD sm_store_ok)
    with False e None r now al st show ?thesis
      by (cases x) (auto simp: SessionManager_Resolve_def Resolved_def Let_def)
  qed (use False e s1 in \<open>simp add: SessionManager_Resolve_def Resolved_def\<close>)
qed

end

sublocale safe_backend \<subseteq> managed: safe_handler "SessionManager_Resolve clk handler" "\<lambda>(m, s). ok s"
  by (rule safe_handlerI) (use managed_returns in fastforce)

section \<open>The pipeline is safe\<close>

text \<open>A source whose product section is there, and whose country lists a machine can hold.\<close>

declare wf_product.simps [simp del]

fun source_safe :: "source \<Rightarrow> bool" where
  "source_safe (SrcStatic s) = True"
| "source_safe (SrcGeonode s) = geonode_ready s"
| "source_safe (SrcBottingtools s) = wf_product (bt_product s)"

definition sources_safe :: "routerState \<Rightarrow> bool" where
  "sources_safe sw \<longleftrightarrow> (\<forall>name h. fst sw name = Some h \<longrightarrow> source_safe h)"

lemma source_Resolve_safe:
  assumes "source_safe h"
  shows "\<exists>res err h' w'. source_Resolve fmt h ctx req w = (Ret (res, err), h', w') \<and> source_safe h' \<and>
    (\<forall>r. res = Some r \<longrightarrow> rConnTracker r = None)"
proof (cases h)
  case (SrcStatic s)
  then show ?thesis
    by (simp add: StaticFileSource_Resolve_def Let_def case_prod_beta split: option.split)
next
  case (SrcGeonode s)
  with geonode.resolve_ready [of s ctx req w] assms show ?thesis by auto
next
  case (SrcBottingtools s)
  with bottingtools.resolve_ready [of s fmt ctx req w] assms show ?thesis by auto
qed

lemma router_safe: "safe_handler (router_Resolve fmt) sources_safe"
proof (rule safe_handlerI)
  fix sw ctx req
  assume ok: "sources_safe sw"
  obtain sources w where sw: "sw = (sources, w)" by fastforce
  show "\<exists>res err s'. router_Resolve fmt ctx req sw = (Ret (res, err), s') \<and> sources_safe s' \<and> (\<forall>r. res = Some r \<longrightarrow> rConnTracker r = None)"
  proof (cases "sources (getSet ctx)")
    case (Some h)
    with ok sw have "source_safe h" by (simp add: sources_safe_def)
    from source_Resolve_safe [OF this, of fmt ctx req w] Some ok sw show ?thesis
      by (auto simp: router_Resolve_def sources_safe_def)
  qed (use ok sw in \<open>simp add: router_Resolve_def\<close>)
qed

interpretation router: safe_backend "router_Resolve fmt" sources_safe source_clock for fmt
  by (intro safe_backend.intro closed_backend.intro router_safe safe_handler.axioms(1) [OF router_safe], unfold_locales)
    (simp add: source_clock_def sources_safe_def Let_def case_prod_beta)

interpretation pipeline: safe_handler "Pipeline pf num fmt password" "\<lambda>(m, sw). sources_safe sw" for pf num fmt password
  by (rule safe_handlerI) (use router.managed.returns in \<open>auto simp: Pipeline_cases split: sum.split\<close>)

text \<open>What the configuration has to be for that.\<close>

definition set_safe :: "ProxySetConfig \<Rightarrow> bool" where
  "set_safe c \<longleftrightarrow>
     (psSourceType c = ''bottingtools'' \<longrightarrow> (\<forall>b. psBottingtools c = Some b \<longrightarrow> wf_product (btProduct b))) \<and>
     (psSourceType c = ''geonode'' \<longrightarrow> (\<forall>g. psGeonode c = Some g \<longrightarrow> length (gnCountries g) < 2 ^ 63))"

lemma map_sum_Inr: "map_sum f g x = Inr y \<longleftrightarrow> (\<exists>z. x = Inr z \<and> y = g z)"
  by (cases x) auto

lemma buildSource_safe:
  assumes "buildSource readFile getenv dir c = Inr h" and "set_safe c"
  shows "source_safe h"
  using assms
  by (auto simp: buildSource_def set_safe_def Let_def map_sum_Inr NewGeonodeSource_def NewBottingtoolsSource_def geonode_ready_def
      split: if_splits option.splits sum.splits)

lemma buildSources_safe:
  assumes "buildSources readFile getenv dir cs sources = Inr sources'" and "\<forall>c\<in>set cs. set_safe c" and "sources_safe (sources, w)"
  shows "sources_safe (sources', w)"
  using assms
proof (induction cs arbitrary: sources)
  case (Cons c cs)
  then obtain h where h: "buildSource readFile getenv dir c = Inr h"
    "buildSources readFile getenv dir cs (sources(psName c \<mapsto> h)) = Inr sources'"
    by (auto split: sum.splits)
  have "source_safe h"
    using buildSource_safe [OF h(1)] Cons.prems(2) by simp
  then have "sources_safe (sources(psName c \<mapsto> h), w)"
    using Cons.prems(3) by (simp add: sources_safe_def)
  moreover have "\<forall>c\<in>set cs. set_safe c"
    using Cons.prems(2) by simp
  ultimately show ?case by (intro Cons.IH [OF h(2)])
qed simp

lemma BuildServer_safe:
  assumes "BuildServer readFile getenv sets dir w = Inr (m, sw)" and "\<forall>c\<in>set sets. set_safe c"
  shows "sources_safe sw"
  using assms buildSources_safe [of readFile getenv dir sets Map.empty _ w]
  by (auto simp: BuildServer_def sources_safe_def split: sum.splits)

section \<open>The process stays up\<close>

lemma serve_event_safe:
  assumes "sources_safe sw"
  shows "\<exists>m' sw'. serve_event sv e (m, sw) = Running_at (m', sw') \<and> sources_safe sw'"
proof (cases e)
  case (HTTPClient dial events roundTrip ctx cid r w)
  let ?h = "httpHandler (sv_errText sv) (sv_ops sv) dial events roundTrip (srv_Pipeline sv) ctx cid r (w, m, sw)"
  have "sources_safe (snd (snd (snd ?h)))"
    using pipeline.httpHandler_ok [of "(m, sw)" "sv_errText sv" "sv_ops sv" dial events roundTrip "sv_pf sv" "sv_num sv" "sv_fmt sv" "sv_password sv" ctx cid r w] assms
    by (simp add: srv_Pipeline_def case_prod_beta)
  with HTTPClient show ?thesis
    by (simp add: serve_http_def HTTPProxyHandler_def case_prod_beta) (metis prod.collapse)
next
  case (SOCKS5Client dial events cid c)
  obtain st c' m' sw' where "handleConn (sv_ops sv) dial events (srv_Pipeline sv) cid (c, m, sw) = (st, c', m', sw')"
    "\<forall>x. st \<noteq> Crashed x" "sources_safe sw'"
    using pipeline.handleConn_safe [of "(m, sw)" "sv_ops sv" dial events "sv_pf sv" "sv_num sv" "sv_fmt sv" "sv_password sv" cid c] assms
    by (auto simp: srv_Pipeline_def)
  with SOCKS5Client assms show ?thesis
    by (cases st; cases sw; cases sw') (auto simp: serve_socks5_def split: option.split)
next
  case (AdminRequest order r w)
  with assms show ?thesis
    by (cases sw) (auto simp: serve_admin_def dest: router.admin_ok split: option.split prod.split)
next
  case CleanupTick
  with assms router.clk_ok [OF assms] show ?thesis
    by (auto simp: cleanup_tick_def case_prod_beta Let_def)
qed

lemma run_events_safe:
  assumes "sources_safe sw"
  shows "\<exists>m' sw'. run_events sv es (Running_at (m, sw)) = Running_at (m', sw') \<and> sources_safe sw'"
  using assms
proof (induction es arbitrary: m sw)
  case (Cons e es)
  obtain m1 sw1 where "serve_event sv e (m, sw) = Running_at (m1, sw1)" "sources_safe sw1"
    using serve_event_safe [OF Cons.prems] by blast
  with Cons.IH show ?case by simp
qed simp


definition demo_service :: "ProxySetConfig list \<Rightarrow> string \<Rightarrow> service" where
  "demo_service sets password =
     \<lparr>sv_pf = parse_bits, sv_num = bits_text, sv_fmt = (\<lambda>_. ''''), sv_errText = (\<lambda>_. ''''),
      sv_route = (\<lambda>pats r. Inl (0, '''')),
      sv_ops = \<lparr>ops_RecordTraffic = (\<lambda>t up d s. (Ret 0, s)), ops_Close = (\<lambda>t m n s. s)\<rparr>,
      sv_cfg = defaultConfig\<lparr>cfSocks5Addr := '':1080'', cfProxySets := sets\<rparr>, sv_password = password, sv_apiKey = ''''\<rparr>"


section \<open>A panic takes the gateway down\<close>

definition demo_client :: "string \<Rightarrow> conn" where
  "demo_client pass = demo_conn (greeting [2] @ auth_bytes 1 (demo_name 5 demo_xy) pass @ connect_bytes (Domain ''t'') 80)"

definition demo_proxied :: "string \<Rightarrow> HTTPRequest" where
  "demo_proxied pass = demo_connect\<lparr>hqHeader := [(''Proxy-Authorization'', [''Basic '' @ EncodeToString std_alphabet (demo_name 5 demo_xy @ '':'' @ pass)])]\<rparr>"

lemma demo_negotiated:
  "fst (socks5Negotiate (demo_client '''')) = Some (demo_name 5 demo_xy, '''', ''t:80'')"
  "fst (socks5Negotiate (demo_client ''no'')) = Some (demo_name 5 demo_xy, ''no'', ''t:80'')"
  by code_simp+

lemma demo_basic_auth:
  "extractBasicAuth (Header_Get (hqHeader (demo_proxied '''')) ''Proxy-Authorization'') = Inr (demo_name 5 demo_xy, '''')"
  "extractBasicAuth (Header_Get (hqHeader (demo_proxied ''no'')) ''Proxy-Authorization'') = Inr (demo_name 5 demo_xy, ''no'')"
  by code_simp+

lemma Pipeline_panics:
  assumes "ParseUsername pf (RawUsername req) = Inr u" and "RawUsername req \<noteq> ''''" and "authorized password req"
    and "sources (apSet (uAffinity u)) = Some (SrcBottingtools b)" and "sm_entries m (AffinityParams_Seed num (uAffinity u)) = None"
    and "\<And>ctx req w. BottingtoolsSource_Resolve fmt b ctx req w = (Panicked x, w)"
  shows "Pipeline pf num fmt password ctx req (m, sources, w) = (Panicked x, (m, sources, w))"
proof -
  have "router_Resolve fmt ctx' req (sources, w) = (Panicked x, (sources, w))" if "getSet ctx' = apSet (uAffinity u)" for ctx'
    using assms(4,6) that by (auto simp: router_Resolve_def fun_upd_idem)
  then show ?thesis
    using assms(1-3,5) by (simp add: Pipeline_cases SessionManager_Resolve_def live_entry_def Let_def)
qed

text \<open>
  An authorised client that names a set whose Bottingtools product has no typed section panics the
  pipeline. Over SOCKS5 nothing recovers the panic and the process ends; over HTTP the state stays as it was.
\<close>

lemma bottingtools_client_panics:
  assumes "NewBottingtoolsSource getenv bc = Inr b" and "bpType (btProduct bc) \<in> {''residential'', ''isp'', ''datacenter''}"
    and "bpResidential (btProduct bc) = None" "bpISP (btProduct bc) = None" "bpDatacenter (btProduct bc) = None"
    and "ParseUsername (sv_pf sv) user = Inr u" and "user \<noteq> ''''" and "sv_password sv = '''' \<or> pass = sv_password sv"
    and "sources (apSet (uAffinity u)) = Some (SrcBottingtools b)" and "sm_entries m (AffinityParams_Seed (sv_num sv) (uAffinity u)) = None"
  shows "srv_Pipeline sv ctx \<lparr>RawUsername = user, RawPassword = pass, Target = t, Conn = cn, reqHTTP = q\<rparr> (m, sources, w) =
      (Panicked NilDereference, (m, sources, w))"
  unfolding srv_Pipeline_def
  by (rule Pipeline_panics [where b = b and u = u])
    (use assms(6-10) Bottingtools_decoded_config_panics [OF assms(1-5)] in \<open>auto simp: authorized_def\<close>)

lemma socks5_panic_ends_process:
  assumes "cfSocks5Addr (sv_cfg sv) \<noteq> ''''" and "socks5Negotiate c = (Some (user, pass, target), c1)"
    and "\<And>ctx t cn q. srv_Pipeline sv ctx \<lparr>RawUsername = user, RawPassword = pass, Target = t, Conn = cn, reqHTTP = q\<rparr> s = (Panicked x, s)"
  shows "run_events sv (SOCKS5Client dial events cid c # es) (Running_at s) = Died x"
proof -
  have "serve_event sv (SOCKS5Client dial events cid c) s = Died x"
    using assms by (cases s) (simp add: serve_socks5_def RunServer_listeners_def handleConn_def)
  moreover have "run_events sv es (Died x) = Died x"
    by (cases es) simp_all
  ultimately show ?thesis by simp
qed

lemma http_panic_is_recovered:
  assumes "extractBasicAuth (Header_Get (hqHeader r) ''Proxy-Authorization'') = Inr (user, pass)"
    and "\<And>ctx t cn q. srv_Pipeline sv ctx \<lparr>RawUsername = user, RawPassword = pass, Target = t, Conn = cn, reqHTTP = q\<rparr> s = (Panicked x, s)"
  shows "run_events sv [HTTPClient dial events roundTrip ctx cid r rw] (Running_at s) = Running_at s"
  using assms by (cases s)
    (simp add: serve_http_def HTTPProxyHandler_def httpHandler_def serveConnect_def servePlainHTTP_def Let_def split: option.split)

section \<open>Clients without the password\<close>

text \<open>
  C13: Without the proxy password no listener does anything for a client: whatever the dialer, the
  peers and the upstream round trips are, none of them is used, sessions, pools and clock stay as
  they are, a SOCKS5 client gets the reply 2, a plain HTTP request the status 403, and a CONNECT
  client is disconnected (after the 200 that the server sends first).
\<close>
theorem wrong_password_refused:
  assumes "sv_password sv \<noteq> ''''" and "pass \<noteq> sv_password sv"
  shows "(socks5Negotiate c = (Some (user, pass, target), c1) \<longrightarrow>
      handleConn ops dial events (srv_Pipeline sv) cid (c, s) = (Returned, conn_Close (sendSOCKS5Reply 2 c1), s)) \<and>
    (extractBasicAuth (Header_Get (hqHeader r) ''Proxy-Authorization'') = Inr (user, pass) \<longrightarrow>
      httpHandler errText ops dial events roundTrip (srv_Pipeline sv) ctx cid r (w, s) =
        (Returned,
         if hqMethod r \<noteq> ''CONNECT'' then http_Error w (errText ErrInvalidCredentials) 403
         else case w_hijack w of
           None \<Rightarrow> http_Error w ''hijacking not supported'' 500
         | Some hijacks \<Rightarrow> if hijacks then client_Close (WriteHeader 200 w) else WriteHeader 200 w,
         s))"
proof -
  have "srv_Pipeline sv ctx \<lparr>RawUsername = user, RawPassword = pass, Target = t, Conn = cn, reqHTTP = q\<rparr> s =
      (Ret (None, Some ErrInvalidCredentials), s)" for ctx t cn q
    using assms by (simp add: srv_Pipeline_def Pipeline_cases authorized_def)
  then show ?thesis
    by (simp add: handleConn_def httpHandler_def serveConnect_def servePlainHTTP_def Let_def split: option.split)
qed

theorem wrong_password_refused_witness:
  "handleConn (sv_ops (demo_service [] ''s'')) (\<lambda>p t. None) (\<lambda>u. []) (srv_Pipeline (demo_service [] ''s'')) 1
      (demo_client ''no'', NewSessionManager, Map.empty, world0) =
     (Returned, conn_Close (sendSOCKS5Reply 2 (snd (socks5Negotiate (demo_client ''no'')))), NewSessionManager, Map.empty, world0) \<and>
   httpHandler (sv_errText (demo_service [] ''s'')) (sv_ops (demo_service [] ''s'')) (\<lambda>p t. None) (\<lambda>u. []) (\<lambda>u r. Inl '''')
      (srv_Pipeline (demo_service [] ''s'')) background 1 (demo_proxied ''no'') (new_writer, NewSessionManager, Map.empty, world0) =
     (Returned, client_Close (WriteHeader 200 new_writer), NewSessionManager, Map.empty, world0)"
proof -
  obtain c1 where c1: "socks5Negotiate (demo_client ''no'') = (Some (demo_name 5 demo_xy, ''no'', ''t:80''), c1)"
    using demo_negotiated(2) by (metis prod.collapse)
  have "sv_password (demo_service [] ''s'') \<noteq> ''''" "''no'' \<noteq> sv_password (demo_service [] ''s'')"
    by (simp_all add: demo_service_def)
  note refused = wrong_password_refused [OF this, of "demo_client ''no''" "demo_name 5 demo_xy" "''t:80''" c1 _ "\<lambda>p t. None" "\<lambda>u. []" 1
      "(NewSessionManager, Map.empty, world0)" "demo_proxied ''no''" _ "\<lambda>u r. Inl ''''" background new_writer]
  have "hqMethod (demo_proxied ''no'') = ''CONNECT''" "w_hijack new_writer = Some True"
    by (simp_all add: demo_proxied_def demo_connect_def new_writer_def)
  with refused c1 demo_basic_auth(2) show ?thesis by simp
qed

section \<open>The states of the process\<close>

lemma SessionManager_untracked:
  assumes "\<And>ctx req w r err w'. inner ctx req w = (Ret (Some r, err), w') \<Longrightarrow> rConnTracker r = None"
    and "SessionManager_Resolve clk inner ctx req mw = (Ret (Some r, err), mw')"
  shows "rConnTracker r = None"
  using assms(2)
  by (auto simp: SessionManager_Resolve_def Resolved_def Let_def dest: assms(1) split: if_splits prod.splits option.splits outcome.splits)

lemma source_untracked:
  assumes "source_Resolve fmt h ctx req w = (Ret (Some r, err), h', w')"
  shows "rConnTracker r = None"
  using assms
  by (cases h) (auto simp: StaticFileSource_Resolve_def BottingtoolsSource_Resolve_def GeonodeSource_Resolve_def Resolved_def Let_def
      bind_outcome_Ret_iff split: prod.splits option.splits)

lemma Pipeline_untracked:
  assumes "Pipeline pf num fmt password ctx req s = (Ret (Some r, err), s')"
  shows "rConnTracker r = None"
proof -
  have router: "rConnTracker r = None" if "router_Resolve fmt ctx req sw = (Ret (Some r, err), sw')" for ctx req sw r err sw'
    using that by (auto simp: router_Resolve_def Let_def dest: source_untracked split: prod.splits option.splits)
  obtain u where "SessionManager_Resolve source_clock (router_Resolve fmt) (creds_ctx num u ctx) req s = (Ret (Some r, err), s')"
    using assms by (auto simp: Pipeline_cases split: if_splits sum.splits)
  then show ?thesis
    by (rule SessionManager_untracked [where inner = "router_Resolve fmt", rotated]) (rule router)
qed

text \<open>
  An invariant of the pipeline, of the clean-up and of the admin requests among the allowed events is
  one of the running process.
\<close>

locale service_inv =
  fixes sv :: service
    and I :: "serverState \<Rightarrow> bool"
    and allowed :: "event \<Rightarrow> bool"
  assumes pipeline: "I s \<Longrightarrow> srv_Pipeline sv ctx req s = (out, s') \<Longrightarrow> I s'"
    and admin: "allowed (AdminRequest order r w) \<Longrightarrow> I (m, sw) \<Longrightarrow>
      adminServer (sv_route sv) (sv_errText sv) (sv_pf sv) (sv_num sv) source_clock order (router_Resolve (sv_fmt sv)) (sv_apiKey sv) r (w, m, sw) =
        (rsp, m', sw') \<Longrightarrow> I (m', sw')"
    and tick: "I s \<Longrightarrow> I (cleanup_tick source_clock s)"

sublocale service_inv \<subseteq> served: closed_handler "srv_Pipeline sv" I
  by unfold_locales (auto simp: srv_Pipeline_def intro: pipeline [unfolded srv_Pipeline_def] dest: Pipeline_untracked)

context service_inv
begin

lemma serve_event_keeps:
  assumes "serve_event sv e s = Running_at s'" and "I s" and "allowed e"
  shows "I s'"
proof (cases e)
  case (HTTPClient dial events roundTrip ctx cid r w)
  with served.httpHandler_ok [OF assms(2), of "sv_errText sv" "sv_ops sv" dial events roundTrip ctx cid r w] assms(1) show ?thesis
    by (simp add: serve_http_def HTTPProxyHandler_def split: prod.splits)
next
  case (SOCKS5Client dial events cid c)
  with served.handleConn_ok [OF assms(2), of "sv_ops sv" dial events cid c] assms(1,2) show ?thesis
    by (auto simp: serve_socks5_def split: prod.splits option.splits status.splits)
next
  case (AdminRequest order r w)
  obtain m sw m' sw' where s: "s = (m, sw)" "s' = (m', sw')" by (metis surj_pair)
  with admin [of order r w m sw] assms AdminRequest show ?thesis
    by (cases "fst (RunServer_listeners (sv_cfg sv) (sv_apiKey sv))") (auto simp: serve_admin_def split: prod.splits)
next
  case CleanupTick
  with assms tick [OF assms(2)] show ?thesis by simp
qed

lemma run_events_keeps:
  assumes "run_events sv es (Running_at s) = Running_at s'" and "I s" and "list_all allowed es"
  shows "I s'"
  using assms
proof (induction es arbitrary: s)
  case (Cons e es)
  obtain s1 where s1: "serve_event sv e s = Running_at s1" "run_events sv es (Running_at s1) = Running_at s'"
    using Cons.prems(1) by (cases "serve_event sv e s"; cases es) simp_all
  have "I s1"
    using Cons.prems(2,3) by (intro serve_event_keeps [OF s1(1)]) simp_all
  with Cons.IH [OF s1(2)] Cons.prems(3) show ?case by simp
qed simp

end

text \<open>Every state the process goes through is one the invariants of \<open>gateway_reach\<close> hold in.\<close>

interpretation reached: service_inv sv "gateway_reach (sv_pf sv) (sv_num sv) (sv_fmt sv) (sv_password sv)" "\<lambda>_. True" for sv
  by unfold_locales (auto simp: srv_Pipeline_def intro: gateway_reach.request gateway_reach.admin gateway_reach.tick)

end
