(* ===== verification/ServiceRuns.thy ===== *)
theory ServiceRuns
  imports Service
begin

text \<open>
  What holds along whole runs of the gateway, from the configuration file to the connections of its
  clients: a session keeps its clients on one proxy through any other events, and a Bottingtools set
  of a JSON configuration ends the process at its first SOCKS5 client.
\<close>

section \<open>Sources and the clock\<close>

lemma pickCountry_w_clock: "w_clock (snd (pickCountry cs seed w)) = w_clock w"
  using CheapRandom_w_clock [of w] by (auto simp: pickCountry_def case_prod_beta split: option.split)

lemma deriveSessionID_w_clock: "w_clock (snd (deriveSessionID seed w)) = w_clock w"
  using CheapRandom_w_clock [of w] by (auto simp: deriveSessionID_def case_prod_beta split: option.split)

lemma gnBuildUsername_w_clock: "w_clock (snd (gnBuildUsername cfg seed w)) = w_clock w"
  by (simp add: gnBuildUsername_def case_prod_beta pickCountry_w_clock deriveSessionID_w_clock Let_def)

lemma btBuildUsername_w_clock: "w_clock (snd (btBuildUsername fmt user p m seed w)) = w_clock w"
  by (simp add: btBuildUsername_def btBuildResidential_def btBuildISP_def btBuildDatacenter_def case_prod_beta
      pickCountry_w_clock deriveSessionID_w_clock Let_def split: option.split)

lemma source_w_clock: "w_clock (snd (snd (source_Resolve fmt h ctx req w))) = w_clock w"
  using StaticFile_w_clock [of ctx req _ w]
  by (cases h) (simp_all add: case_prod_beta GeonodeSource_Resolve_def BottingtoolsSource_Resolve_def gnBuildUsername_w_clock btBuildUsername_w_clock Let_def)

lemma router_w_clock: "w_clock (snd (snd (router_Resolve fmt ctx req sw))) = w_clock (snd sw)"
  by (simp add: router_Resolve_def case_prod_beta source_w_clock Let_def split: option.split)

interpretation router_before: before_deadline source_clock "router_Resolve fmt" "\<lambda>sw. \<forall>i. w_clock (snd sw) i < deadline" deadline
  for fmt deadline
  by unfold_locales (auto simp: source_clock_def time_Now_def router_w_clock split: prod.splits)

section \<open>Sessions along a run\<close>

definition rotates :: "service \<Rightarrow> u64 \<Rightarrow> event \<Rightarrow> bool" where
  "rotates sv k e =
     (case e of
        AdminRequest order r w \<Rightarrow>
          (case sv_route sv admin_patterns r of
             Inl (i, raw) \<Rightarrow> i = 2 \<and>
               (case decodeBase64Username (sv_pf sv) raw of
                  Inr u \<Rightarrow> AffinityParams_Seed (sv_num sv) (uAffinity u) = k
                | Inl _ \<Rightarrow> False)
           | Inr _ \<Rightarrow> False)
      | _ \<Rightarrow> False)"

definition session_kept :: "u64 \<Rightarrow> sessionEntry \<Rightarrow> serverState \<Rightarrow> bool" where
  "session_kept k e s \<longleftrightarrow> sm_entries (fst s) k = Some e \<and> (\<forall>i. w_clock (snd (snd s)) i < se_expiresAt e)"

lemma Pipeline_kept:
  assumes "Pipeline pf num fmt password ctx req s = (out, s')" and "session_kept k e s"
  shows "session_kept k e s'"
proof -
  obtain m sw m' sw' where s: "s = (m, sw)" "s' = (m', sw')" by (metis surj_pair)
  have "session_kept k e (m', sw')"
    if "SessionManager_Resolve source_clock (router_Resolve fmt) c req (m, sw) = (out, m', sw')" for c
    using router_before.Resolve_keeps [where deadline = "se_expiresAt e" and w = sw and m = m and tls = k and e = e and fmt = fmt and ctx = c and req = req and r = out and m' = m' and w' = sw'] that assms(2)
    by (simp add: session_kept_def s)
  with assms show ?thesis
    by (auto simp: Pipeline_cases s split: if_splits sum.splits)
qed

lemma admin_kept:
  assumes "adminServer (sv_route sv) errText (sv_pf sv) (sv_num sv) source_clock order (router_Resolve fmt) key r (w, m, sw) = (rsp, m', sw')"
    and "\<not> rotates sv k (AdminRequest order r w)" and "session_kept k e (m, sw)"
  shows "session_kept k e (m', sw')"
  using assms(1)
proof (cases rule: adminServer_cases)
  case (listed es)
  with assms(3) router_before.clk_before [where deadline = "se_expiresAt e" and w = sw] show ?thesis
    by (auto simp: session_kept_def ListEntries_def Let_def split: prod.splits)
next
  case (got l x)
  with assms(3) router_before.live_entry_ok [where deadline = "se_expiresAt e" and w = sw and m = m and tls = l] show ?thesis
    by (auto simp: session_kept_def GetSession_def Let_def split: prod.splits)
next
  case (rotated raw u x)
  with assms(2) have "AffinityParams_Seed (sv_num sv) (uAffinity u) \<noteq> k"
    by (simp add: rotates_def)
  with router_before.ForceRotate_keeps [where deadline = "se_expiresAt e", OF _ this rotated(3)] assms(3) show ?thesis
    by (simp add: session_kept_def)
qed (use assms(3) in simp)

lemma tick_kept: "session_kept k e s \<Longrightarrow> session_kept k e (cleanup_tick source_clock s)"
  using router_before.clk_before [where deadline = "se_expiresAt e" and w = "snd s"]
  by (cases s) (auto simp: session_kept_def cleanup_tick_def cleanup_def Let_def split: prod.splits)

interpretation sticky: service_inv sv "session_kept k e" "\<lambda>ev. \<not> rotates sv k ev" for sv k e
  by unfold_locales (auto simp: srv_Pipeline_def intro: Pipeline_kept admin_kept tick_kept)

text \<open>A client of a kept session is answered with its proxy.\<close>

lemma Pipeline_sticky:
  assumes "session_kept k e (m, sw)" and "ParseUsername pf (RawUsername req) = Inr u" and "AffinityParams_Seed num (uAffinity u) = k" "k \<noteq> 0"
    and "0 < seed_ttl u" and "RawUsername req \<noteq> ''''" and "authorized password req"
  shows "Pipeline pf num fmt password ctx req (m, sw) = (Ret (Some (Resolved (se_proxy e)), None), (m, snd (source_clock sw)))"
proof -
  have "fst (source_clock sw) < se_expiresAt e"
    using assms(1) router_before.clk_before [where deadline = "se_expiresAt e" and w = sw] by (simp add: session_kept_def)
  with assms Resolve_cached [of m "creds_ctx num u ctx" e source_clock sw] show ?thesis
    by (simp add: Pipeline_cases session_kept_def)
qed

text \<open>
  C2: A session holds its clients on one proxy, from end to end. Take a session of the running gateway
  and any events before its deadline that do not rotate it by force: clients of every kind on
  every listener, admin requests, clean-ups. A client that then comes with the same affinity and
  the password, over SOCKS5 or HTTP, is answered by the pipeline with the session's proxy, and no other
  proxy is ever dialled or asked for it: its connection goes the same way with any two dialers
  and transports that agree on that proxy.
\<close>
theorem service_sticky:
  assumes "run_events sv es (Running_at (m, sw)) = Running_at (m', sw')" and "sm_entries m k = Some e"
    and "\<forall>i. w_clock (snd sw) i < se_expiresAt e" and "list_all (\<lambda>ev. \<not> rotates sv k ev) es"
    and "ParseUsername (sv_pf sv) user = Inr u" and "AffinityParams_Seed (sv_num sv) (uAffinity u) = k" "k \<noteq> 0" and "0 < seed_ttl u"
    and "user \<noteq> ''''" and "sv_password sv = '''' \<or> pass = sv_password sv"
    and "\<forall>t. dial (se_proxy e) t = dial' (se_proxy e) t" and "\<forall>q. trip (forward_URL (se_proxy e)) q = trip' (forward_URL (se_proxy e)) q"
  shows "srv_Pipeline sv ctx \<lparr>RawUsername = user, RawPassword = pass, Target = tgt, Conn = cn, reqHTTP = hq\<rparr> (m', sw') =
      (Ret (Some (Resolved (se_proxy e)), None), (m', snd (source_clock sw'))) \<and>
    (socks5Negotiate c = (Some (user, pass, target), c1) \<longrightarrow>
      handleConn ops dial events (srv_Pipeline sv) cid (c, m', sw') = handleConn ops dial' events (srv_Pipeline sv) cid (c, m', sw')) \<and>
    (extractBasicAuth (Header_Get (hqHeader r) ''Proxy-Authorization'') = Inr (user, pass) \<longrightarrow>
      httpHandler errText ops dial events trip (srv_Pipeline sv) ctx cid r (w, m', sw') =
      httpHandler errText ops dial' events trip' (srv_Pipeline sv) ctx cid r (w, m', sw'))"
proof -
  have "session_kept k e (m', sw')"
    using sticky.run_events_keeps [OF assms(1) _ assms(4)] assms(2,3) by (simp add: session_kept_def)
  then have answer: "srv_Pipeline sv ctx \<lparr>RawUsername = user, RawPassword = pass, Target = tgt, Conn = cn, reqHTTP = hq\<rparr> (m', sw') =
      (Ret (Some (Resolved (se_proxy e)), None), (m', snd (source_clock sw')))" for ctx tgt cn hq
    unfolding srv_Pipeline_def by (rule Pipeline_sticky) (use assms(5-10) in \<open>auto simp: authorized_def\<close>)
  have "run_tunnel ops dial events t (se_proxy e) target s = run_tunnel ops dial' events t (se_proxy e) target s" for t target s
    using assms(11) by (simp add: run_tunnel_def)
  moreover have "ForwardPlainHTTP trip r (se_proxy e) = ForwardPlainHTTP trip' r (se_proxy e)"
    using assms(12) by (simp add: ForwardPlainHTTP_def)
  ultimately show ?thesis
    using answer by (simp add: handleConn_def httpHandler_def serveConnect_def servePlainHTTP_def Let_def split: option.split)
qed

definition demo_session :: sessionEntry where
  "demo_session = new_entry (AffinityParams_Seed bits_text (uAffinity (demo_parsed 5 demo_xy))) background (mkProxy ''up'' 3128 '''' '''') 0 1000000 1000000"

text \<open>A world whose clock stands at the epoch.\<close>

definition stopped_world :: world where
  "stopped_world = world0\<lparr>w_clock := (\<lambda>i. 0)\<rparr>"

definition demo_sessions :: SessionManager where
  "demo_sessions = \<lparr>sm_entries = [AffinityParams_Seed bits_text (uAffinity (demo_parsed 5 demo_xy)) \<mapsto> demo_session], sm_nextID = 1\<rparr>"

theorem service_sticky_witness:
  "\<exists>m' sw'. run_events (demo_service [] '''') [CleanupTick] (Running_at (demo_sessions, Map.empty, stopped_world)) = Running_at (m', sw') \<and>
     srv_Pipeline (demo_service [] '''') background
       \<lparr>RawUsername = demo_name 5 demo_xy, RawPassword = '''', Target = ''t:80'', Conn = None, reqHTTP = None\<rparr> (m', sw') =
     (Ret (Some (Resolved (mkProxy ''up'' 3128 '''' '''')), None), (m', snd (source_clock sw')))"
proof -
  let ?sv = "demo_service [] ''''" and ?u = "demo_parsed 5 demo_xy"
  let ?k = "AffinityParams_Seed bits_text (uAffinity ?u)"
  obtain m' sw' where run: "run_events ?sv [CleanupTick] (Running_at (demo_sessions, Map.empty, stopped_world)) = Running_at (m', sw')"
    by (cases "cleanup_tick source_clock (demo_sessions, Map.empty :: string \<rightharpoonup> source, stopped_world)") simp
  have e: "sm_entries demo_sessions ?k = Some demo_session" "\<forall>i. w_clock (snd (Map.empty :: string \<rightharpoonup> source, stopped_world)) i < se_expiresAt demo_session"
    "se_proxy demo_session = mkProxy ''up'' 3128 '''' ''''"
    by (simp_all add: demo_sessions_def demo_session_def new_entry_def stopped_world_def)
  have u: "ParseUsername (sv_pf ?sv) (demo_name 5 demo_xy) = Inr ?u" "AffinityParams_Seed (sv_num ?sv) (uAffinity ?u) = ?k"
    using demo_parses(1) by (simp_all add: demo_service_def)
  have k: "?k \<noteq> 0" by code_simp
  have ttl: "0 < seed_ttl ?u"
    by (simp add: seed_ttl_def ns_defs wrap64_id in_int64_def)
  have "list_all (\<lambda>ev. \<not> rotates ?sv ?k ev) [CleanupTick]"
    by (simp add: rotates_def)
  from service_sticky [OF run e(1,2) this u k ttl, where pass = "''''" and ctx = background and tgt = "''t:80''" and cn = None and hq = None
      and dial = "\<lambda>p t. None" and dial' = "\<lambda>p t. None" and trip = "\<lambda>u q. Inl ''''" and trip' = "\<lambda>u q. Inl ''''"] run e(3)
  show ?thesis by (simp add: demo_service_def)
qed

section \<open>A configured Bottingtools set ends the process\<close>

text \<open>What the router and the clock keep of the sources, the process keeps.\<close>

lemma backend_service_inv:
  assumes "closed_backend (router_Resolve (sv_fmt sv)) ok source_clock"
  shows "service_inv sv (\<lambda>(m, sw). ok sw) (\<lambda>_. True)"
proof (unfold_locales, goal_cases)
  case (1 s ctx req out s')
  then show ?case
    by (cases s; cases s') (auto simp: srv_Pipeline_def Pipeline_cases dest: closed_backend.Resolve_ok [OF assms] split: if_splits sum.splits)
next
  case (2 order r w m sw rsp m' sw')
  then show ?case by (auto dest: closed_backend.admin_ok [OF assms])
next
  case (3 s)
  then show ?case
    using closed_backend.clk_ok [OF assms] by (cases s) (auto simp: cleanup_tick_def case_prod_beta Let_def)
qed

interpretation fixed_source: closed_backend "router_Resolve fmt" "\<lambda>sw. fst sw name = Some (SrcBottingtools b)" source_clock for fmt name b
proof (unfold_locales, goal_cases)
  case (1 sw ctx req out sw')
  then show ?case by (auto simp: router_Resolve_def Let_def split: prod.splits option.splits)
next
  case (2 sw ctx req r err sw')
  then show ?case by (auto simp: router_Resolve_def Let_def dest: source_untracked split: prod.splits option.splits)
next
  case (3 sw)
  then show ?case by (simp add: source_clock_def case_prod_beta Let_def)
qed

lemma buildSources_other:
  "buildSources readFile getenv dir cs sources = Inr sources' \<Longrightarrow> name \<notin> psName ` set cs \<Longrightarrow> sources' name = sources name"
  by (induction cs arbitrary: sources) (auto split: sum.splits)

lemma buildSources_lookup:
  assumes "buildSources readFile getenv dir cs sources = Inr sources'" and "c \<in> set cs" and "distinct (map psName cs)"
  shows "\<exists>h. buildSource readFile getenv dir c = Inr h \<and> sources' (psName c) = Some h"
  using assms
proof (induction cs arbitrary: sources)
  case (Cons x cs)
  then obtain h where h: "buildSource readFile getenv dir x = Inr h" "buildSources readFile getenv dir cs (sources(psName x \<mapsto> h)) = Inr sources'"
    by (auto split: sum.splits)
  show ?case
  proof (cases "c = x")
    case True
    with h buildSources_other [OF h(2), of "psName x"] Cons.prems(3) show ?thesis by simp
  next
    case False
    with Cons.IH [OF h(2)] Cons.prems show ?thesis by simp
  qed
qed simp

text \<open>
  C14: A JSON configuration with a Bottingtools product gives a gateway that one client can end. Whatever
  the bytes of the file: if it configures a SOCKS5 address and a Bottingtools set with a product type, and
  the gateway has been built from it and has served any events, then the next authorised SOCKS5 client
  that names the set (and has no live session) ends the process with every other client's connection,
  whatever was to come. The same credentials over HTTP leave the process up and its state as it was.
\<close>
theorem json_bottingtools_gateway_dies:
  assumes "LoadConfig readConfig ds path = Inr (sv_cfg sv)" and "ToLower (path_Ext path) = ''.json''" and "cfSocks5Addr (sv_cfg sv) \<noteq> ''''"
    and "c \<in> set (cfProxySets (sv_cfg sv))" and "distinct (map psName (cfProxySets (sv_cfg sv)))"
    and "psSourceType c = ''bottingtools''" and "psBottingtools c = Some bc" and "bpType (btProduct bc) \<in> {''residential'', ''isp'', ''datacenter''}"
    and "BuildServer readFile getenv (cfProxySets (sv_cfg sv)) dir w0 = Inr s0"
    and "run_events sv es (Running_at s0) = Running_at (m, sources, w)"
    and "ParseUsername (sv_pf sv) user = Inr u" and "apSet (uAffinity u) = psName c" and "user \<noteq> ''''"
    and "sv_password sv = '''' \<or> pass = sv_password sv" and "sm_entries m (AffinityParams_Seed (sv_num sv) (uAffinity u)) = None"
  shows "(fst (socks5Negotiate conn) = Some (user, pass, target) \<longrightarrow>
      run_events sv (es @ SOCKS5Client dial events cid conn # es') (Running_at s0) = Died NilDereference) \<and>
    (extractBasicAuth (Header_Get (hqHeader r) ''Proxy-Authorization'') = Inr (user, pass) \<longrightarrow>
      run_events sv (es @ [HTTPClient dial events roundTrip ctx cid r rw]) (Running_at s0) = Running_at (m, sources, w))"
proof -
  have nil: "product_nil (btProduct bc)"
    using json_config_no_sections [OF assms(1,2)] assms(4,7) by (auto simp: list_all_iff set_nil_def)
  obtain sources0 where s0: "s0 = (NewSessionManager, sources0, w0)" "buildSources readFile getenv dir (cfProxySets (sv_cfg sv)) Map.empty = Inr sources0"
    using assms(9) by (auto simp: BuildServer_def split: sum.splits)
  from buildSources_lookup [OF s0(2) assms(4,5)] obtain h where h: "buildSource readFile getenv dir c = Inr h" "sources0 (psName c) = Some h"
    by blast
  then obtain b where b: "NewBottingtoolsSource getenv bc = Inr b" "h = SrcBottingtools b"
    using assms(6,7) by (auto simp: buildSource_def map_sum_Inr Let_def split: sum.splits)
  have "(\<lambda>(m, sw). fst sw (psName c) = Some (SrcBottingtools b)) (m, sources, w)"
    by (rule service_inv.run_events_keeps [OF backend_service_inv [OF fixed_source.closed_backend_axioms] assms(10)])
      (use h b s0 in \<open>simp_all add: list_all_iff\<close>)
  then have src: "sources (apSet (uAffinity u)) = Some (SrcBottingtools b)"
    by (simp add: assms(12))
  have panics: "srv_Pipeline sv ctx \<lparr>RawUsername = user, RawPassword = pass, Target = t, Conn = cn, reqHTTP = q\<rparr> (m, sources, w) =
      (Panicked NilDereference, (m, sources, w))" for ctx t cn q
    by (rule bottingtools_client_panics [where u = u and b = b and bc = bc and getenv = getenv])
      (use nil b(1) assms(8,11,13-15) src in \<open>simp_all add: product_nil_def\<close>)
  show ?thesis
    using assms(10) socks5_panic_ends_process [OF assms(3) _ panics] http_panic_is_recovered [OF _ panics]
    by (auto simp: run_events_append prod_eq_iff)
qed

definition demo_bottingtools :: BottingtoolsConfig where
  "demo_bottingtools = \<lparr>btUsername = ''acc'', btPasswordEnv = ''BT_PW'', btHost = ''h'',
     btProduct = \<lparr>bpType = ''isp'', bpResidential = None, bpISP = None, bpDatacenter = None\<rparr>\<rparr>"

definition demo_bottingtools_set :: ProxySetConfig where
  "demo_bottingtools_set = \<lparr>psName = ''res'', psSourceType = ''bottingtools'', psStaticFile = None, psBottingtools = Some demo_bottingtools, psGeonode = None\<rparr>"

theorem json_bottingtools_gateway_dies_witness:
  "\<exists>s0. BuildServer (\<lambda>p. None) (\<lambda>_. ''pw'') [demo_bottingtools_set] '''' world0 = Inr s0 \<and>
     run_events (demo_service [demo_bottingtools_set] '''') [SOCKS5Client (\<lambda>p t. None) (\<lambda>u. []) 1 (demo_client ''''), CleanupTick] (Running_at s0) =
       Died NilDereference \<and>
     run_events (demo_service [demo_bottingtools_set] '''') [HTTPClient (\<lambda>p t. None) (\<lambda>u. []) (\<lambda>u r. Inl '''') background 1 (demo_proxied '''') new_writer]
       (Running_at s0) = Running_at s0"
proof -
  let ?sv = "demo_service [demo_bottingtools_set] ''''" and ?ds = "\<lparr>cd_yaml = (\<lambda>d c. Inr c), cd_toml = (\<lambda>d c. Inr c), cd_jsonErr = (\<lambda>d. '''')\<rparr>"
  have sets: "cfProxySets (sv_cfg ?sv) = [demo_bottingtools_set]"
    by (simp add: demo_service_def)
  have "config_ok (defaultConfig\<lparr>cfSocks5Addr := '':1080'', cfProxySets := [demo_bottingtools_set]\<rparr>)"
    by code_simp
  then have load: "LoadConfig (\<lambda>p. Inr (tree_text (config_tree (sv_cfg ?sv)))) ?ds ''gw.json'' = Inr (sv_cfg ?sv)"
    by (simp add: LoadConfig_def json_Unmarshal_def config_read demo_service_def Let_def) code_simp
  obtain sources where s0: "BuildServer (\<lambda>p. None) (\<lambda>_. ''pw'') [demo_bottingtools_set] '''' world0 = Inr (NewSessionManager, sources, world0)"
    by (simp add: BuildServer_def buildSource_def demo_bottingtools_set_def demo_bottingtools_def NewBottingtoolsSource_def Let_def)
  have ext: "ToLower (path_Ext ''gw.json'') = ''.json''"
    by code_simp
  note dies = json_bottingtools_gateway_dies [OF load ext, where es = "[]" and c = demo_bottingtools_set and bc = demo_bottingtools and
      getenv = "\<lambda>_. ''pw''" and u = "demo_parsed 5 demo_xy" and user = "demo_name 5 demo_xy" and pass = "''''" and
      conn = "demo_client ''''" and target = "''t:80''" and es' = "[CleanupTick]" and r = "demo_proxied ''''", unfolded sets, OF _ _ _ _ _ _ s0]
  show ?thesis
    using s0 demo_negotiated(1) demo_basic_auth(1) demo_parses(1) dies
    by (simp add: demo_bottingtools_set_def demo_bottingtools_def NewSessionManager_def) (simp add: demo_service_def)
qed

end
