(* ===== verification/Lifecycle.thy ===== *)
theory Lifecycle
  imports Api
begin

text \<open>
  The life cycle of \<^verbatim>\<open>RunServer\<close> (\<^verbatim>\<open>proxy-gateway/server.go\<close>): the goroutine that serves HTTP and returns,
  the goroutine that waits for the signal and shuts the HTTP server down, the deferred shutdown of
  the admin server, and the requests and connections in flight. \<^verbatim>\<open>http.Server\<close> is as documented:
  \<^verbatim>\<open>Shutdown\<close> closes the listeners and waits for the active requests (not for hijacked connections),
  while \<^verbatim>\<open>ListenAndServe\<close> returns at once with \<^verbatim>\<open>ErrServerClosed\<close>. When \<^verbatim>\<open>RunServer\<close> has returned, \<^verbatim>\<open>main\<close>
  returns and the process is gone: no step follows.
\<close>

datatype runPhase =
    Listening
  | Deferred "error option"
  | AwaitAdmin "error option"
  | RunReturned "error option"

datatype drainPhase = AwaitSignal | Draining | Drained

record runState =
  rn_phase :: runPhase
  rn_drain :: drainPhase
  rn_signal :: bool
  rn_open :: bool
  rn_active :: nat
  rn_tunnels :: nat
  rn_socks :: bool
  rn_admin :: bool
  rn_adminOpen :: bool
  rn_adminActive :: nat

definition run_init :: "Config \<Rightarrow> string \<Rightarrow> runState" where
  "run_init cfg apiKey =
     (case RunServer_listeners cfg apiKey of (admin, socks, bind) \<Rightarrow>
        \<lparr>rn_phase = Listening, rn_drain = AwaitSignal, rn_signal = False, rn_open = True, rn_active = 0, rn_tunnels = 0,
         rn_socks = (socks \<noteq> None), rn_admin = (admin \<noteq> None), rn_adminOpen = (admin \<noteq> None), rn_adminActive = 0\<rparr>)"

definition run_alive :: "runState \<Rightarrow> bool" where
  "run_alive s \<longleftrightarrow> (\<forall>r. rn_phase s \<noteq> RunReturned r)"

text \<open>The steps, one per action of a goroutine, a client or the operator.\<close>

inductive run_step :: "runState \<Rightarrow> runState \<Rightarrow> bool" where
  http_accept: "run_alive s \<Longrightarrow> rn_open s \<Longrightarrow> run_step s (s\<lparr>rn_active := rn_active s + 1\<rparr>)"
| http_done: "run_alive s \<Longrightarrow> 0 < rn_active s \<Longrightarrow> run_step s (s\<lparr>rn_active := rn_active s - 1\<rparr>)"
| http_hijack: "run_alive s \<Longrightarrow> 0 < rn_active s \<Longrightarrow> run_step s (s\<lparr>rn_active := rn_active s - 1, rn_tunnels := rn_tunnels s + 1\<rparr>)"
| socks_accept: "run_alive s \<Longrightarrow> rn_socks s \<Longrightarrow> run_step s (s\<lparr>rn_tunnels := rn_tunnels s + 1\<rparr>)"
| tunnel_done: "run_alive s \<Longrightarrow> 0 < rn_tunnels s \<Longrightarrow> run_step s (s\<lparr>rn_tunnels := rn_tunnels s - 1\<rparr>)"
| admin_accept: "run_alive s \<Longrightarrow> rn_adminOpen s \<Longrightarrow> run_step s (s\<lparr>rn_adminActive := rn_adminActive s + 1\<rparr>)"
| admin_done: "run_alive s \<Longrightarrow> 0 < rn_adminActive s \<Longrightarrow> run_step s (s\<lparr>rn_adminActive := rn_adminActive s - 1\<rparr>)"
| signalled: "run_alive s \<Longrightarrow> run_step s (s\<lparr>rn_signal := True\<rparr>)"
| shutdown: "run_alive s \<Longrightarrow> rn_signal s \<Longrightarrow> rn_drain s = AwaitSignal \<Longrightarrow> run_step s (s\<lparr>rn_drain := Draining, rn_open := False\<rparr>)"
| drained: "run_alive s \<Longrightarrow> rn_drain s = Draining \<Longrightarrow> rn_active s = 0 \<Longrightarrow> run_step s (s\<lparr>rn_drain := Drained\<rparr>)"
| server_closed: "rn_phase s = Listening \<Longrightarrow> rn_drain s \<noteq> AwaitSignal \<Longrightarrow> run_step s (s\<lparr>rn_phase := Deferred None\<rparr>)"
| listen_failed: "rn_phase s = Listening \<Longrightarrow> rn_drain s = AwaitSignal \<Longrightarrow> run_step s (s\<lparr>rn_phase := Deferred (Some e), rn_open := False\<rparr>)"
| admin_shutdown: "rn_phase s = Deferred r \<Longrightarrow> rn_admin s \<Longrightarrow> run_step s (s\<lparr>rn_phase := AwaitAdmin r, rn_adminOpen := False\<rparr>)"
| admin_drained: "rn_phase s = AwaitAdmin r \<Longrightarrow> rn_adminActive s = 0 \<Longrightarrow> run_step s (s\<lparr>rn_phase := RunReturned r\<rparr>)"
| no_admin: "rn_phase s = Deferred r \<Longrightarrow> \<not> rn_admin s \<Longrightarrow> run_step s (s\<lparr>rn_phase := RunReturned r\<rparr>)"

section \<open>When RunServer returns\<close>

definition run_inv :: "runState \<Rightarrow> bool" where
  "run_inv s \<longleftrightarrow>
     (rn_drain s \<noteq> AwaitSignal \<longrightarrow> rn_signal s) \<and>
     (rn_phase s \<in> {Deferred None, AwaitAdmin None, RunReturned None} \<longrightarrow> rn_drain s \<noteq> AwaitSignal) \<and>
     (rn_open s \<longrightarrow> rn_drain s = AwaitSignal \<and> rn_phase s = Listening) \<and>
     (rn_adminOpen s \<longrightarrow> rn_admin s) \<and> (\<not> rn_admin s \<longrightarrow> rn_adminActive s = 0) \<and>
     ((\<exists>r. rn_phase s = RunReturned r) \<longrightarrow> rn_adminActive s = 0)"

lemma run_inv_init: "run_inv (run_init cfg apiKey)"
  by (simp add: run_inv_def run_init_def split: prod.split)

lemma run_inv_step: "run_step s s' \<Longrightarrow> run_inv s \<Longrightarrow> run_inv s'"
  by (induction rule: run_step.induct) (auto simp: run_inv_def run_alive_def)

lemma run_inv_reach: "run_step\<^sup>*\<^sup>* (run_init cfg apiKey) s \<Longrightarrow> run_inv s"
  by (induction rule: rtranclp_induct) (auto intro: run_inv_init run_inv_step)

text \<open>
  C16: \<^verbatim>\<open>RunServer\<close> returns without an error only after the signal, and only once no request to the
  admin API is in flight; by then no listener accepts a client any more.
\<close>
theorem RunServer_returns_after_signal:
  assumes "run_step\<^sup>*\<^sup>* (run_init cfg apiKey) s" and "rn_phase s = RunReturned r"
  shows "(r = None \<longrightarrow> rn_signal s) \<and> rn_adminActive s = 0 \<and> \<not> rn_open s \<and> (\<forall>s'. \<not> run_step s s')"
proof -
  have "\<not> run_step s s'" for s'
    using assms(2) by (auto simp: run_alive_def elim: run_step.cases)
  with run_inv_reach [OF assms(1)] assms(2) show ?thesis
    by (auto simp: run_inv_def)
qed

section \<open>Nothing waits for the HTTP requests\<close>

lemma admin_requests_finish:
  assumes "rn_phase s = AwaitAdmin r"
  shows "run_step\<^sup>*\<^sup>* s (s\<lparr>rn_phase := RunReturned r, rn_adminActive := 0\<rparr>)"
  using assms
proof (induction "rn_adminActive s" arbitrary: s)
  case 0
  then have "run_step s (s\<lparr>rn_phase := RunReturned r\<rparr>)"
    by (intro run_step.admin_drained) simp_all
  moreover have "s\<lparr>rn_phase := RunReturned r\<rparr> = s\<lparr>rn_phase := RunReturned r, rn_adminActive := 0\<rparr>"
    using 0(1) by (cases s) simp
  ultimately show ?case by (metis r_into_rtranclp)
next
  case (Suc n)
  let ?s = "s\<lparr>rn_adminActive := rn_adminActive s - 1\<rparr>"
  have "run_step s ?s"
    using Suc by (intro run_step.admin_done) (simp_all add: run_alive_def)
  moreover have "run_step\<^sup>*\<^sup>* ?s (?s\<lparr>rn_phase := RunReturned r, rn_adminActive := 0\<rparr>)"
    using Suc by (intro Suc.hyps(1)) simp_all
  ultimately show ?case
    by (simp add: converse_rtranclp_into_rtranclp)
qed

lemma deferred_returns:
  assumes "rn_phase s = Deferred r" and "run_inv s"
  shows "\<exists>s'. run_step\<^sup>*\<^sup>* s s' \<and> rn_phase s' = RunReturned r \<and> rn_active s' = rn_active s \<and> rn_tunnels s' = rn_tunnels s"
proof (cases "rn_admin s")
  case True
  let ?s = "s\<lparr>rn_phase := AwaitAdmin r, rn_adminOpen := False\<rparr>"
  have "run_step s ?s"
    using assms True by (intro run_step.admin_shutdown)
  with admin_requests_finish [of ?s r] show ?thesis
    by (intro exI [of _ "?s\<lparr>rn_phase := RunReturned r, rn_adminActive := 0\<rparr>"]) (simp add: converse_rtranclp_into_rtranclp)
next
  case False
  with run_step.no_admin [OF assms(1)] show ?thesis
    by (intro exI [of _ "s\<lparr>rn_phase := RunReturned r\<rparr>"]) (simp add: r_into_rtranclp)
qed

text \<open>
  C17: The shutdown does not drain the HTTP proxy. From every state of a serving gateway that has got
  the signal, with any number of HTTP requests and tunnels in flight, \<^verbatim>\<open>RunServer\<close> can return nil
  (and the process end) with every one of them still in flight: \<^verbatim>\<open>ListenAndServe\<close> returns as soon as
  \<^verbatim>\<open>Shutdown\<close> begins, and nothing waits for \<^verbatim>\<open>Shutdown\<close> to end.
\<close>
theorem shutdown_cuts_requests:
  assumes "run_step\<^sup>*\<^sup>* (run_init cfg apiKey) s" and "rn_phase s = Listening" and "rn_signal s"
  shows "\<exists>s'. run_step\<^sup>*\<^sup>* s s' \<and> rn_phase s' = RunReturned None \<and> rn_active s' = rn_active s \<and> rn_tunnels s' = rn_tunnels s"
proof -
  let ?d = "if rn_drain s = AwaitSignal then s\<lparr>rn_drain := Draining, rn_open := False\<rparr> else s"
  have to: "run_step\<^sup>*\<^sup>* s ?d"
    using run_step.shutdown [of s] assms(2,3) by (simp add: run_alive_def r_into_rtranclp)
  moreover have close: "run_step ?d (?d\<lparr>rn_phase := Deferred None\<rparr>)"
    using assms(2) by (intro run_step.server_closed) simp_all
  ultimately have path: "run_step\<^sup>*\<^sup>* s (?d\<lparr>rn_phase := Deferred None\<rparr>)"
    by (rule rtranclp.rtrancl_into_rtrancl)
  with assms(1) have "run_inv (?d\<lparr>rn_phase := Deferred None\<rparr>)"
    by (metis run_inv_reach rtranclp_trans)
  from deferred_returns [OF _ this, of None] obtain s' where
    "run_step\<^sup>*\<^sup>* (?d\<lparr>rn_phase := Deferred None\<rparr>) s'" "rn_phase s' = RunReturned None" "rn_active s' = rn_active s" "rn_tunnels s' = rn_tunnels s"
    by auto
  with path show ?thesis by (meson rtranclp_trans)
qed

definition demo_running :: runState where
  "demo_running = (run_init defaultConfig '''')\<lparr>rn_signal := True, rn_active := 1\<rparr>"

lemma demo_running_reached: "run_step\<^sup>*\<^sup>* (run_init defaultConfig '''') demo_running"
proof -
  let ?s = "run_init defaultConfig ''''"
  have "run_step ?s (?s\<lparr>rn_active := rn_active ?s + 1\<rparr>)"
    by (rule run_step.http_accept) (simp_all add: run_init_def RunServer_listeners_def run_alive_def)
  moreover have "run_step (?s\<lparr>rn_active := rn_active ?s + 1\<rparr>) demo_running"
    using run_step.signalled [of "?s\<lparr>rn_active := rn_active ?s + 1\<rparr>"]
    by (simp add: demo_running_def run_init_def RunServer_listeners_def run_alive_def)
  ultimately show ?thesis by simp
qed

lemma demo_running_sel: "rn_phase demo_running = Listening" "rn_signal demo_running" "rn_active demo_running = 1" "rn_drain demo_running = AwaitSignal"
    "\<not> rn_admin demo_running" "rn_adminActive demo_running = 0"
  by (simp_all add: demo_running_def run_init_def RunServer_listeners_def)

theorem shutdown_cuts_requests_witness:
  "\<exists>s'. run_step\<^sup>*\<^sup>* demo_running s' \<and> rn_phase s' = RunReturned None \<and> rn_active s' = 1"
  using shutdown_cuts_requests [OF demo_running_reached demo_running_sel(1,2)] by (auto simp: demo_running_sel)

theorem RunServer_returns_after_signal_witness:
  "\<exists>s. run_step\<^sup>*\<^sup>* (run_init defaultConfig '''') s \<and> rn_phase s = RunReturned None \<and> rn_signal s \<and> rn_adminActive s = 0"
proof -
  let ?a = "demo_running\<lparr>rn_drain := Draining, rn_open := False\<rparr>"
  let ?b = "?a\<lparr>rn_phase := Deferred None\<rparr>"
  have "run_step demo_running ?a" "run_step ?a ?b"
    using run_step.shutdown [of demo_running] run_step.server_closed [of ?a] by (simp_all add: run_alive_def demo_running_sel)
  moreover have "run_step ?b (?b\<lparr>rn_phase := RunReturned None\<rparr>)"
    by (rule run_step.no_admin) (simp_all add: demo_running_sel)
  moreover note demo_running_reached
  ultimately have "run_step\<^sup>*\<^sup>* (run_init defaultConfig '''') (?b\<lparr>rn_phase := RunReturned None\<rparr>)"
    by (meson rtranclp.rtrancl_into_rtrancl)
  with RunServer_returns_after_signal [OF this] show ?thesis by force
qed

end
