(* ===== verification/Mitm.thy ===== *)
theory Mitm
  imports Downstream
begin

text \<open>
  TLS interception, \<^verbatim>\<open>proxy-kit/mitm.go\<close>: the certificate cache and the forged certificates, the loop
  over the decrypted requests of a connection, and the standard interceptor. Keys, randomness,
  X.509 encoding, TLS handshakes and the parsing of HTTP messages are library code and parameters
  here.
\<close>

section \<open>Certificates\<close>

text \<open>\<^verbatim>\<open>net.ParseIP(s) != nil\<close>: an IPv4 or IPv6 address without a zone.\<close>

definition ParseIP_ok :: "string \<Rightarrow> bool" where
  "ParseIP_ok s = (case filter (\<lambda>c. c = CHR ''.'' \<or> c = CHR '':'' \<or> c = CHR ''%'') s of
     CHR ''.'' # _ \<Rightarrow> ipv4_fields_ok s | CHR '':'' # _ \<Rightarrow> parseIPv6_ok s \<and> CHR ''%'' \<notin> set s | _ \<Rightarrow> False)"

record certTemplate =
  ct_SerialNumber :: int
  ct_CommonName :: string
  ct_NotBefore :: int
  ct_NotAfter :: int
  ct_IsCA :: bool
  ct_DNSNames :: "string list"
  ct_IPAddresses :: "string list"

record ('k, 'd) tlsCert =
  tc_Certificate :: "'d list"
  tc_PrivateKey :: 'k

text \<open>
  The cryptographic library on a state \<open>'w\<close>: key generation, random integers below a bound, the
  clock, and the creation of a certificate from a template, its parent, the subject's key and
  the signing key.
\<close>

record ('w, 'k, 'd) crypto =
  cr_GenerateKey :: "'w \<Rightarrow> (string + 'k) \<times> 'w"
  cr_Int :: "int \<Rightarrow> 'w \<Rightarrow> int \<times> 'w"
  cr_Now :: "'w \<Rightarrow> int \<times> 'w"
  cr_Create :: "certTemplate \<Rightarrow> 'd option \<Rightarrow> 'k \<Rightarrow> 'k \<Rightarrow> 'w \<Rightarrow> (string + 'd) \<times> 'w"

definition nsHour :: int where "nsHour = 3600000000000"

definition leaf_template :: "string \<Rightarrow> int \<Rightarrow> int \<Rightarrow> int \<Rightarrow> certTemplate" where
  "leaf_template host serial t1 t2 = \<lparr>
     ct_SerialNumber = serial, ct_CommonName = host,
     ct_NotBefore = t1 - nsHour, ct_NotAfter = t2 + 24 * nsHour, ct_IsCA = False,
     ct_DNSNames = (if ParseIP_ok host then [] else [host]),
     ct_IPAddresses = (if ParseIP_ok host then [host] else [])\<rparr>"

text \<open>\<^verbatim>\<open>forgeCert\<close>; both errors are panics with the error as their value.\<close>

definition forgeCert :: "('w, 'k, 'd) crypto \<Rightarrow> string \<Rightarrow> 'd \<Rightarrow> 'k \<Rightarrow> 'w \<Rightarrow> ('k, 'd) tlsCert outcome \<times> 'w" where
  "forgeCert cr host caCert caPriv w =
     (case cr_GenerateKey cr w of
        (Inl e, w1) \<Rightarrow> (Panicked PanicErr, w1)
      | (Inr privKey, w1) \<Rightarrow>
          let (serial, w2) = cr_Int cr (2 ^ 128) w1; (t1, w3) = cr_Now cr w2; (t2, w4) = cr_Now cr w3
          in case cr_Create cr (leaf_template host serial t1 t2) (Some caCert) privKey caPriv w4 of
               (Inl e, w5) \<Rightarrow> (Panicked PanicErr, w5)
             | (Inr der, w5) \<Rightarrow> (Ret \<lparr>tc_Certificate = [der], tc_PrivateKey = privKey\<rparr>, w5))"

definition ca_template :: "int \<Rightarrow> int \<Rightarrow> int \<Rightarrow> certTemplate" where
  "ca_template serial t1 t2 = \<lparr>
     ct_SerialNumber = serial, ct_CommonName = ''proxy-gateway MITM CA'',
     ct_NotBefore = t1 - nsHour, ct_NotAfter = t2 + 10 * 365 * 24 * nsHour, ct_IsCA = True,
     ct_DNSNames = [], ct_IPAddresses = []\<rparr>"

text \<open>\<^verbatim>\<open>NewCA\<close>: a self-signed certificate (no parent stands for the template itself).\<close>

definition NewCA :: "('w, 'k, 'd) crypto \<Rightarrow> 'w \<Rightarrow> (string + ('k, 'd) tlsCert) \<times> 'w" where
  "NewCA cr w =
     (case cr_GenerateKey cr w of
        (Inl e, w1) \<Rightarrow> (Inl e, w1)
      | (Inr privKey, w1) \<Rightarrow>
          let (serial, w2) = cr_Int cr (2 ^ 128) w1; (t1, w3) = cr_Now cr w2; (t2, w4) = cr_Now cr w3
          in case cr_Create cr (ca_template serial t1 t2) None privKey privKey w4 of
               (Inl e, w5) \<Rightarrow> (Inl e, w5)
             | (Inr der, w5) \<Rightarrow> (Inr \<lparr>tc_Certificate = [der], tc_PrivateKey = privKey\<rparr>, w5))"

section \<open>The certificate cache\<close>

text \<open>The map is nil until its first use.\<close>

record ('k, 'd) CertCache =
  cc_certs :: "(string \<rightharpoonup> ('k, 'd) tlsCert) option"

definition cc_make :: "('k, 'd) CertCache \<Rightarrow> ('k, 'd) CertCache" where
  "cc_make c = (case cc_certs c of None \<Rightarrow> c\<lparr>cc_certs := Some Map.empty\<rparr> | Some _ \<Rightarrow> c)"

text \<open>The section under the read lock, and the one under the write lock, which looks again.\<close>

definition cc_lookup :: "string \<Rightarrow> ('k, 'd) CertCache \<Rightarrow> ('k, 'd) tlsCert option" where
  "cc_lookup host c = (case cc_certs c of None \<Rightarrow> None | Some m \<Rightarrow> m host)"

definition cc_locked :: "(string \<Rightarrow> 'w \<Rightarrow> ('k, 'd) tlsCert outcome \<times> 'w) \<Rightarrow> string \<Rightarrow> ('k, 'd) CertCache \<times> 'w \<Rightarrow>
    ('k, 'd) tlsCert outcome \<times> ('k, 'd) CertCache \<times> 'w" where
  "cc_locked forge host cw =
     (let (c, w) = cw in
      case cc_lookup host c of
        Some cert \<Rightarrow> (Ret cert, c, w)
      | None \<Rightarrow>
          (case forge host w of
             (Panicked p, w') \<Rightarrow> (Panicked p, c, w')
           | (Ret cert, w') \<Rightarrow> (Ret cert, c\<lparr>cc_certs := map_option (\<lambda>m. m(host \<mapsto> cert)) (cc_certs c)\<rparr>, w')))"

definition CertCache_Get :: "(string \<Rightarrow> 'w \<Rightarrow> ('k, 'd) tlsCert outcome \<times> 'w) \<Rightarrow> string \<Rightarrow> ('k, 'd) CertCache \<times> 'w \<Rightarrow>
    ('k, 'd) tlsCert outcome \<times> ('k, 'd) CertCache \<times> 'w" where
  "CertCache_Get forge host cw =
     (let (c0, w) = cw; c = cc_make c0 in
      case cc_lookup host c of
        Some cert \<Rightarrow> (Ret cert, c, w)
      | None \<Rightarrow> cc_locked forge host (c, w))"

text \<open>\<^verbatim>\<open>ForgedCertProvider\<close> and \<^verbatim>\<open>StaticCertProvider\<close>; neither reports an error.\<close>

record ('k, 'd) ForgedCertProvider =
  fp_CA :: "('k, 'd) tlsCert"
  fp_caCert :: 'd
  fp_cache :: "('k, 'd) CertCache"

definition NewForgedCertProvider :: "('d \<Rightarrow> string + 'd) \<Rightarrow> ('k, 'd) tlsCert \<Rightarrow> (error + ('k, 'd) ForgedCertProvider) outcome" where
  "NewForgedCertProvider parseCert ca =
     (case tc_Certificate ca of
        [] \<Rightarrow> Panicked IndexOutOfRange
      | der # _ \<Rightarrow>
          (case parseCert der of
             Inl e \<Rightarrow> Ret (Inl (ErrOther (''parsing CA certificate: '' @ e)))
           | Inr caCert \<Rightarrow> Ret (Inr \<lparr>fp_CA = ca, fp_caCert = caCert, fp_cache = \<lparr>cc_certs = None\<rparr>\<rparr>)))"

definition ForgedCertProvider_CertForHost :: "('w, 'k, 'd) crypto \<Rightarrow> string \<Rightarrow> ('k, 'd) ForgedCertProvider \<times> 'w \<Rightarrow>
    (error + ('k, 'd) tlsCert) outcome \<times> ('k, 'd) ForgedCertProvider \<times> 'w" where
  "ForgedCertProvider_CertForHost cr host pw =
     (let (p, w) = pw;
          (r, c, w') = CertCache_Get (\<lambda>h. forgeCert cr h (fp_caCert p) (tc_PrivateKey (fp_CA p))) host (fp_cache p, w)
      in (bind_outcome r (\<lambda>cert. Ret (Inr cert)), p\<lparr>fp_cache := c\<rparr>, w'))"

definition StaticCertProvider_CertForHost :: "('k, 'd) tlsCert \<Rightarrow> string \<Rightarrow> 'w \<Rightarrow> (error + ('k, 'd) tlsCert) outcome \<times> 'w" where
  "StaticCertProvider_CertForHost cert host w = (Ret (Inr cert), w)"

section \<open>Concurrent use of the cache\<close>

text \<open>
  Many connections ask for certificates at once. A call is its read section, and on a miss its
  write section some time later; the state has the cache, the hosts of the calls between the two,
  what has been returned and which hosts certificates were forged for.
\<close>

record ('w, 'k, 'd) cc_state =
  ccs_cache :: "('k, 'd) CertCache"
  ccs_pending :: "string list"
  ccs_returned :: "(string \<times> ('k, 'd) tlsCert) list"
  ccs_forged :: "string list"
  ccs_world :: 'w

definition cc_init :: "'w \<Rightarrow> ('w, 'k, 'd) cc_state" where
  "cc_init w = \<lparr>ccs_cache = \<lparr>cc_certs = Some Map.empty\<rparr>, ccs_pending = [], ccs_returned = [], ccs_forged = [], ccs_world = w\<rparr>"

inductive cc_step :: "(string \<Rightarrow> 'w \<Rightarrow> ('k, 'd) tlsCert outcome \<times> 'w) \<Rightarrow> ('w, 'k, 'd) cc_state \<Rightarrow> ('w, 'k, 'd) cc_state \<Rightarrow> bool"
  for forge where
  hit: "cc_lookup host (ccs_cache s) = Some cert \<Longrightarrow>
    cc_step forge s (s\<lparr>ccs_returned := (host, cert) # ccs_returned s\<rparr>)"
| miss: "cc_lookup host (ccs_cache s) = None \<Longrightarrow> cc_step forge s (s\<lparr>ccs_pending := host # ccs_pending s\<rparr>)"
| locked: "host \<in> set (ccs_pending s) \<Longrightarrow> cc_locked forge host (ccs_cache s, ccs_world s) = (Ret cert, c', w') \<Longrightarrow>
    cc_step forge s (s\<lparr>ccs_cache := c', ccs_world := w', ccs_pending := remove1 host (ccs_pending s),
      ccs_returned := (host, cert) # ccs_returned s,
      ccs_forged := (if cc_lookup host (ccs_cache s) = None then host # ccs_forged s else ccs_forged s)\<rparr>)"
| panicked: "host \<in> set (ccs_pending s) \<Longrightarrow> cc_locked forge host (ccs_cache s, ccs_world s) = (Panicked p, c', w') \<Longrightarrow>
    cc_step forge s (s\<lparr>ccs_cache := c', ccs_world := w', ccs_pending := remove1 host (ccs_pending s)\<rparr>)"

definition cc_inv :: "('w, 'k, 'd) cc_state \<Rightarrow> bool" where
  "cc_inv s \<longleftrightarrow> cc_certs (ccs_cache s) \<noteq> None \<and> distinct (ccs_forged s) \<and>
     (\<forall>host cert. (host, cert) \<in> set (ccs_returned s) \<longrightarrow> cc_lookup host (ccs_cache s) = Some cert) \<and>
     (\<forall>host. host \<in> set (ccs_forged s) \<longleftrightarrow> cc_lookup host (ccs_cache s) \<noteq> None)"

lemma cc_locked_cases:
  assumes "cc_locked forge host (c, w) = (r, c', w')" and "cc_certs c \<noteq> None"
  obtains (known) cert where "cc_lookup host c = Some cert" "r = Ret cert" "c' = c"
    | (forged) cert where "cc_lookup host c = None" "r = Ret cert" "cc_certs c' \<noteq> None"
        "\<And>h. cc_lookup h c' = (if h = host then Some cert else cc_lookup h c)"
    | (failed) p where "r = Panicked p" "c' = c"
proof (cases "cc_lookup host c")
  case None
  obtain f w1 where f: "forge host w = (f, w1)" by fastforce
  obtain m where m: "cc_certs c = Some m" using assms(2) by blast
  show ?thesis
  proof (cases f)
    case (Ret cert)
    with None assms(1) f m have "r = Ret cert" "c' = c\<lparr>cc_certs := Some (m(host \<mapsto> cert))\<rparr>"
      by (simp_all add: cc_locked_def)
    with None m show ?thesis
      by (intro forged [of cert]) (auto simp: cc_lookup_def)
  next
    case (Panicked p)
    with None assms(1) f show ?thesis
      by (intro failed [of p]) (simp_all add: cc_locked_def)
  qed
next
  case (Some cert)
  with assms(1) have "r = Ret cert" "c' = c" by (simp_all add: cc_locked_def)
  with Some show ?thesis by (intro known [of cert])
qed

lemma cc_step_inv: "cc_step forge s s' \<Longrightarrow> cc_inv s \<Longrightarrow> cc_inv s'"
proof (induction rule: cc_step.induct)
  case (locked host s cert c' w')
  from locked(2) show ?case
    by (rule cc_locked_cases) (use locked.prems in \<open>auto simp: cc_inv_def\<close>)
next
  case (panicked host s p c' w')
  from panicked(2) show ?case
    by (rule cc_locked_cases) (use panicked.prems in \<open>auto simp: cc_inv_def\<close>)
qed (auto simp: cc_inv_def)


definition demo_forge :: "string \<Rightarrow> nat \<Rightarrow> (nat, string) tlsCert outcome \<times> nat" where
  "demo_forge host n = (Ret \<lparr>tc_Certificate = [host], tc_PrivateKey = n\<rparr>, Suc n)"


section \<open>Interception\<close>

definition errorResponse :: "int \<Rightarrow> string \<Rightarrow> HTTPResponse" where
  "errorResponse code msg = \<lparr>hpStatusCode = code, hpHeader = [(''Content-Type'', [''text/plain''])], hpBody = Some [msg]\<rparr>"

text \<open>
  An interceptor gets the request and, as its body, what follows the head in the decrypted
  stream; it returns a response or an error, and how many bytes of that stream it has read.
\<close>

type_synonym interceptor = "Context \<Rightarrow> HTTPRequest \<Rightarrow> string \<Rightarrow> string \<Rightarrow> Proxy \<Rightarrow> (error + HTTPResponse) \<times> nat"

text \<open>The answer to one decrypted request: the response written, with the resolution it came from
  and the bytes of the body that were read on the way.\<close>

definition mitm_answer :: "(error \<Rightarrow> string) \<Rightarrow> 's handler \<Rightarrow> interceptor \<Rightarrow> Context \<Rightarrow> Request \<Rightarrow> string \<Rightarrow>
    HTTPRequest \<Rightarrow> string \<Rightarrow> 's \<Rightarrow> (resolution \<times> HTTPResponse \<times> nat) outcome \<times> 's" where
  "mitm_answer errText inner roundTrip childCtx req host httpReq body s =
     (let childReq = \<lparr>RawUsername = RawUsername req, RawPassword = RawPassword req, Target = host @ '':443'',
                      Conn = None, reqHTTP = Some httpReq\<rparr>;
          (res, s1) = inner childCtx childReq s
      in case res of
           Panicked p \<Rightarrow> (Panicked p, s1)
         | Ret (result, resolveErr) \<Rightarrow>
             (Ret (res,
                (case Option.bind result rHTTPResponse of
                   Some resp \<Rightarrow> (resp, 0)
                 | None \<Rightarrow>
                     (case resolveErr of
                        Some e \<Rightarrow> (errorResponse 403 (errText e), 0)
                      | None \<Rightarrow>
                          (case result of
                             None \<Rightarrow> (errorResponse 503 ''no proxy available'', 0)
                           | Some r \<Rightarrow>
                               (case rProxy r of
                                  None \<Rightarrow> (errorResponse 503 ''no proxy available'', 0)
                                | Some proxy \<Rightarrow>
                                    (case roundTrip childCtx httpReq body host proxy of
                                       (Inl e, n) \<Rightarrow> (errorResponse 502 (errText e), n)
                                     | (Inr resp, n) \<Rightarrow> (apply_hook r resp, n))))))), s1))"

text \<open>
  The loop, with \<^verbatim>\<open>http.ReadRequest\<close> as a parameter that splits a request head off the stream, or
  fails. The next request is read where the last body was left. \<open>None\<close> means out of fuel.
\<close>

fun mitm_loop :: "nat \<Rightarrow> (string \<Rightarrow> (HTTPRequest \<times> string) option) \<Rightarrow> (error \<Rightarrow> string) \<Rightarrow> 's handler \<Rightarrow> interceptor \<Rightarrow> Context \<Rightarrow>
    Request \<Rightarrow> string \<Rightarrow> string \<Rightarrow> (resolution \<times> HTTPResponse) list \<Rightarrow> 's \<Rightarrow> ((resolution \<times> HTTPResponse) list outcome \<times> 's) option" where
  "mitm_loop 0 readReq errText inner roundTrip childCtx req host stream out s = None"
| "mitm_loop (Suc n) readReq errText inner roundTrip childCtx req host stream out s =
     (case readReq stream of
        None \<Rightarrow> Some (Ret out, s)
      | Some (httpReq, body) \<Rightarrow>
          (case mitm_answer errText inner roundTrip childCtx req host httpReq body s of
             (Panicked p, s1) \<Rightarrow> Some (Panicked p, s1)
           | (Ret (res, resp, k), s1) \<Rightarrow>
               mitm_loop n readReq errText inner roundTrip childCtx req host (drop k body) (out @ [(res, resp)]) s1))"

text \<open>
  The TLS side of a client connection: whether the handshake with a certificate succeeds, and
  the decrypted bytes the client sends afterwards.
\<close>

record 'c clientTLS =
  ct_handshake :: "'c \<Rightarrow> bool"
  ct_stream :: string

record 'p mitmState =
  ms_certs :: 'p
  ms_closed :: "nat list"
  ms_answers :: "(nat \<times> (resolution \<times> HTTPResponse) list) list"

definition mitm_Resolve :: "(string \<Rightarrow> (HTTPRequest \<times> string) option) \<Rightarrow> (error \<Rightarrow> string) \<Rightarrow> (nat \<Rightarrow> 'c clientTLS) \<Rightarrow>
    (string \<Rightarrow> 'p \<Rightarrow> (error + 'c) outcome \<times> 'p) \<Rightarrow> interceptor \<Rightarrow> 's handler \<Rightarrow> Context \<Rightarrow> Request \<Rightarrow>
    'p mitmState \<times> 's \<Rightarrow> (resolution \<times> 'p mitmState \<times> 's) option" where
  "mitm_Resolve readReq errText tls CertForHost roundTrip inner ctx req ms =
     (let (m, s) = ms in
      case Conn req of
        None \<Rightarrow> (let (r, s') = inner ctx req s in Some (r, m, s'))
      | Some cid \<Rightarrow>
          if Broken (GetTLSState ctx) then (let (r, s') = inner ctx req s in Some (r, m, s'))
          else
            let host = targetHost (Target req); (c, p') = CertForHost host (ms_certs m);
                m1 = m\<lparr>ms_certs := p'\<rparr>; closed = m1\<lparr>ms_closed := cid # ms_closed m1\<rparr>
            in case c of
                 Panicked x \<Rightarrow> Some (Panicked x, m1, s)
               | Ret (Inl e) \<Rightarrow> Some (Ret (None, None), closed, s)
               | Ret (Inr cert) \<Rightarrow>
                   if \<not> ct_handshake (tls cid) cert then Some (Ret (None, None), closed, s)
                   else
                     let childCtx = WithTLSState ctx \<lparr>Broken = True, ServerName = host\<rparr>
                     in case mitm_loop (Suc (length (ct_stream (tls cid)))) readReq errText inner roundTrip childCtx req host
                               (ct_stream (tls cid)) [] s of
                          None \<Rightarrow> None
                        | Some (Panicked x, s') \<Rightarrow> Some (Panicked x, m1, s')
                        | Some (Ret out, s') \<Rightarrow>
                            Some (Ret (None, None), closed\<lparr>ms_answers := (cid, out) # ms_answers m1\<rparr>, s'))"

section \<open>The loop returns, and what it leaves behind\<close>

text \<open>\<^verbatim>\<open>http.ReadRequest\<close> reads at least one byte of every request.\<close>

definition consuming :: "(string \<Rightarrow> (HTTPRequest \<times> string) option) \<Rightarrow> bool" where
  "consuming readReq \<longleftrightarrow> (\<forall>s r body. readReq s = Some (r, body) \<longrightarrow> length body < length s)"

lemma mitm_loop_returns:
  assumes "consuming readReq" and "length stream < n"
  shows "\<exists>x. mitm_loop n readReq errText inner roundTrip childCtx req host stream out s = Some x"
  using assms(2)
proof (induction n arbitrary: stream out s)
  case (Suc n)
  show ?case
  proof (cases "readReq stream")
    case (Some rb)
    obtain httpReq body where rb: "rb = (httpReq, body)" by fastforce
    obtain a s1 where a: "mitm_answer errText inner roundTrip childCtx req host httpReq body s = (a, s1)" by fastforce
    have "length body < length stream"
      using assms(1) Some rb unfolding consuming_def by blast
    with Suc.prems have "length (drop k body) < n" for k by simp
    from Suc.IH [OF this] Some rb a show ?thesis
      by (cases a) (auto split: prod.split)
  qed simp
qed simp

text \<open>
  The body of a request the pipeline refuses is not read, so it is served as a request of its own:
  a client behind the interception gets two requests past the loop with one, the second with
  whatever the body says.
\<close>
lemma mitm_refused_body_is_request:
  assumes "readReq stream = Some (r1, body)" and "readReq body = Some (r2, rest)"
    and "inner childCtx \<lparr>RawUsername = RawUsername req, RawPassword = RawPassword req, Target = host @ '':443'', Conn = None, reqHTTP = Some r1\<rparr> s =
      (Ret (None, Some e), s1)"
    and "mitm_answer errText inner roundTrip childCtx req host r2 rest s1 = (Ret (res2, resp2, k), s2)"
  shows "mitm_loop (Suc (Suc n)) readReq errText inner roundTrip childCtx req host stream out s =
    mitm_loop n readReq errText inner roundTrip childCtx req host (drop k rest)
      (out @ [(Ret (None, Some e), errorResponse 403 (errText e)), (res2, resp2)]) s2"
  using assms by (simp add: mitm_answer_def)


text \<open>A reader for the witnesses: each byte is a request.\<close>

definition demo_readReq :: "string \<Rightarrow> (HTTPRequest \<times> string) option" where
  "demo_readReq s = (case s of [] \<Rightarrow> None | c # cs \<Rightarrow> Some (demo_connect\<lparr>hqMethod := ''GET'', hqPath := [c]\<rparr>, cs))"

lemma demo_consuming: "consuming demo_readReq"
  by (auto simp: consuming_def demo_readReq_def split: list.splits)

definition demo_roundTrip :: interceptor where
  "demo_roundTrip = (\<lambda>ctx r body host p. (Inr \<lparr>hpStatusCode = 200, hpHeader = [], hpBody = Some [hqPath r]\<rparr>, 0))"

definition demo_tls :: "nat \<Rightarrow> nat clientTLS" where
  "demo_tls = (\<lambda>cid. \<lparr>ct_handshake = (\<lambda>c. True), ct_stream = ''xyz''\<rparr>)"

definition demo_certs :: "string \<Rightarrow> nat \<Rightarrow> (error + nat) outcome \<times> nat" where
  "demo_certs host p = (Ret (Inr p), Suc p)"

definition demo_tunnel :: Request where
  "demo_tunnel = emptyRequest\<lparr>Target := ''example.com:443'', Conn := Some 7\<rparr>"

definition demo_mitm :: "nat mitmState" where
  "demo_mitm = \<lparr>ms_certs = 0, ms_closed = [], ms_answers = []\<rparr>"


lemma mitm_answer_res:
  assumes "mitm_answer errText inner roundTrip childCtx req host httpReq body s = (Ret (res, resp, k), s1)"
  shows "\<exists>childReq. inner childCtx childReq s = (res, s1)"
  using assms by (auto simp: mitm_answer_def Let_def split: prod.splits outcome.splits)

text \<open>Every answer's tracker is opened, and none is closed.\<close>

definition answer_trackers :: "(resolution \<times> HTTPResponse) list \<Rightarrow> ConnTracker list" where
  "answer_trackers out = concat (map (\<lambda>(res, resp). opened res) (rev out))"

lemma mitm_loop_R:
  assumes "tracked_server ops inner R"
    and "mitm_loop n readReq errText inner roundTrip childCtx req host stream out s = Some (Ret out', s')"
    and "R s (answer_trackers out @ os)"
  shows "R s' (answer_trackers out' @ os)"
  using assms(2,3)
proof (induction n arbitrary: stream out s)
  case (Suc n)
  show ?case
  proof (cases "readReq stream")
    case (Some rb)
    obtain httpReq body where rb: "rb = (httpReq, body)" by fastforce
    obtain a s1 where a: "mitm_answer errText inner roundTrip childCtx req host httpReq body s = (a, s1)" by fastforce
    with Suc.prems(1) Some rb obtain res resp k where ret: "a = Ret (res, resp, k)"
      and rec: "mitm_loop n readReq errText inner roundTrip childCtx req host (drop k body) (out @ [(res, resp)]) s1 = Some (Ret out', s')"
      by (cases a) (auto split: prod.splits)
    obtain childReq where "inner childCtx childReq s = (res, s1)"
      using mitm_answer_res a ret by metis
    from tracked_server.resolve [OF assms(1) Suc.prems(2) this]
    have "R s1 (answer_trackers (out @ [(res, resp)]) @ os)"
      by (simp add: answer_trackers_def)
    from Suc.IH [OF rec this] show ?thesis .
  qed (use Suc.prems in simp)
qed simp

lemma open_at_append: "open_at a (xs @ ys) = open_at a xs + open_at a ys"
  by (simp add: open_at_def)

text \<open>An intercepted connection: a tunnel, not yet decrypted, with a certificate and a handshake.\<close>

definition intercepts :: "(nat \<Rightarrow> 'c clientTLS) \<Rightarrow> (string \<Rightarrow> 'p \<Rightarrow> (error + 'c) outcome \<times> 'p) \<Rightarrow> Context \<Rightarrow> Request \<Rightarrow> 'p mitmState \<Rightarrow> nat \<Rightarrow> bool" where
  "intercepts tls CertForHost ctx req m cid \<longleftrightarrow> Conn req = Some cid \<and> \<not> Broken (GetTLSState ctx) \<and>
     (case fst (CertForHost (targetHost (Target req)) (ms_certs m)) of Ret (Inr cert) \<Rightarrow> ct_handshake (tls cid) cert | _ \<Rightarrow> False)"

lemma intercepted_run:
  assumes "intercepts tls CertForHost ctx req m cid"
    and "mitm_Resolve readReq errText tls CertForHost roundTrip inner ctx req (m, s) = Some (Ret r, m', s')"
  obtains out childCtx where "r = (None, None)" "ms_answers m' = (cid, out) # ms_answers m" "cid \<in> set (ms_closed m')"
    "mitm_loop (Suc (length (ct_stream (tls cid)))) readReq errText inner roundTrip childCtx req (targetHost (Target req))
       (ct_stream (tls cid)) [] s = Some (Ret out, s')"
proof -
  obtain cert p' where c: "CertForHost (targetHost (Target req)) (ms_certs m) = (Ret (Inr cert), p')"
    using assms(1) by (cases "CertForHost (targetHost (Target req)) (ms_certs m)")
      (auto simp: intercepts_def split: outcome.splits sum.splits)
  let ?childCtx = "WithTLSState ctx \<lparr>Broken = True, ServerName = targetHost (Target req)\<rparr>"
  let ?loop = "mitm_loop (Suc (length (ct_stream (tls cid)))) readReq errText inner roundTrip ?childCtx req (targetHost (Target req))
       (ct_stream (tls cid)) [] s"
  have eq: "mitm_Resolve readReq errText tls CertForHost roundTrip inner ctx req (m, s) =
      (case ?loop of None \<Rightarrow> None | Some (Panicked x, s') \<Rightarrow> Some (Panicked x, m\<lparr>ms_certs := p'\<rparr>, s')
       | Some (Ret out, s') \<Rightarrow> Some (Ret (None, None), m\<lparr>ms_certs := p', ms_closed := cid # ms_closed m, ms_answers := (cid, out) # ms_answers m\<rparr>, s'))"
    using assms(1) c
    by (simp add: mitm_Resolve_def intercepts_def Let_def del: mitm_loop.simps split: option.split prod.split outcome.split)
  show ?thesis
  proof (cases ?loop)
    case None
    with eq assms(2) show ?thesis by simp
  next
    case (Some os)
    with eq assms(2) that [of _ ?childCtx] show ?thesis
      by (cases os; cases "fst os") (auto simp del: mitm_loop.simps)
  qed
qed

text \<open>
  C29: Interception never closes a tracker. A rate limiter behind the MITM handler opens one
  tracked connection per decrypted request it admits; the loop forwards the request and drops
  the tracker. When the client's connection has been served and closed, the concurrent counter
  of the key still counts every one of its requests, and nothing will ever give them back.
\<close>
theorem mitm_leaks_trackers:
  assumes "limited_handler clk ok inner" and "ok w0" and "\<And>k. rule_bounded (limitsFn k)" and "untracked inner"
    and "rl_reach clk keyFn limitsFn inner w0 s os"
    and "intercepts tls CertForHost ctx req m cid"
    and "mitm_Resolve readReq errText tls CertForHost roundTrip (RateLimiter_Resolve clk keyFn limitsFn inner) ctx req (m, s) =
      Some (Ret r, m', (h, st, w))"
    and "rl_state h key = Some a" and "filter is_concurrent (limitsFn key) = [rl]"
  shows "cid \<in> set (ms_closed m') \<and> (\<exists>out. ms_answers m' = (cid, out) # ms_answers m \<and>
    us_concurrent (st ! a) = open_at a os + open_at a (answer_trackers out))"
proof -
  obtain out childCtx where out: "ms_answers m' = (cid, out) # ms_answers m" "cid \<in> set (ms_closed m')"
    and loop: "mitm_loop (Suc (length (ct_stream (tls cid)))) readReq errText (RateLimiter_Resolve clk keyFn limitsFn inner)
       roundTrip childCtx req (targetHost (Target req)) (ct_stream (tls cid)) [] s = Some (Ret out, (h, st, w))"
    using intercepted_run [OF assms(6,7)] by metis
  have "rl_reach clk keyFn limitsFn inner w0 (h, st, w) (answer_trackers out @ os)"
    by (rule mitm_loop_R [OF limiter_tracked_server [OF assms(4)] loop]) (simp add: answer_trackers_def assms(5))
  then have "rl_inv limitsFn h st (answer_trackers out @ os)"
    using limits_bounded_inv [OF assms(1-3)] by fastforce
  from rl_inv_keyD [OF this assms(8)] assms(9) out show ?thesis
    by (auto simp: key_ok_def open_at_append)
qed

theorem mitm_leaks_trackers_witness:
  "\<exists>m' h st w. mitm_Resolve demo_readReq (\<lambda>e. '''') demo_tls demo_certs demo_roundTrip demo_limiter background demo_tunnel
     (demo_mitm, (newRateLimiter, [], 0)) = Some (Ret (None, None), m', (h, st, w)) \<and>
     7 \<in> set (ms_closed m') \<and> us_concurrent (st ! 0) = 2"
proof -
  let ?run = "mitm_Resolve demo_readReq (\<lambda>e. '''') demo_tls demo_certs demo_roundTrip demo_limiter background demo_tunnel
     (demo_mitm, (newRateLimiter, [], 0))"
  have ok: "case ?run of None \<Rightarrow> False | Some (r, m', h, st, w) \<Rightarrow>
      (case r of Ret (None, None) \<Rightarrow> True | _ \<Rightarrow> False) \<and> rl_state h '''' = Some 0 \<and>
      (case ms_answers m' of [(c, out)] \<Rightarrow> open_at 0 (answer_trackers out) = 2 | _ \<Rightarrow> False)"
    by code_simp
  then obtain x where x: "?run = Some x" by (cases ?run) simp_all
  obtain r m' h st w where xs: "x = (r, m', h, st, w)" by (cases x)
  have r: "r = Ret (None, None)" and a: "rl_state h '''' = Some 0"
    and out: "\<And>out. ms_answers m' = [(7, out)] \<Longrightarrow> open_at 0 (answer_trackers out) = 2"
    using ok x xs by (auto split: outcome.splits option.splits)
  have run: "?run = Some (Ret (None, None), m', (h, st, w))"
    using x xs r by simp
  have reach: "rl_reach demo_clock Identity demo_limits demo_inner 0 (newRateLimiter, [], 0) []"
    by (rule rl_reach.start)
  have "intercepts demo_tls demo_certs background demo_tunnel demo_mitm 7"
    by code_simp
  from mitm_leaks_trackers [OF demo_limited _ _ demo_untracked reach this run a] have
    "7 \<in> set (ms_closed m') \<and> (\<exists>out. ms_answers m' = (7, out) # ms_answers demo_mitm \<and>
      us_concurrent (st ! 0) = open_at 0 [] + open_at 0 (answer_trackers out))"
    by simp
  with run out show ?thesis by (auto simp: demo_mitm_def open_at_def)
qed

end
