(* ===== verification/Interceptors.thy ===== *)
theory Interceptors
  imports Mitm
begin

text \<open>
  The interceptors that send decrypted requests on: \<^verbatim>\<open>StandardInterceptor\<close> of \<^verbatim>\<open>proxy-kit/mitm.go\<close> and
  the browser-like one of \<^verbatim>\<open>proxy-kit/utils/tls_fingerprint_spoofing.go\<close>. TLS, the encoding of HTTP
  messages and the package \<^verbatim>\<open>httpcloak\<close> are parameters.
\<close>

section \<open>The standard interceptor\<close>

text \<open>
  The TLS connection to the target: the errors of the handshake and of writing the request, and
  what \<^verbatim>\<open>http.ReadResponse\<close> returns: the response without its body, the part of the body that lies in
  the reader's buffer, and the pieces the connection would still deliver.
\<close>

record targetTLS =
  tt_handshake :: "upconn \<Rightarrow> string \<Rightarrow> string option"
  tt_write :: "upconn \<Rightarrow> HTTPRequest \<Rightarrow> string option"
  tt_ReadResponse :: "upconn \<Rightarrow> HTTPRequest \<Rightarrow> string + HTTPResponse \<times> string \<times> string list"

definition origin_request :: "HTTPRequest \<Rightarrow> HTTPRequest" where
  "origin_request r = r\<lparr>hqScheme := '''', hqURLHost := '''', hqRequestURI := ''''\<rparr>"

text \<open>
  The deferred calls close the TLS connection and the connection below it when \<^verbatim>\<open>RoundTrip\<close> returns,
  before anybody reads the body: reads of the body then get what is buffered, and an error.
\<close>

definition body_after_close :: "HTTPResponse \<Rightarrow> string \<Rightarrow> HTTPResponse" where
  "body_after_close resp buffered = resp\<lparr>hpBody := Some (if buffered = [] then [] else [buffered])\<rparr>"

text \<open>What follows the dial; \<open>None\<close> is a \<^verbatim>\<open>Dial\<close> that does not return.\<close>

definition StandardInterceptor_over :: "targetTLS \<Rightarrow> HTTPRequest \<Rightarrow> string \<Rightarrow> dial_result \<Rightarrow> error + HTTPResponse" where
  "StandardInterceptor_over tt httpReq host d =
     (case d of
        DialFailed e c \<Rightarrow> Inl e
      | Dialed c \<Rightarrow>
          (case tt_handshake tt c host of
             Some e \<Rightarrow> Inl (ErrOther (''TLS to target '' @ host @ '': '' @ e))
           | None \<Rightarrow>
               (case tt_write tt c (origin_request httpReq) of
                  Some e \<Rightarrow> Inl (ErrOther (''writing request to target: '' @ e))
                | None \<Rightarrow>
                    (case tt_ReadResponse tt c (origin_request httpReq) of
                       Inl e \<Rightarrow> Inl (ErrOther (''reading response from target: '' @ e))
                     | Inr (resp, buffered, pieces) \<Rightarrow> Inr (body_after_close resp buffered)))))"

definition StandardInterceptor_RoundTrip :: "(Proxy \<Rightarrow> string \<Rightarrow> dial_result option) \<Rightarrow> targetTLS \<Rightarrow> HTTPRequest \<Rightarrow> string \<Rightarrow> Proxy \<Rightarrow>
    (error + HTTPResponse) option" where
  "StandardInterceptor_RoundTrip dial tt httpReq host proxy =
     map_option (StandardInterceptor_over tt httpReq host) (dial proxy (host @ '':443''))"

lemma StandardInterceptor_response:
  assumes "StandardInterceptor_RoundTrip dial tt r host p = Some (Inr resp)"
  obtains c resp0 buffered pieces where "dial p (host @ '':443'') = Some (Dialed c)" and "tt_handshake tt c host = None"
    and "tt_write tt c (origin_request r) = None" and "tt_ReadResponse tt c (origin_request r) = Inr (resp0, buffered, pieces)"
    and "resp = body_after_close resp0 buffered"
proof -
  obtain d where "dial p (host @ '':443'') = Some d" "StandardInterceptor_over tt r host d = Inr resp"
    using assms by (auto simp: StandardInterceptor_RoundTrip_def)
  then show ?thesis
    by (cases d) (auto simp: StandardInterceptor_over_def intro!: that split: option.splits sum.splits)
qed

text \<open>Over an HTTP upstream the connection is the one the CONNECT client accepted.\<close>

lemma StandardInterceptor_needs_connect:
  assumes "StandardInterceptor_RoundTrip (HTTPUpstream_Dial netDial) tt r host p = Some (Inr resp)"
  shows "\<exists>c buffered pieces resp0. HTTPUpstream_Dial netDial p (host @ '':443'') = Some (Dialed c) \<and> tt_handshake tt c host = None \<and>
    tt_ReadResponse tt c (origin_request r) = Inr (resp0, buffered, pieces) \<and> hpBody resp = Some (if buffered = [] then [] else [buffered])"
  by (rule StandardInterceptor_response [OF assms]) (auto simp: body_after_close_def)

text \<open>
  The standard interceptor loses the rest of long responses. Whenever it returns a response,
  the body the client will get is what the response reader had buffered with the head; nothing
  that the target sends after that arrives, because the connection is closed on return.
\<close>
lemma StandardInterceptor_truncates_body:
  assumes "StandardInterceptor_RoundTrip dial tt r host p = Some (Inr resp)"
  shows "\<exists>c resp0 buffered pieces. dial p (host @ '':443'') = Some (Dialed c) \<and>
    tt_ReadResponse tt c (origin_request r) = Inr (resp0, buffered, pieces) \<and>
    hpStatusCode resp = hpStatusCode resp0 \<and> hpHeader resp = hpHeader resp0 \<and>
    (\<exists>chunks. hpBody resp = Some chunks \<and> concat chunks = buffered \<and>
      (concat chunks = buffered @ concat pieces \<longleftrightarrow> concat pieces = []))"
  by (rule StandardInterceptor_response [OF assms]) (auto simp: body_after_close_def)

definition demo_target :: targetTLS where
  "demo_target = \<lparr>tt_handshake = (\<lambda>c h. None), tt_write = (\<lambda>c r. None),
     tt_ReadResponse = (\<lambda>c r. Inr (\<lparr>hpStatusCode = 200, hpHeader = [(''Content-Length'', [''8''])], hpBody = None\<rparr>, ''half'', [''rest'']))\<rparr>"

lemma StandardInterceptor_truncates_body_witness:
  "\<exists>resp chunks. StandardInterceptor_RoundTrip (\<lambda>p t. Some (Dialed demo_upstream)) demo_target demo_connect ''example.com'' (mkProxy ''h1'' 80 '''' '''') =
     Some (Inr resp) \<and> hpBody resp = Some chunks \<and> concat chunks = ''half''"
proof -
  let ?rt = "StandardInterceptor_RoundTrip (\<lambda>p t. Some (Dialed demo_upstream)) demo_target demo_connect ''example.com'' (mkProxy ''h1'' 80 '''' '''')"
  obtain resp where run: "?rt = Some (Inr resp)"
    by (simp add: StandardInterceptor_RoundTrip_def StandardInterceptor_over_def demo_target_def)
  from StandardInterceptor_truncates_body [OF run] run show ?thesis
    by (auto simp: demo_target_def)
qed

section \<open>TLS fingerprint spoofing\<close>

definition proxyToURL :: "Proxy \<Rightarrow> string" where
  "proxyToURL p =
     (let scheme = (if Proto p = ProtocolSOCKS5 then ''socks5'' else ''http'') in
      if pUsername p \<noteq> ''''
      then scheme @ ''://'' @ pUsername p @ '':'' @ pPassword p @ ''@'' @ pHost p @ '':'' @ itoa (unat (pPort p))
      else scheme @ ''://'' @ pHost p @ '':'' @ itoa (unat (pPort p)))"

definition dropped_header :: "string \<Rightarrow> bool" where
  "dropped_header k \<longleftrightarrow> (let lower = ToLower k in lower = ''connection'' \<or> lower = ''proxy-authorization'' \<or> lower = ''proxy-connection'')"

record cloakRequest =
  cq_Method :: string
  cq_URL :: string
  cq_Headers :: header
  cq_HasBody :: bool

text \<open>\<open>hqPath\<close> is the text of \<^verbatim>\<open>URL.RequestURI()\<close>; a request read from a connection has a body reader.\<close>

definition cloak_request :: "HTTPRequest \<Rightarrow> string \<Rightarrow> cloakRequest" where
  "cloak_request r host = \<lparr>
     cq_Method = hqMethod r, cq_URL = ''https://'' @ host @ hqPath r,
     cq_Headers = filter (\<lambda>(k, vs). \<not> dropped_header k) (hqHeader r),
     cq_HasBody = (hqMethod r \<noteq> ''GET'' \<and> hqMethod r \<noteq> ''HEAD'')\<rparr>"

text \<open>\<^verbatim>\<open>client.NewClient(preset, WithProxy(url)).Do(req)\<close>: an error, or status, headers and body.\<close>

type_synonym cloakClient = "string \<Rightarrow> string \<Rightarrow> cloakRequest \<Rightarrow> string + int \<times> header \<times> string"

definition tlsFingerprint_RoundTrip :: "cloakClient \<Rightarrow> string \<Rightarrow> HTTPRequest \<Rightarrow> string \<Rightarrow> Proxy \<Rightarrow> error + HTTPResponse" where
  "tlsFingerprint_RoundTrip do preset r host p =
     (let q = cloak_request r host in
      case do preset (proxyToURL p) q of
        Inl e \<Rightarrow> Inl (ErrOther (''httpcloak '' @ cq_URL q @ '': '' @ e))
      | Inr (status, headers, body) \<Rightarrow>
          Inr \<lparr>hpStatusCode = status, hpHeader = add_all headers [], hpBody = Some [body]\<rparr>)"

lemma cloak_headers_values:
  "Header_values (cq_Headers (cloak_request r host)) k = (if dropped_header k then [] else Header_values (hqHeader r) k)"
proof -
  have "Header_values (filter (\<lambda>(k, vs). \<not> dropped_header k) h) k = (if dropped_header k then [] else Header_values h k)" for h
    by (induction h) (auto split: if_splits)
  then show ?thesis by (simp add: cloak_request_def)
qed

section \<open>Convenience constructors\<close>

text \<open>
  \<^verbatim>\<open>QuickMITM\<close> and \<^verbatim>\<open>TLSFingerprintSpoofing\<close> make the forging provider of the CA, and panic when it has no
  certificate or one that does not parse; else they return the handler, whose certificates are in its state:
  \<open>forged_MITM\<close> gives the provider it starts with and the handler over it.
\<close>

type_synonym ('k, 'd, 'w, 's) mitmHandler = "Context \<Rightarrow> Request \<Rightarrow> (('k, 'd) ForgedCertProvider \<times> 'w) mitmState \<times> 's \<Rightarrow>
    (resolution \<times> (('k, 'd) ForgedCertProvider \<times> 'w) mitmState \<times> 's) option"

definition forged_MITM :: "('d \<Rightarrow> string + 'd) \<Rightarrow> ('k, 'd) tlsCert \<Rightarrow> ('k, 'd, 'w, 's) mitmHandler \<Rightarrow>
    (('k, 'd) ForgedCertProvider \<times> ('k, 'd, 'w, 's) mitmHandler) outcome" where
  "forged_MITM parseCert ca mitm =
     bind_outcome (NewForgedCertProvider parseCert ca) (\<lambda>r. case r of Inl e \<Rightarrow> Panicked PanicErr | Inr certs \<Rightarrow> Ret (certs, mitm))"

text \<open>
  The standard interceptor over an upstream whose \<^verbatim>\<open>Dial\<close> returns; \<open>drained\<close> is how much of the body
  \<^verbatim>\<open>out.Write\<close> reads, which a failed dial or handshake leaves alone.
\<close>

definition standard_interceptor :: "(Proxy \<Rightarrow> string \<Rightarrow> dial_result) \<Rightarrow> targetTLS \<Rightarrow> (HTTPRequest \<Rightarrow> string \<Rightarrow> nat) \<Rightarrow> interceptor" where
  "standard_interceptor dial tt drained ctx r body host p =
     (let d = dial p (host @ '':443'')
      in (StandardInterceptor_over tt r host d,
          case d of DialFailed e c \<Rightarrow> 0 | Dialed c \<Rightarrow> if tt_handshake tt c host = None then drained r body else 0))"

definition QuickMITM :: "(string \<Rightarrow> (HTTPRequest \<times> string) option) \<Rightarrow> (error \<Rightarrow> string) \<Rightarrow> (nat \<Rightarrow> ('k, 'd) tlsCert clientTLS) \<Rightarrow> ('w, 'k, 'd) crypto \<Rightarrow>
    ('d \<Rightarrow> string + 'd) \<Rightarrow> targetTLS \<Rightarrow> (HTTPRequest \<Rightarrow> string \<Rightarrow> nat) \<Rightarrow> ('k, 'd) tlsCert \<Rightarrow> (Proxy \<Rightarrow> string \<Rightarrow> dial_result) \<Rightarrow> 's handler \<Rightarrow>
    (('k, 'd) ForgedCertProvider \<times> ('k, 'd, 'w, 's) mitmHandler) outcome" where
  "QuickMITM readReq errText tls cr parseCert tt drained ca upstream inner =
     forged_MITM parseCert ca
       (mitm_Resolve readReq errText tls (ForgedCertProvider_CertForHost cr) (standard_interceptor upstream tt drained) inner)"

text \<open>The interceptor of \<^verbatim>\<open>TLSFingerprintSpoofing\<close>; \<open>drained\<close> is how much of a request's body \<^verbatim>\<open>httpcloak\<close> reads,
  and it is not given the body of a GET or HEAD.\<close>

definition fingerprint_interceptor :: "cloakClient \<Rightarrow> (cloakRequest \<Rightarrow> string \<Rightarrow> nat) \<Rightarrow> string \<Rightarrow> interceptor" where
  "fingerprint_interceptor do drained preset ctx r body host p =
     (tlsFingerprint_RoundTrip do preset r host p,
      if cq_HasBody (cloak_request r host) then drained (cloak_request r host) body else 0)"

definition TLSFingerprintSpoofing :: "(string \<Rightarrow> (HTTPRequest \<times> string) option) \<Rightarrow> (error \<Rightarrow> string) \<Rightarrow> (nat \<Rightarrow> ('k, 'd) tlsCert clientTLS) \<Rightarrow> ('w, 'k, 'd) crypto \<Rightarrow>
    ('d \<Rightarrow> string + 'd) \<Rightarrow> cloakClient \<Rightarrow> (cloakRequest \<Rightarrow> string \<Rightarrow> nat) \<Rightarrow> ('k, 'd) tlsCert \<Rightarrow> string \<Rightarrow> 's handler \<Rightarrow>
    (('k, 'd) ForgedCertProvider \<times> ('k, 'd, 'w, 's) mitmHandler) outcome" where
  "TLSFingerprintSpoofing readReq errText tls cr parseCert do drained ca preset inner =
     forged_MITM parseCert ca
       (mitm_Resolve readReq errText tls (ForgedCertProvider_CertForHost cr) (fingerprint_interceptor do drained preset) inner)"

text \<open>Which CAs the constructors take: those whose first certificate parses.\<close>

lemma forged_MITM_cases:
  "forged_MITM parseCert ca mitm =
     (case tc_Certificate ca of
        [] \<Rightarrow> Panicked IndexOutOfRange
      | der # _ \<Rightarrow>
          (case parseCert der of
             Inl e \<Rightarrow> Panicked PanicErr
           | Inr caCert \<Rightarrow> Ret (\<lparr>fp_CA = ca, fp_caCert = caCert, fp_cache = \<lparr>cc_certs = None\<rparr>\<rparr>, mitm)))"
  by (simp add: forged_MITM_def NewForgedCertProvider_def split: list.split sum.split)

text \<open>The cache a new provider starts with is empty, so the first certificate of a host is forged for
  that host: as a DNS name, or as an address if it parses as one.\<close>

lemma forged_first_cert:
  assumes "forged_MITM parseCert ca mitm = Ret (p, h)"
  shows "ForgedCertProvider_CertForHost cr host (p, w) =
    (case forgeCert cr host (fp_caCert p) (tc_PrivateKey ca) w of
       (Ret cert, w') \<Rightarrow> (Ret (Inr cert), p\<lparr>fp_cache := \<lparr>cc_certs = Some [host \<mapsto> cert]\<rparr>\<rparr>, w')
     | (Panicked x, w') \<Rightarrow> (Panicked x, p\<lparr>fp_cache := \<lparr>cc_certs = Some Map.empty\<rparr>\<rparr>, w'))"
proof -
  have p: "fp_cache p = \<lparr>cc_certs = None\<rparr>" "fp_CA p = ca"
    using assms by (auto simp: forged_MITM_cases split: list.splits sum.splits)
  show ?thesis
    by (simp add: ForgedCertProvider_CertForHost_def CertCache_Get_def cc_make_def cc_lookup_def cc_locked_def p
        split: prod.split outcome.split)
qed

lemma leaf_template_names:
  "ct_CommonName (leaf_template host n t1 t2) = host \<and>
   (if ParseIP_ok host then ct_IPAddresses (leaf_template host n t1 t2) = [host] \<and> ct_DNSNames (leaf_template host n t1 t2) = []
    else ct_DNSNames (leaf_template host n t1 t2) = [host] \<and> ct_IPAddresses (leaf_template host n t1 t2) = [])"
  by (simp add: leaf_template_def)

end
