(* ===== verification/Spec2Isabelle.thy ===== *)
theory Spec2Isabelle
  imports ServiceRuns Lifecycle Interceptors
begin

text \<open>
  \<^bold>\<open>A verification library of the proxy rotator.\<close>

  The repository is a Go program \<^verbatim>\<open>proxy-gateway\<close> on a Go library \<^verbatim>\<open>proxy-kit\<close>. A client speaks HTTP or
  SOCKS5 to the gateway; a pipeline of handlers authenticates it, limits its rate, keeps its
  session sticky and chooses an upstream proxy from a configured source; the gateway dials the
  target through that proxy and relays. An interception (MITM) handler can decrypt the traffic, and an
  admin API shows and rotates the sessions.

  \<^bold>\<open>Parts, theories and source files.\<close>

  \<^item> \<open>Prelude\<close>, \<open>GoStrings\<close>, \<open>Base64\<close>, \<open>Net\<close>, \<open>Header\<close>: what the program uses of Go and its standard library.
    Signed 64-bit arithmetic with its wrap-around, panics as outcomes, the package \<^verbatim>\<open>strings\<close>, base64,
    byte streams with \<^verbatim>\<open>io.ReadFull\<close>, the printing and parsing of addresses, \<^verbatim>\<open>net.SplitHostPort\<close>, header
    maps and response writers. \<open>Net\<close> also has \<^verbatim>\<open>hostPort\<close> (\<^verbatim>\<open>net_helpers.go\<close>) and \<^verbatim>\<open>targetHost\<close> (\<^verbatim>\<open>mitm.go\<close>).
  \<^item> \<open>Utf8\<close>, \<open>Json\<close>, \<open>JsonParser\<close>, \<open>JsonValues\<close>: UTF-8 and \<^verbatim>\<open>encoding/json\<close> down to the bytes: the escaping of strings, the
    parser with its nesting limit, the values of an \<^verbatim>\<open>interface{}\<close>, sorted keys, and that printing and
    parsing are inverse.
  \<^item> \<open>SessionSeed\<close>: \<^verbatim>\<open>session_seed.go\<close>, FNV-1a seeds on 64-bit words, derived keys and picks.
  \<^item> \<open>Core\<close>: \<^verbatim>\<open>protocol.go\<close>, \<^verbatim>\<open>proxy.go\<close>, \<^verbatim>\<open>context.go\<close>, \<^verbatim>\<open>handler.go\<close>, \<^verbatim>\<open>conn_tracker.go\<close>, \<^verbatim>\<open>utils/meta.go\<close>: the shared data
    types, errors as a datatype, contexts as chains of cells. A \<^verbatim>\<open>Handler\<close> is a function from context,
    request and state to a resolution (result and error, or a panic) and the new state.
  \<^item> \<open>Auth\<close>: \<^verbatim>\<open>auth.go\<close>, \<^verbatim>\<open>utils/auth_map.go\<close>.
  \<^item> \<open>CheapRandom\<close>, \<open>CountingPool\<close>, \<open>ProxyFormat\<close>, \<open>StaticFile\<close>, \<open>Providers\<close>: the random generator, the least-used
    pool, the proxy line formats, and the three sources of proxies (\<^verbatim>\<open>utils/\<close>).
  \<^item> \<open>RollingCounter\<close>, \<open>RateLimit\<close>: \<^verbatim>\<open>ratelimit.go\<close>. The counters of a key are shared between the limiter and the
    trackers of open connections, so they live in a store and trackers hold addresses.
  \<^item> \<open>SessionManager\<close>: \<^verbatim>\<open>utils/session_manager.go\<close>, by critical sections.
  \<^item> \<open>Affinity\<close>, \<open>Username\<close>, \<open>Gateway\<close>: \<^verbatim>\<open>affinity_params.go\<close>, \<^verbatim>\<open>username.go\<close>, \<^verbatim>\<open>pipeline.go\<close>: canonical affinity keys, the
    decoding of user names, the middleware, the router and the assembled pipeline.
  \<^item> \<open>Socks5\<close>, \<open>Relay\<close>, \<open>Upstream\<close>, \<open>Downstream\<close>, \<open>Listeners\<close>: the transports. \<^verbatim>\<open>socks5_downstream.go\<close>, \<^verbatim>\<open>relay.go\<close>,
    \<^verbatim>\<open>http_upstream.go\<close>, \<^verbatim>\<open>socks5_upstream.go\<close>, \<^verbatim>\<open>upstream.go\<close>, \<^verbatim>\<open>http_downstream.go\<close>, \<^verbatim>\<open>forward.go\<close>, \<^verbatim>\<open>gateway.go\<close>, \<^verbatim>\<open>transport.go\<close>.
  \<^item> \<open>Mitm\<close>, \<open>Interceptors\<close>: \<^verbatim>\<open>mitm.go\<close> and \<^verbatim>\<open>utils/tls_fingerprint_spoofing.go\<close>.
  \<^item> \<open>ConfigFile\<close>: \<^verbatim>\<open>config.go\<close>. The structs of the configuration, the choice of a decoder by the extension, and the
    decoding of JSON into the structs, field by field, from the bytes of the file.
  \<^item> \<open>Api\<close>: \<^verbatim>\<open>api.go\<close>, the routes and start-up decisions of \<^verbatim>\<open>server.go\<close> and \<^verbatim>\<open>main.go\<close>.
  \<^item> \<open>Service\<close>: \<^verbatim>\<open>RunServer\<close> of \<^verbatim>\<open>server.go\<close> at work. HTTP and SOCKS5 clients, admin requests and clean-ups are
    events on one shared state; a panic is recovered below an HTTP server and ends the process in a
    SOCKS5 goroutine.
  \<^item> \<open>ServiceRuns\<close>: what whole runs of the server keep, from the file it was configured with to its clients.
  \<^item> \<open>Lifecycle\<close>: \<^verbatim>\<open>RunServer\<close> from the signal to its return, as a step relation over its goroutines and the
    requests in flight.

  \<^bold>\<open>Interfaces.\<close> A component that relies on another does so through a locale, interpreted on the model
  of the provider: \<open>codec\<close> (base64, port numbers, JSON), \<open>reader\<close> (a parser that reads back what a
  printer wrote), \<open>inj_step\<close> (running hashes), \<open>authenticator\<close>, \<open>selection_pool\<close>, \<open>proxy_source\<close> (every source and the session manager on top of one),
  \<open>timed_source\<close>, \<open>clock_source\<close>, \<open>counter_operation\<close>, \<open>limited_handler\<close> (what a limiter asks of the handler behind
  it), \<open>before_deadline\<close>, \<open>tracked_server\<close> (what the servers ask of a handler and its trackers), and
  \<open>closed_handler\<close>, \<open>safe_handler\<close>, \<open>closed_backend\<close>, \<open>safe_backend\<close> (what the listeners ask of a pipeline, and the session
  manager of the router behind it, to keep their invariants and to stay up), \<open>service_inv\<close> (what pipeline, admin API
  and clean-up keep, every run of the server keeps), and \<open>decoder_inv\<close> (what the decoder of a struct keeps, the
  decoders of slices, pointers and structs of it keep).

  \<^bold>\<open>What is shown.\<close>

  \<^item> Sessions: stickiness until the deadline, consistency under interleavings, rotation, and that the
    affinity key identifies set and metadata, nested values included; the lost update of overlapping rotations.
    Stickiness holds through the running server, whatever other clients, admin requests and clean-ups come in
    between, as long as no admin request rotates the session (\<open>service_sticky\<close>).
  \<^item> Limits: the concurrent limit in every reachable state and under every interleaving of the atomic
    operations; byte limits on what relays deliver; the rolling counter as a tumbling window; the
    leak with several concurrent rules, the bypass by cached sessions.
  \<^item> Sources: even distribution, determinism under a seed, round trips of proxy lines and files.
  \<^item> Transports: the SOCKS5 negotiation reads back what a client encodes; a relay delivers prefixes, all of
    it if nothing fails, and ends after a cancellation; when the CONNECT client returns and what it
    accepts; credentials and headers of forwarded requests; the servers close every tracker they open.
  \<^item> Interception: one certificate per host under concurrency, termination, and the trackers it leaks.
  \<^item> User names: whatever bytes a client sends, a parsed user name is well-formed, and the text of a
    well-formed one parses back.
  \<^item> The running server: a sound configuration never goes down, whoever connects; a client without the
    password changes nothing and uses no upstream; every JSON configuration with a Bottingtools product gives a
    server that one SOCKS5 client ends (\<open>json_bottingtools_gateway_dies\<close>); when \<^verbatim>\<open>RunServer\<close> returns, and that it does not wait for the HTTP requests.
  \<^item> Configuration: the JSON text of a configuration loads as that configuration, and no JSON text sets the
    typed sections of a Bottingtools product.
  \<^item> Gateway and API: the gate of the pipeline, requests of one affinity share a proxy, the key guards the
    API, and every listed session can be addressed by the name shown.

  \<^bold>\<open>Parameters and bounds.\<close> Code outside the repository is an argument: clocks, \<^verbatim>\<open>net.Dial\<close>, \<^verbatim>\<open>RoundTrip\<close>, TLS,
  X.509 and key generation, \<^verbatim>\<open>http.ReadRequest\<close>, \<^verbatim>\<open>golang.org/x/net/proxy\<close>, \<^verbatim>\<open>httpcloak\<close>, \<^verbatim>\<open>chi\<close>, the TOML and
  YAML decoders, and of the standard library the conversion of numbers from and to text, the verb \<^verbatim>\<open>%v\<close> on a
  dynamic value and the texts of errors. The list loop of the JSON parser has the length of its
  input as fuel, enough because every element takes a byte (\<open>read_list_fuel\<close>); the nesting limit of 10000 is
  the library's own. The interception loop has fuel one more than the length of the decrypted stream,
  which is enough because every request takes a byte (\<open>mitm_loop_returns\<close>); the CONNECT client and the relay return \<open>None\<close> while they wait for a peer. Goroutines
  appear as sequences of atomic steps, critical sections or reads and writes, and the theorems
  quantify over every order.

  \<^bold>\<open>Not modelled.\<close> Logging, the \<^verbatim>\<open>Describe\<close> line of the static file source, and listening
  sockets are input and output without state of the program; deadlines of connections are the end of
  their streams. The decoders of TOML and YAML are packages outside the repository and parameters of
  \<^verbatim>\<open>LoadConfig\<close>. The JSON decoder takes what a slice held beyond its length after it shrank as zero, which matters
  only when one array field occurs three times in an object. The TypeScript client and the other files beside
  the two Go modules are not part of the library.
\<close>

end
